(* ===== verification/Rust_Prelude.thy ===== *)
theory Rust_Prelude
  imports Main "HOL-Library.Word"
begin

text \<open>
  What every component of the model shares: the machine integers of the code, panics as
  values, the checked arithmetic of a debug build (\<^verbatim>\<open>cargo build\<close> in \<^verbatim>\<open>run.sh\<close> compiles
  with overflow checks, so an overflowing \<^verbatim>\<open>+\<close>, \<^verbatim>\<open>-\<close> or \<^verbatim>\<open>*\<close> panics), and generic lemmas
  on lists and options. \<^verbatim>\<open>usize\<close> values that only count or index are \<open>nat\<close>; where an
  overflow can be reached the operation is one of the checked ones below.
\<close>

subsection \<open>Machine integers\<close>

type_synonym u8 = "8 word"
type_synonym u16 = "16 word"
type_synonym u32 = "32 word"
type_synonym u64 = "64 word"

subsection \<open>Panics\<close>

text \<open>
  A panic stops the kernel (the panic handler prints the message and halts). A wild access
  is a raw-pointer access outside the memory it is meant for: undefined behaviour.
\<close>

datatype panic =
    Panic string
  | Wild_Access nat

type_synonym 'a res = "panic + 'a"

definition bind_res :: "'a res \<Rightarrow> ('a \<Rightarrow> 'b res) \<Rightarrow> 'b res" where
  "bind_res m f = (case m of Inl e \<Rightarrow> Inl e | Inr x \<Rightarrow> f x)"

lemma bind_res_simps [simp]:
  "bind_res (Inl e) f = Inl e"
  "bind_res (Inr x) f = f x"
  by (simp_all add: bind_res_def)

lemma bind_res_eq_Inr: "bind_res m f = Inr y \<longleftrightarrow> (\<exists>x. m = Inr x \<and> f x = Inr y)"
  by (cases m) auto

lemma bind_res_cong [fundef_cong]:
  "m = m' \<Longrightarrow> (\<And>x. m' = Inr x \<Longrightarrow> f x = f' x) \<Longrightarrow> bind_res m f = bind_res m' f'"
  by (cases m') auto

definition is_ok :: "'a res \<Rightarrow> bool" where
  "is_ok m = (case m of Inl _ \<Rightarrow> False | Inr _ \<Rightarrow> True)"

lemma is_ok_simps [simp]: "is_ok (Inr x)" "\<not> is_ok (Inl e)"
  by (simp_all add: is_ok_def)

lemma is_ok_iff: "is_ok m \<longleftrightarrow> (\<exists>x. m = Inr x)"
  by (cases m) auto

text \<open>The results of a fallible function along a list, stopping at the first panic.\<close>

fun map_res :: "('a \<Rightarrow> 'b res) \<Rightarrow> 'a list \<Rightarrow> 'b list res" where
  "map_res f [] = Inr []"
| "map_res f (x # xs) = bind_res (f x) (\<lambda>y. bind_res (map_res f xs) (\<lambda>ys. Inr (y # ys)))"

text \<open>A \<^verbatim>\<open>for\<close> loop whose body may panic.\<close>

fun fold_res :: "('a \<Rightarrow> 's \<Rightarrow> 's res) \<Rightarrow> 'a list \<Rightarrow> 's \<Rightarrow> 's res" where
  "fold_res f [] s = Inr s"
| "fold_res f (x # xs) s = bind_res (f x s) (fold_res f xs)"

subsection \<open>Checked arithmetic\<close>

definition usize_bound :: nat where
  "usize_bound = 2 ^ 64"

definition fits_usize :: "nat \<Rightarrow> bool" where
  "fits_usize n = (int n < 2 ^ 64)"

lemma fits_usize_iff: "fits_usize n \<longleftrightarrow> n < usize_bound"
proof -
  have "int n < int usize_bound \<longleftrightarrow> n < usize_bound" by simp
  then show ?thesis by (simp add: fits_usize_def usize_bound_def)
qed

definition add_usize :: "nat \<Rightarrow> nat \<Rightarrow> nat res" where
  "add_usize a b =
     (if fits_usize (a + b) then Inr (a + b) else Inl (Panic ''attempt to add with overflow''))"

definition sub_usize :: "nat \<Rightarrow> nat \<Rightarrow> nat res" where
  "sub_usize a b =
     (if b \<le> a then Inr (a - b) else Inl (Panic ''attempt to subtract with overflow''))"

definition mul_usize :: "nat \<Rightarrow> nat \<Rightarrow> nat res" where
  "mul_usize a b =
     (if fits_usize (a * b) then Inr (a * b)
      else Inl (Panic ''attempt to multiply with overflow''))"

text \<open>The same on words, for values the code keeps as \<^verbatim>\<open>u8\<close>, \<^verbatim>\<open>u16\<close> or \<^verbatim>\<open>u64\<close>.\<close>

definition checked_add :: "'w::len word \<Rightarrow> 'w word \<Rightarrow> 'w word res" where
  "checked_add a b =
     (if uint a + uint b < 2 ^ LENGTH('w) then Inr (a + b)
      else Inl (Panic ''attempt to add with overflow''))"

definition checked_mul :: "'w::len word \<Rightarrow> 'w word \<Rightarrow> 'w word res" where
  "checked_mul a b =
     (if uint a * uint b < 2 ^ LENGTH('w) then Inr (a * b)
      else Inl (Panic ''attempt to multiply with overflow''))"

lemma uint_fits_add:
  fixes a b :: "'w::len word"
  shows "uint a + uint b < 2 ^ LENGTH('w) \<longleftrightarrow> unat a + unat b < 2 ^ LENGTH('w)"
proof -
  have "uint a + uint b = int (unat a + unat b)" by simp
  then show ?thesis by (simp only: of_nat_less_numeral_power_cancel_iff)
qed

lemma uint_fits_mul:
  fixes a b :: "'w::len word"
  shows "uint a * uint b < 2 ^ LENGTH('w) \<longleftrightarrow> unat a * unat b < 2 ^ LENGTH('w)"
proof -
  have "uint a * uint b = int (unat a * unat b)" by simp
  then show ?thesis by (simp only: of_nat_less_numeral_power_cancel_iff)
qed

lemma checked_add_Inr_iff:
  fixes a b :: "'w::len word"
  shows "checked_add a b = Inr c \<longleftrightarrow> unat a + unat b < 2 ^ LENGTH('w) \<and> c = a + b"
  by (auto simp: checked_add_def uint_fits_add)

lemma checked_mul_Inr_iff:
  fixes a b :: "'w::len word"
  shows "checked_mul a b = Inr c \<longleftrightarrow> unat a * unat b < 2 ^ LENGTH('w) \<and> c = a * b"
  by (auto simp: checked_mul_def uint_fits_mul)

lemma checked_add_InrD: "checked_add a b = Inr c \<Longrightarrow> unat c = unat a + unat b"
  by (auto simp: checked_add_Inr_iff unat_word_ariths)

lemma checked_mul_InrD: "checked_mul a b = Inr c \<Longrightarrow> unat c = unat a * unat b"
  by (auto simp: checked_mul_Inr_iff unat_word_ariths)

lemma add_usize_Inr_iff: "add_usize a b = Inr c \<longleftrightarrow> a + b < usize_bound \<and> c = a + b"
  by (auto simp: add_usize_def fits_usize_iff)

lemma mul_usize_Inr_iff: "mul_usize a b = Inr c \<longleftrightarrow> a * b < usize_bound \<and> c = a * b"
  by (auto simp: mul_usize_def fits_usize_iff)

lemma sub_usize_Inr_iff: "sub_usize a b = Inr c \<longleftrightarrow> b \<le> a \<and> c = a - b"
  by (auto simp: sub_usize_def)

subsection \<open>Collections of facts\<close>

named_theorems op_simps "equations that unfold an operation on every branch"
named_theorems inv_intros "every operation keeps its component's invariant"

subsection \<open>Lists\<close>

text \<open>The first index that satisfies a predicate: \<^verbatim>\<open>iter().position(..)\<close> and the
  \<^verbatim>\<open>for .. enumerate() .. break\<close> loops of the code.\<close>

fun position :: "('a \<Rightarrow> bool) \<Rightarrow> 'a list \<Rightarrow> nat option" where
  "position P [] = None"
| "position P (x # xs) = (if P x then Some 0 else map_option Suc (position P xs))"

lemma position_Some:
  "position P xs = Some i \<Longrightarrow> i < length xs \<and> P (xs ! i) \<and> (\<forall>j<i. \<not> P (xs ! j))"
proof (induction xs arbitrary: i)
  case Nil
  then show ?case by simp
next
  case (Cons x xs)
  show ?case
  proof (cases "P x")
    case True
    with Cons.prems show ?thesis by auto
  next
    case False
    with Cons.prems obtain k where k: "position P xs = Some k" "i = Suc k" by auto
    from Cons.IH [OF k(1)] False k(2) show ?thesis by (auto simp: less_Suc_eq_0_disj)
  qed
qed

lemma position_None: "position P xs = None \<longleftrightarrow> (\<forall>x\<in>set xs. \<not> P x)"
  by (induction xs) auto

lemma position_eq_SomeI:
  "i < length xs \<Longrightarrow> P (xs ! i) \<Longrightarrow> (\<And>j. j < i \<Longrightarrow> \<not> P (xs ! j)) \<Longrightarrow> position P xs = Some i"
proof (induction xs arbitrary: i)
  case Nil
  then show ?case by simp
next
  case (Cons x xs)
  show ?case
  proof (cases i)
    case 0
    with Cons.prems show ?thesis by simp
  next
    case (Suc k)
    have "\<not> P x" using Cons.prems(3) [of 0] Suc by simp
    moreover have "position P xs = Some k"
    proof (rule Cons.IH)
      show "\<not> P (xs ! j)" if "j < k" for j
        using Cons.prems(3) [of "Suc j"] that Suc by simp
    qed (use Cons.prems Suc in auto)
    ultimately show ?thesis using Suc by simp
  qed
qed

text \<open>\<^verbatim>\<open>Vec::remove\<close>: drop the element at an index.\<close>

definition remove_at :: "nat \<Rightarrow> 'a list \<Rightarrow> 'a list" where
  "remove_at i xs = take i xs @ drop (Suc i) xs"

lemma set_remove_at_subset: "set (remove_at i xs) \<subseteq> set xs"
  by (auto simp: remove_at_def dest: in_set_takeD in_set_dropD)

lemma map_remove_at: "map f (remove_at i xs) = remove_at i (map f xs)"
  by (simp add: remove_at_def take_map drop_map)

lemma distinct_remove_at: "distinct xs \<Longrightarrow> distinct (remove_at i xs)"
  by (auto simp: remove_at_def set_take_disj_set_drop_if_distinct)

lemma set_remove_at_distinct:
  "distinct xs \<Longrightarrow> i < length xs \<Longrightarrow> set (remove_at i xs) = set xs - {xs ! i}"
proof -
  assume d: "distinct xs" and i: "i < length xs"
  have split: "xs = take i xs @ xs ! i # drop (Suc i) xs"
    using i by (rule id_take_nth_drop)
  have "xs ! i \<notin> set (take i xs)" "xs ! i \<notin> set (drop (Suc i) xs)"
    using d i by (subst (asm) split, simp)+
  then show ?thesis
    by (subst (2) split) (auto simp: remove_at_def)
qed

lemma length_remove_at: "i < length xs \<Longrightarrow> length (remove_at i xs) = length xs - 1"
  by (simp add: remove_at_def)

subsection \<open>Transition systems\<close>

text \<open>
  The contract between a component with steps and its invariant: every start state
  satisfies it and every step keeps it. What follows is that it holds in every reachable
  state.
\<close>

locale safety =
  fixes start :: "'s \<Rightarrow> bool"
    and step :: "'s \<Rightarrow> 's \<Rightarrow> bool"
    and inv :: "'s \<Rightarrow> bool"
  assumes start_inv: "start s \<Longrightarrow> inv s"
    and step_inv: "inv s \<Longrightarrow> step s t \<Longrightarrow> inv t"
begin

lemma steps_inv: "step\<^sup>*\<^sup>* s t \<Longrightarrow> inv s \<Longrightarrow> inv t"
  by (induction rule: rtranclp_induct) (auto intro: step_inv)

lemma reachable_inv: "start s \<Longrightarrow> step\<^sup>*\<^sup>* s t \<Longrightarrow> inv t"
  by (blast intro: start_inv steps_inv)

end

text \<open>
  The contract between a detailed system and an abstract one: in the states the invariant
  allows, every detailed step either is a step of the abstract system or leaves its state
  as it is. Whole runs are then runs of the abstract system, and what holds in every state
  it reaches holds of every reachable detailed state.
\<close>

locale stuttering_refinement = safety start step inv
  for start :: "'s \<Rightarrow> bool" and step :: "'s \<Rightarrow> 's \<Rightarrow> bool" and inv :: "'s \<Rightarrow> bool" +
  fixes abstract_start :: "'a \<Rightarrow> bool"
    and abstract_step :: "'a \<Rightarrow> 'a \<Rightarrow> bool"
    and abs :: "'s \<Rightarrow> 'a"
  assumes start_abs: "start s \<Longrightarrow> abstract_start (abs s)"
    and step_abs: "inv s \<Longrightarrow> step s t \<Longrightarrow> abs t = abs s \<or> abstract_step (abs s) (abs t)"
begin

lemma steps_abs: "step\<^sup>*\<^sup>* s t \<Longrightarrow> inv s \<Longrightarrow> abstract_step\<^sup>*\<^sup>* (abs s) (abs t)"
proof (induction rule: rtranclp_induct)
  case (step t u)
  have "inv t" using step.hyps(1) step.prems by (rule steps_inv)
  with step.hyps(2) have "abs u = abs t \<or> abstract_step (abs t) (abs u)" by (intro step_abs)
  with step.IH [OF step.prems] show ?case by auto
qed simp

lemma reachable_abs:
  "start s \<Longrightarrow> step\<^sup>*\<^sup>* s t \<Longrightarrow> abstract_start (abs s) \<and> abstract_step\<^sup>*\<^sup>* (abs s) (abs t)"
  by (blast intro: start_abs start_inv steps_abs)

end

end
