(* ===== verification/Rust_Strings.thy ===== *)
theory Rust_Strings
  imports Rust_Prelude
begin

text \<open>
  The parts of Rust's string library the kernel uses. A \<^verbatim>\<open>&str\<close> or \<^verbatim>\<open>String\<close> is its list
  of UTF-8 bytes, an Isabelle \<open>string\<close> (a \<open>char\<close> is a byte), so \<^verbatim>\<open>as_bytes\<close> is the
  identity and \<^verbatim>\<open>from_utf8\<close> is the check \<open>utf8_valid\<close>. Byte indices, as \<^verbatim>\<open>find\<close> and
  \<^verbatim>\<open>rfind\<close> return them, are list positions. Whitespace is ASCII whitespace: every string
  the kernel trims is typed at a keyboard or a serial line, whose decoders let only
  printable ASCII through.
\<close>

subsection \<open>Searching and trimming\<close>

definition str_find :: "char \<Rightarrow> string \<Rightarrow> nat option" where
  "str_find c s = position (\<lambda>x. x = c) s"

definition str_rfind :: "char \<Rightarrow> string \<Rightarrow> nat option" where
  "str_rfind c s = map_option (\<lambda>k. length s - Suc k) (position (\<lambda>x. x = c) (rev s))"

definition trim_by :: "('a \<Rightarrow> bool) \<Rightarrow> 'a list \<Rightarrow> 'a list" where
  "trim_by P s = rev (dropWhile P (rev (dropWhile P s)))"

definition trim_matches :: "char \<Rightarrow> string \<Rightarrow> string" where
  "trim_matches c = trim_by (\<lambda>x. x = c)"

definition is_whitespace :: "char \<Rightarrow> bool" where
  "is_whitespace c = (let n = (of_char c :: nat) in n = 32 \<or> (9 \<le> n \<and> n \<le> 13))"

definition trim :: "string \<Rightarrow> string" where
  "trim = trim_by is_whitespace"

definition starts_with :: "char \<Rightarrow> string \<Rightarrow> bool" where
  "starts_with c s = (case s of [] \<Rightarrow> False | x # _ \<Rightarrow> x = c)"

definition ends_with :: "char \<Rightarrow> string \<Rightarrow> bool" where
  "ends_with c s = starts_with c (rev s)"

subsection \<open>Splitting and joining\<close>

fun split_by :: "('a \<Rightarrow> bool) \<Rightarrow> 'a list \<Rightarrow> 'a list list" where
  "split_by P [] = [[]]"
| "split_by P (x # xs) =
     (if P x then [] # split_by P xs
      else (case split_by P xs of [] \<Rightarrow> [[x]] | w # ws \<Rightarrow> (x # w) # ws))"

definition split_on :: "char \<Rightarrow> string \<Rightarrow> string list" where
  "split_on c = split_by (\<lambda>x. x = c)"

definition split_whitespace :: "string \<Rightarrow> string list" where
  "split_whitespace s = filter (\<lambda>w. w \<noteq> []) (split_by is_whitespace s)"

fun join :: "string \<Rightarrow> string list \<Rightarrow> string" where
  "join sep [] = []"
| "join sep [w] = w"
| "join sep (w # v # ws) = w @ sep @ join sep (v # ws)"

lemma split_by_neq_Nil [simp]: "split_by P xs \<noteq> []"
  by (cases xs) (auto split: list.splits)

lemma split_by_append:
  "P x \<Longrightarrow> split_by P (xs @ x # ys) = split_by P xs @ split_by P ys"
  by (induction xs) (auto split: list.splits)

lemma split_by_id: "\<forall>x\<in>set xs. \<not> P x \<Longrightarrow> split_by P xs = [xs]"
  by (induction xs) auto

lemma split_by_pieces: "w \<in> set (split_by P xs) \<Longrightarrow> x \<in> set w \<Longrightarrow> \<not> P x \<and> x \<in> set xs"
proof (induction xs arbitrary: w)
  case Nil
  then show ?case by simp
next
  case (Cons y ys)
  obtain v vs where v: "split_by P ys = v # vs"
    using split_by_neq_Nil [of P ys] by (cases "split_by P ys") auto
  show ?case
    using Cons.prems Cons.IH [of v] Cons.IH [of w] v by (auto split: if_splits)
qed

lemma split_join:
  assumes "P c" "ws \<noteq> []" "\<forall>w\<in>set ws. \<forall>x\<in>set w. \<not> P x"
  shows "split_by P (join [c] ws) = ws"
  using assms(2,3)
proof (induction "[c]" ws rule: join.induct)
  case 1
  then show ?case by simp
next
  case (2 w)
  then show ?case by (simp add: split_by_id)
next
  case (3 w v ws)
  have "split_by P (w @ c # join [c] (v # ws)) = split_by P w @ split_by P (join [c] (v # ws))"
    by (rule split_by_append) (rule assms(1))
  also have "\<dots> = [w] @ v # ws"
    using 3 by (simp add: split_by_id)
  finally show ?case by simp
qed

lemma set_join: "set (join sep ws) \<subseteq> set sep \<union> (\<Union>w\<in>set ws. set w)"
  by (induction sep ws rule: join.induct) auto

subsection \<open>The parts of a path\<close>

text \<open>The pieces between slashes, the empty ones dropped: the code's
  \<^verbatim>\<open>split('/').filter(|s| !s.is_empty())\<close>.\<close>

abbreviation slash :: char where
  "slash \<equiv> CHR ''/''"

definition path_parts :: "string \<Rightarrow> string list" where
  "path_parts s = filter (\<lambda>w. w \<noteq> []) (split_on slash s)"

lemma path_parts_Nil [simp]: "path_parts [] = []"
  by (simp add: path_parts_def split_on_def)

lemma path_parts_slash [simp]: "path_parts (slash # s) = path_parts s"
  by (simp add: path_parts_def split_on_def)

lemma path_parts_append_slash:
  "path_parts (xs @ slash # ys) = path_parts xs @ path_parts ys"
  by (simp add: path_parts_def split_on_def split_by_append)

lemma path_parts_single:
  "slash \<notin> set w \<Longrightarrow> w \<noteq> [] \<Longrightarrow> path_parts w = [w]"
  by (simp add: path_parts_def split_on_def, subst split_by_id) auto

lemma path_parts_dropWhile: "path_parts (dropWhile (\<lambda>x. x = slash) s) = path_parts s"
  by (induction s) auto

lemma path_parts_snoc_slash: "path_parts (s @ [slash]) = path_parts s"
  using path_parts_append_slash [of s "[]"] by simp

lemma path_parts_drop_trailing:
  "path_parts (rev (dropWhile (\<lambda>x. x = slash) s)) = path_parts (rev s)"
  by (induction s) (auto simp: path_parts_snoc_slash)

lemma path_parts_trim [simp]: "path_parts (trim_matches slash s) = path_parts s"
  by (simp add: trim_matches_def trim_by_def path_parts_drop_trailing path_parts_dropWhile)

lemma path_parts_props:
  "w \<in> set (path_parts s) \<Longrightarrow> w \<noteq> [] \<and> slash \<notin> set w \<and> set w \<subseteq> set s"
  by (auto simp: path_parts_def split_on_def dest: split_by_pieces)

lemma trim_by_last: "trim_by P s \<noteq> [] \<Longrightarrow> \<not> P (last (trim_by P s))"
  using hd_dropWhile [of P "rev (dropWhile P s)"] by (simp add: trim_by_def last_rev)

text \<open>
  Splitting a trimmed, non-empty path at its last slash: the directory part and the last
  component. This is the \<^verbatim>\<open>match clean_path.rfind('/')\<close> of every operation that creates
  or removes a node.
\<close>

definition split_parent :: "string \<Rightarrow> string \<times> string" where
  "split_parent s =
     (case str_rfind slash s of
        Some idx \<Rightarrow> (take idx s, drop (idx + 1) s)
      | None \<Rightarrow> ([], s))"

lemma str_rfind_Some:
  assumes "str_rfind c s = Some i"
  shows "i < length s" "s = take i s @ c # drop (Suc i) s" "c \<notin> set (drop (Suc i) s)"
proof -
  from assms obtain k where k: "position (\<lambda>x. x = c) (rev s) = Some k" and i: "i = length s - Suc k"
    by (auto simp: str_rfind_def)
  from position_Some [OF k] have k': "k < length s" "rev s ! k = c" "\<forall>j<k. rev s ! j \<noteq> c"
    by auto
  show il: "i < length s" using k' i by simp
  have ci: "s ! i = c" using k' i by (simp add: rev_nth)
  show "s = take i s @ c # drop (Suc i) s"
    using id_take_nth_drop [OF il] ci by simp
  show "c \<notin> set (drop (Suc i) s)"
  proof
    assume "c \<in> set (drop (Suc i) s)"
    then obtain m where m: "m < length s - Suc i" "drop (Suc i) s ! m = c"
      by (auto simp: in_set_conv_nth)
    then have m: "Suc i + m < length s" "s ! (Suc i + m) = c"
      by auto
    then have "rev s ! (length s - Suc (Suc i + m)) = c"
      by (simp add: rev_nth)
    moreover have "length s - Suc (Suc i + m) < k" using m k' i by simp
    ultimately show False using k'(3) by blast
  qed
qed

lemma str_rfind_None: "str_rfind c s = None \<longleftrightarrow> c \<notin> set s"
  by (auto simp: str_rfind_def position_None)

lemma split_parent_parts:
  assumes "trim_matches slash path \<noteq> []"
      and "split_parent (trim_matches slash path) = (parent, name)"
  shows "path_parts path = path_parts parent @ [name]"
    and "name \<noteq> []" and "slash \<notin> set name"
proof -
  let ?s = "trim_matches slash path"
  have l: "last ?s \<noteq> slash"
    using trim_by_last assms(1) unfolding trim_matches_def by blast
  have *: "path_parts ?s = path_parts parent @ [name] \<and> name \<noteq> [] \<and> slash \<notin> set name"
  proof (cases "str_rfind slash ?s")
    case None
    with assms show ?thesis
      by (auto simp: split_parent_def str_rfind_None path_parts_single)
  next
    case (Some i)
    note s = str_rfind_Some [OF Some]
    from Some assms(2) have pn: "parent = take i ?s" "name = drop (Suc i) ?s"
      by (auto simp: split_parent_def)
    have "name \<noteq> []"
    proof
      assume "name = []"
      then have "last ?s = slash" using s(2) pn by (metis last_snoc)
      with l show False ..
    qed
    moreover have "slash \<notin> set name" using s(3) pn by simp
    moreover have "path_parts ?s = path_parts parent @ path_parts name"
      using s(2) pn path_parts_append_slash by metis
    ultimately show ?thesis by (simp add: path_parts_single)
  qed
  then show "path_parts path = path_parts parent @ [name]" "name \<noteq> []" "slash \<notin> set name"
    by simp_all
qed

lemma trim_slash_Nil: "trim_matches slash path = [] \<longleftrightarrow> path_parts path = []"
proof
  assume "trim_matches slash path = []"
  then show "path_parts path = []" by (metis path_parts_Nil path_parts_trim)
next
  assume p: "path_parts path = []"
  show "trim_matches slash path = []"
  proof (rule ccontr)
    assume ne: "trim_matches slash path \<noteq> []"
    obtain a b where "split_parent (trim_matches slash path) = (a, b)"
      by fastforce
    from split_parent_parts(1) [OF ne this] p show False by simp
  qed
qed

end
