(* ===== verification/Rust_Format.thy ===== *)
theory Rust_Format
  imports Rust_Strings
begin

text \<open>
  Numbers as text: \<^verbatim>\<open>Display\<close> of integers, the padding of the format strings the kernel
  uses (\<open>{:>3}\<close>, \<open>{:<8}\<close>, \<open>{:02}\<close>, hexadecimal), \<^verbatim>\<open>str::parse\<close> for
  \<^verbatim>\<open>usize\<close> and \<^verbatim>\<open>i64\<close>, and the UTF-8 check of \<^verbatim>\<open>String::from_utf8\<close>.
\<close>

subsection \<open>Decimal digits\<close>

definition digit_char :: "nat \<Rightarrow> char" where
  "digit_char d = char_of (48 + d)"

definition is_digit :: "char \<Rightarrow> bool" where
  "is_digit c = (48 \<le> (of_char c :: nat) \<and> (of_char c :: nat) \<le> 57)"

definition digit_val :: "char \<Rightarrow> nat" where
  "digit_val c = of_char c - 48"

lemma digit_char_props [simp]:
  "d < 10 \<Longrightarrow> is_digit (digit_char d)"
  "d < 10 \<Longrightarrow> digit_val (digit_char d) = d"
  by (simp_all add: digit_char_def is_digit_def digit_val_def)

fun show_nat :: "nat \<Rightarrow> string" where
  "show_nat n = (if n < 10 then [digit_char n] else show_nat (n div 10) @ [digit_char (n mod 10)])"

declare show_nat.simps [simp del]

definition show_int :: "int \<Rightarrow> string" where
  "show_int i = (if i < 0 then CHR ''-'' # show_nat (nat (- i)) else show_nat (nat i))"

lemma show_nat_digits: "\<forall>c\<in>set (show_nat n). is_digit c"
proof (induction n rule: show_nat.induct)
  case (1 n)
  then show ?case by (subst show_nat.simps) auto
qed

lemma show_nat_neq_Nil [simp]: "show_nat n \<noteq> []"
  by (subst show_nat.simps) simp

subsection \<open>Parsing\<close>

fun digits_val :: "nat \<Rightarrow> string \<Rightarrow> nat option" where
  "digits_val acc [] = Some acc"
| "digits_val acc (c # cs) =
     (if is_digit c then digits_val (10 * acc + digit_val c) cs else None)"

text \<open>\<^verbatim>\<open>from_str_radix\<close> with radix 10: an optional sign (a lone sign is an error), at least
  one digit, an error for any other character and for a value out of range.\<close>

definition parse_usize :: "string \<Rightarrow> nat option" where
  "parse_usize s =
     (let ds = (case s of c # cs \<Rightarrow> if c = CHR ''+'' \<and> cs \<noteq> [] then cs else s | [] \<Rightarrow> [])
      in if ds = [] then None
         else case digits_val 0 ds of
           None \<Rightarrow> None
         | Some n \<Rightarrow> if fits_usize n then Some n else None)"

definition i64_min :: int where "i64_min = - (2 ^ 63)"
definition i64_max :: int where "i64_max = 2 ^ 63 - 1"

definition in_i64 :: "int \<Rightarrow> bool" where
  "in_i64 i = (i64_min \<le> i \<and> i \<le> i64_max)"

definition parse_i64 :: "string \<Rightarrow> int option" where
  "parse_i64 s =
     (case s of
        [] \<Rightarrow> None
      | c # cs \<Rightarrow>
          (let (neg, ds) = (if c = CHR ''-'' \<and> cs \<noteq> [] then (True, cs)
                            else if c = CHR ''+'' \<and> cs \<noteq> [] then (False, cs)
                            else (False, s))
           in case digits_val 0 ds of
             None \<Rightarrow> None
           | Some n \<Rightarrow> (let i = (if neg then - int n else int n)
                        in if in_i64 i then Some i else None)))"

lemma digits_val_append:
  "digits_val acc (xs @ ys) = Option.bind (digits_val acc xs) (\<lambda>n. digits_val n ys)"
  by (induction xs arbitrary: acc) auto

lemma digits_val_show_nat: "digits_val 0 (show_nat n) = Some n"
proof (induction n rule: show_nat.induct)
  case (1 n)
  show ?case
  proof (cases "n < 10")
    case True
    then show ?thesis by (subst show_nat.simps) simp
  next
    case False
    with 1 have "digits_val 0 (show_nat (n div 10)) = Some (n div 10)" by simp
    then show ?thesis
      by (subst show_nat.simps) (simp add: False digits_val_append)
  qed
qed

lemma show_nat_inj: "show_nat m = show_nat n \<longleftrightarrow> m = n"
  by (metis digits_val_show_nat option.inject)

lemma show_nat_hd:
  obtains c cs where "show_nat n = c # cs" "is_digit c"
proof (cases "show_nat n")
  case (Cons c cs)
  then show ?thesis using that show_nat_digits [of n] by simp
qed simp

lemma digit_not_sign: "is_digit c \<Longrightarrow> c \<noteq> CHR ''+'' \<and> c \<noteq> CHR ''-'' \<and> c \<noteq> CHR ''.''"
  by (auto simp: is_digit_def)

lemma parse_usize_show_nat: "fits_usize n \<Longrightarrow> parse_usize (show_nat n) = Some n"
proof -
  assume n: "fits_usize n"
  obtain c cs where c: "show_nat n = c # cs" "is_digit c" by (rule show_nat_hd)
  then have "digits_val 0 (c # cs) = Some n" using digits_val_show_nat [of n] by simp
  with c n digit_not_sign [OF c(2)] show ?thesis
    by (simp add: parse_usize_def)
qed

lemma parse_usize_bound: "parse_usize s = Some n \<Longrightarrow> fits_usize n"
  by (auto simp: parse_usize_def Let_def split: if_splits option.splits)

lemma parse_i64_range: "parse_i64 s = Some i \<Longrightarrow> in_i64 i"
  by (auto simp: parse_i64_def Let_def split: if_splits option.splits list.splits prod.splits)

lemma parse_i64_show_int: "in_i64 i \<Longrightarrow> parse_i64 (show_int i) = Some i"
proof -
  assume i: "in_i64 i"
  show ?thesis
  proof (cases "i < 0")
    case True
    with i digits_val_show_nat [of "nat (- i)"] show ?thesis
      by (simp add: show_int_def parse_i64_def)
  next
    case False
    obtain c cs where c: "show_nat (nat i) = c # cs" "is_digit c" by (rule show_nat_hd)
    then have "digits_val 0 (c # cs) = Some (nat i)" using digits_val_show_nat [of "nat i"] by simp
    with c False i digit_not_sign [OF c(2)] show ?thesis
      by (simp add: show_int_def parse_i64_def)
  qed
qed

subsection \<open>Padding and hexadecimal\<close>

definition pad_left :: "char \<Rightarrow> nat \<Rightarrow> string \<Rightarrow> string" where
  "pad_left c w s = replicate (w - length s) c @ s"

definition pad_right :: "char \<Rightarrow> nat \<Rightarrow> string \<Rightarrow> string" where
  "pad_right c w s = s @ replicate (w - length s) c"

definition show_0pad :: "nat \<Rightarrow> nat \<Rightarrow> string" where
  "show_0pad w n = pad_left (CHR ''0'') w (show_nat n)"

lemma length_pad_left: "length (pad_left c w s) = max w (length s)"
  by (simp add: pad_left_def)

definition hex_char :: "nat \<Rightarrow> char" where
  "hex_char d = (if d < 10 then char_of (48 + d) else char_of (87 + d))"

fun show_hex :: "nat \<Rightarrow> string" where
  "show_hex n = (if n < 16 then [hex_char n] else show_hex (n div 16) @ [hex_char (n mod 16)])"

declare show_hex.simps [simp del]

text \<open>\<open>{:#x}\<close> and \<open>{:#014x}\<close>: the prefix counts toward the width.\<close>

definition show_hex_alt :: "nat \<Rightarrow> string" where
  "show_hex_alt n = ''0x'' @ show_hex n"

definition show_hex_alt0 :: "nat \<Rightarrow> nat \<Rightarrow> string" where
  "show_hex_alt0 w n = ''0x'' @ pad_left (CHR ''0'') (w - 2) (show_hex n)"

subsection \<open>UTF-8\<close>

definition byte_in :: "nat \<Rightarrow> nat \<Rightarrow> char \<Rightarrow> bool" where
  "byte_in lo hi c = (lo \<le> (of_char c :: nat) \<and> (of_char c :: nat) \<le> hi)"

fun utf8_valid :: "string \<Rightarrow> bool" where
  "utf8_valid [] = True"
| "utf8_valid (a # r) =
     (if byte_in 0 127 a then utf8_valid r
      else case r of [] \<Rightarrow> False
      | b # s \<Rightarrow>
          if byte_in 194 223 a then byte_in 128 191 b \<and> utf8_valid s
          else case s of [] \<Rightarrow> False
          | c # t \<Rightarrow>
              if byte_in 224 239 a then
                byte_in (if a = char_of (224::nat) then 160 else 128)
                        (if a = char_of (237::nat) then 159 else 191) b
                \<and> byte_in 128 191 c \<and> utf8_valid t
              else case t of [] \<Rightarrow> False
              | d # u \<Rightarrow>
                  byte_in 240 244 a
                  \<and> byte_in (if a = char_of (240::nat) then 144 else 128)
                            (if a = char_of (244::nat) then 143 else 191) b
                  \<and> byte_in 128 191 c \<and> byte_in 128 191 d \<and> utf8_valid u)"

definition is_ascii :: "string \<Rightarrow> bool" where
  "is_ascii s = (\<forall>c\<in>set s. byte_in 0 127 c)"

lemma ascii_utf8: "is_ascii s \<Longrightarrow> utf8_valid s"
  by (induction s) (auto simp: is_ascii_def)

text \<open>The printable characters, the only ones an input decoder produces.\<close>

definition is_printable :: "char \<Rightarrow> bool" where
  "is_printable = byte_in 32 126"

lemma printable_ascii: "\<forall>c\<in>set s. is_printable c \<Longrightarrow> is_ascii s"
  by (auto simp: is_ascii_def is_printable_def byte_in_def)

end
