(* ===== verification/File_Store.thy ===== *)
theory File_Store
  imports Rust_Format
begin

text \<open>
  The contract of the RamFS (\<^verbatim>\<open>src/src/vfs.rs\<close>): a store of directories and files is a
  finite map from component lists to entries, and the operations change that map in the
  obvious way and report whether they did. The locale states the contract an
  implementation has to meet; the facts a user of the file system relies on are proved
  once, inside it.
\<close>

subsection \<open>The abstract file system\<close>

datatype entry = Dir | Reg string

type_synonym vfs_view = "string list \<Rightarrow> entry option"

definition is_prefix :: "'a list \<Rightarrow> 'a list \<Rightarrow> bool" where
  "is_prefix p q = (take (length p) q = p)"

lemma is_prefix_refl [simp]: "is_prefix p p"
  by (simp add: is_prefix_def)

lemma is_prefix_append [simp]: "is_prefix p (p @ r)"
  by (simp add: is_prefix_def)

lemma is_prefixE:
  assumes "is_prefix p q"
  obtains r where "q = p @ r"
  using assms by (metis append_take_drop_id is_prefix_def)

definition spec_write :: "vfs_view \<Rightarrow> string list \<Rightarrow> string \<Rightarrow> bool \<times> vfs_view" where
  "spec_write v p d =
     (if p \<noteq> [] \<and> v (butlast p) = Some Dir \<and> v p \<noteq> Some Dir
      then (True, v(p \<mapsto> Reg d)) else (False, v))"

definition spec_mkdir :: "vfs_view \<Rightarrow> string list \<Rightarrow> bool \<times> vfs_view" where
  "spec_mkdir v p =
     (if p \<noteq> [] \<and> v (butlast p) = Some Dir \<and> v p = None
      then (True, v(p \<mapsto> Dir)) else (False, v))"

definition spec_remove :: "vfs_view \<Rightarrow> string list \<Rightarrow> bool \<times> vfs_view" where
  "spec_remove v p =
     (if p \<noteq> [] \<and> v p \<noteq> None
      then (True, \<lambda>q. if is_prefix p q then None else v q) else (False, v))"

definition spec_read :: "vfs_view \<Rightarrow> string list \<Rightarrow> string option" where
  "spec_read v p = (case v p of Some (Reg d) \<Rightarrow> Some d | _ \<Rightarrow> None)"

text \<open>A view is a tree: the root is a directory, and what has something below it is one.\<close>

definition tree_view :: "vfs_view \<Rightarrow> bool" where
  "tree_view v \<longleftrightarrow> v [] = Some Dir \<and> (\<forall>p. p \<noteq> [] \<longrightarrow> v p \<noteq> None \<longrightarrow> v (butlast p) = Some Dir)"

lemma tree_view_parent:
  "tree_view v \<Longrightarrow> v (p @ [x]) \<noteq> None \<Longrightarrow> v p = Some Dir"
  unfolding tree_view_def by (metis butlast_snoc snoc_eq_iff_butlast)

lemma tree_view_prefix:
  assumes "tree_view v" "v (p @ r) \<noteq> None" "r \<noteq> []"
  shows "v p = Some Dir"
  using assms(2,3)
proof (induction r rule: rev_induct)
  case Nil
  then show ?case by simp
next
  case (snoc x r)
  from snoc.prems tree_view_parent [OF assms(1), of "p @ r" x] have "v (p @ r) = Some Dir" by simp
  then show ?case using snoc.IH by (cases "r = []") auto
qed

subsection \<open>The interface\<close>

locale file_store =
  fixes view :: "'fs \<Rightarrow> vfs_view"
    and inv :: "'fs \<Rightarrow> bool"
    and read :: "'fs \<Rightarrow> string \<Rightarrow> string option"
    and wr :: "'fs \<Rightarrow> string \<Rightarrow> string \<Rightarrow> bool \<times> 'fs"
    and mk :: "'fs \<Rightarrow> string \<Rightarrow> bool \<times> 'fs"
    and rm :: "'fs \<Rightarrow> string \<Rightarrow> bool \<times> 'fs"
  assumes read_spec: "read fs p = spec_read (view fs) (path_parts p)"
    and wr_spec: "inv fs \<Longrightarrow>
      (fst (wr fs p d), view (snd (wr fs p d))) = spec_write (view fs) (path_parts p) d"
    and mk_spec: "inv fs \<Longrightarrow>
      (fst (mk fs p), view (snd (mk fs p))) = spec_mkdir (view fs) (path_parts p)"
    and rm_spec: "inv fs \<Longrightarrow>
      (fst (rm fs p), view (snd (rm fs p))) = spec_remove (view fs) (path_parts p)"
    and inv_wr: "inv fs \<Longrightarrow> inv (snd (wr fs p d))"
    and inv_mk: "inv fs \<Longrightarrow> inv (snd (mk fs p))"
    and inv_rm: "inv fs \<Longrightarrow> inv (snd (rm fs p))"
    and inv_tree: "inv fs \<Longrightarrow> tree_view (view fs)"
begin

lemma wr_ok: "inv fs \<Longrightarrow> fst (wr fs p d) \<longleftrightarrow>
    path_parts p \<noteq> [] \<and> view fs (butlast (path_parts p)) = Some Dir
      \<and> view fs (path_parts p) \<noteq> Some Dir"
  using wr_spec [of fs p d] by (auto simp: spec_write_def split: if_splits)

lemma mk_ok: "inv fs \<Longrightarrow> fst (mk fs p) \<longleftrightarrow>
    path_parts p \<noteq> [] \<and> view fs (butlast (path_parts p)) = Some Dir
      \<and> view fs (path_parts p) = None"
  using mk_spec [of fs p] by (auto simp: spec_mkdir_def split: if_splits)

lemma rm_ok: "inv fs \<Longrightarrow> fst (rm fs p) \<longleftrightarrow>
    path_parts p \<noteq> [] \<and> view fs (path_parts p) \<noteq> None"
  using rm_spec [of fs p] by (auto simp: spec_remove_def split: if_splits)

lemma wr_view: "inv fs \<Longrightarrow> view (snd (wr fs p d)) =
    (if fst (wr fs p d) then (view fs)(path_parts p \<mapsto> Reg d) else view fs)"
  using wr_spec [of fs p d] by (auto simp: spec_write_def split: if_splits)

lemma mk_view: "inv fs \<Longrightarrow> view (snd (mk fs p)) =
    (if fst (mk fs p) then (view fs)(path_parts p \<mapsto> Dir) else view fs)"
  using mk_spec [of fs p] by (auto simp: spec_mkdir_def split: if_splits)

lemma rm_view: "inv fs \<Longrightarrow> view (snd (rm fs p)) =
    (if fst (rm fs p) then (\<lambda>q. if is_prefix (path_parts p) q then None else view fs q)
     else view fs)"
  using rm_spec [of fs p] by (auto simp: spec_remove_def split: if_splits)

lemmas views = wr_view mk_view rm_view

lemma read_after_write:
  "inv fs \<Longrightarrow> fst (wr fs p d) \<Longrightarrow> read (snd (wr fs p d)) p = Some d"
  by (simp add: read_spec spec_read_def wr_view)

lemma write_frame:
  "inv fs \<Longrightarrow> path_parts q \<noteq> path_parts p \<Longrightarrow> read (snd (wr fs p d)) q = read fs q"
  by (simp add: read_spec spec_read_def wr_view)

lemma write_again:
  assumes "inv fs" "fst (wr fs p d)"
  shows "fst (wr (snd (wr fs p d)) p e)"
    and "view (snd (wr (snd (wr fs p d)) p e)) = view (snd (wr fs p e))"
proof -
  let ?fs = "snd (wr fs p d)"
  have ne: "path_parts p \<noteq> butlast (path_parts p)"
    using assms wr_ok [of fs p d] by (metis append_butlast_last_id append_self_conv list.distinct(1))
  show ok: "fst (wr ?fs p e)"
    using assms ne by (auto simp: wr_ok wr_view inv_wr)
  have "fst (wr fs p e)" using assms by (simp add: wr_ok)
  with ok assms show "view (snd (wr ?fs p e)) = view (snd (wr fs p e))"
    by (simp add: wr_view inv_wr)
qed

lemma removed_gone:
  "inv fs \<Longrightarrow> fst (rm fs p) \<Longrightarrow> is_prefix (path_parts p) (path_parts q)
    \<Longrightarrow> read (snd (rm fs p)) q = None"
  by (simp add: read_spec spec_read_def rm_view)

lemma remove_frame:
  "inv fs \<Longrightarrow> \<not> is_prefix (path_parts p) (path_parts q)
    \<Longrightarrow> read (snd (rm fs p)) q = read fs q"
  by (simp add: read_spec spec_read_def rm_view)

lemma mkdir_keeps_files:
  assumes "inv fs"
  shows "read (snd (mk fs p)) q = read fs q"
  using assms by (auto simp: read_spec spec_read_def mk_view mk_ok)

text \<open>Creating a fresh entry and removing it again restores the view.\<close>

lemma write_remove:
  assumes "inv fs" "fst (wr fs p d)" "view fs (path_parts p) = None"
  shows "view (snd (rm (snd (wr fs p d)) p)) = view fs"
proof -
  have "fst (rm (snd (wr fs p d)) p)"
    using assms by (simp add: rm_ok wr_view inv_wr) (simp add: wr_ok)
  moreover have "view fs q = None" if "is_prefix (path_parts p) q" for q
    using that assms tree_view_prefix [OF inv_tree [OF assms(1)], of "path_parts p"]
    by (elim is_prefixE) (metis append_Nil2 option.distinct(1))
  ultimately show ?thesis
    using assms by (auto simp: rm_view wr_view inv_wr fun_eq_iff)
qed

end

end
