(* ===== verification/Vfs_Tree.thy ===== *)
theory Vfs_Tree
  imports File_Store
begin

text \<open>
  The in-memory file system of \<^verbatim>\<open>src/src/vfs.rs\<close>: the node tree, the path walk of
  \<^verbatim>\<open>find_node_mut\<close> and the operations of \<^verbatim>\<open>FileSystem\<close>. A mutable reference to a
  node is the pair of the walk that finds it (\<open>find_node_mut\<close>) and the assignment through
  it (\<open>assign_node\<close>), which replaces the node the same walk ends at. The operations are
  shown to implement the map of theory File_Store, whose interface they interpret.
\<close>

subsection \<open>Nodes\<close>

datatype vfs_node =
    File string string
  | Directory string "vfs_node list"

fun node_name :: "vfs_node \<Rightarrow> string" where
  "node_name (File nm _) = nm"
| "node_name (Directory nm _) = nm"

fun is_directory :: "vfs_node \<Rightarrow> bool" where
  "is_directory (File _ _) = False"
| "is_directory (Directory _ _) = True"

record file_system =
  fs_root :: vfs_node

subsection \<open>The walk\<close>

definition child_index :: "string \<Rightarrow> vfs_node list \<Rightarrow> nat option" where
  "child_index part ch = position (\<lambda>c. node_name c = part) ch"

fun walk :: "string list \<Rightarrow> vfs_node \<Rightarrow> vfs_node option" where
  "walk [] node = Some node"
| "walk (part # parts) (Directory nm ch) =
     (case child_index part ch of
        Some idx \<Rightarrow> walk parts (ch ! idx)
      | None \<Rightarrow> None)"
| "walk (part # parts) (File nm c) = None"

definition find_node_mut :: "file_system \<Rightarrow> string \<Rightarrow> vfs_node option" where
  "find_node_mut fs path =
     (let clean_path = trim_matches slash path in
      if clean_path = [] then Some (fs_root fs)
      else walk (path_parts clean_path) (fs_root fs))"

fun assign_at :: "string list \<Rightarrow> vfs_node \<Rightarrow> vfs_node \<Rightarrow> vfs_node" where
  "assign_at [] new node = new"
| "assign_at (part # parts) new (Directory nm ch) =
     (case child_index part ch of
        Some idx \<Rightarrow> Directory nm (ch[idx := assign_at parts new (ch ! idx)])
      | None \<Rightarrow> Directory nm ch)"
| "assign_at (part # parts) new (File nm c) = File nm c"

definition assign_node :: "file_system \<Rightarrow> string \<Rightarrow> vfs_node \<Rightarrow> file_system" where
  "assign_node fs path new =
     (let clean_path = trim_matches slash path in
      if clean_path = [] then fs\<lparr>fs_root := new\<rparr>
      else fs\<lparr>fs_root := assign_at (path_parts clean_path) new (fs_root fs)\<rparr>)"

subsection \<open>The operations\<close>

definition list_directory :: "file_system \<Rightarrow> string \<Rightarrow> (string \<times> bool) list option" where
  "list_directory fs path =
     (case find_node_mut fs path of
        None \<Rightarrow> None
      | Some (Directory _ ch) \<Rightarrow> Some (map (\<lambda>c. (node_name c, is_directory c)) ch)
      | Some (File _ _) \<Rightarrow> None)"

definition read_file :: "file_system \<Rightarrow> string \<Rightarrow> string option" where
  "read_file fs path =
     (case find_node_mut fs path of
        None \<Rightarrow> None
      | Some (File _ content) \<Rightarrow> Some content
      | Some (Directory _ _) \<Rightarrow> None)"

text \<open>The loop of \<^verbatim>\<open>write_file\<close> over the parent's children: the first child of that name is
  overwritten if it is a file and refused if it is a directory; with none, a file is
  pushed at the end.\<close>

fun write_child :: "string \<Rightarrow> string \<Rightarrow> vfs_node list \<Rightarrow> bool \<times> vfs_node list" where
  "write_child nm d [] = (True, [File nm d])"
| "write_child nm d (c # cs) =
     (if node_name c = nm then
        (case c of
           File n content \<Rightarrow> (True, File n d # cs)
         | Directory _ _ \<Rightarrow> (False, c # cs))
      else (let (ok, cs') = write_child nm d cs in (ok, c # cs')))"

definition write_file :: "file_system \<Rightarrow> string \<Rightarrow> string \<Rightarrow> bool \<times> file_system" where
  "write_file fs path d =
     (let clean_path = trim_matches slash path in
      if clean_path = [] then (False, fs)
      else
        (let (parent_path, file_name) = split_parent clean_path in
         case find_node_mut fs parent_path of
           Some (Directory nm ch) \<Rightarrow>
             (let (ok, ch') = write_child file_name d ch
              in (ok, assign_node fs parent_path (Directory nm ch')))
         | _ \<Rightarrow> (False, fs)))"

definition mkdir :: "file_system \<Rightarrow> string \<Rightarrow> bool \<times> file_system" where
  "mkdir fs path =
     (let clean_path = trim_matches slash path in
      if clean_path = [] then (False, fs)
      else
        (let (parent_path, dir_name) = split_parent clean_path in
         case find_node_mut fs parent_path of
           Some (Directory nm ch) \<Rightarrow>
             if list_ex (\<lambda>c. node_name c = dir_name) ch then (False, fs)
             else (True, assign_node fs parent_path (Directory nm (ch @ [Directory dir_name []])))
         | _ \<Rightarrow> (False, fs)))"

definition remove :: "file_system \<Rightarrow> string \<Rightarrow> bool \<times> file_system" where
  "remove fs path =
     (let clean_path = trim_matches slash path in
      if clean_path = [] then (False, fs)
      else
        (let (parent_path, target_name) = split_parent clean_path in
         case find_node_mut fs parent_path of
           Some (Directory nm ch) \<Rightarrow>
             (case position (\<lambda>c. node_name c = target_name) ch of
                Some idx \<Rightarrow> (True, assign_node fs parent_path (Directory nm (remove_at idx ch)))
              | None \<Rightarrow> (False, fs))
         | _ \<Rightarrow> (False, fs)))"

text \<open>\<^verbatim>\<open>FileSystem::new\<close>: an empty root, then the default structure. A newline in a string
  literal is \<open>CHR 0x0A\<close>.\<close>

abbreviation newline :: char where
  "newline \<equiv> CHR 0x0A"

definition system_conf :: string where
  "system_conf = ''[system]'' @ newline # ''os_name = open_kernel'' @ newline #
     ''version = 0.1.0'' @ newline # ''arch = x86_64'' @ [newline]"

definition readme_txt :: string where
  "readme_txt = ''Welcome to open_kernel OS in-memory VFS!'' @ [newline]"

definition bin_init :: string where
  "bin_init = ''#!/bin/sh'' @ newline # ''echo booting open_kernel...'' @ [newline]"

definition init_default_structure :: "file_system \<Rightarrow> file_system" where
  "init_default_structure fs =
     (let fs = snd (mkdir fs ''config'');
          fs = snd (mkdir fs ''bin'');
          fs = snd (mkdir fs ''home'');
          fs = snd (write_file fs ''config/system.conf'' system_conf);
          fs = snd (write_file fs ''readme.txt'' readme_txt);
          fs = snd (write_file fs ''bin/init'' bin_init)
      in fs)"

definition new_fs :: file_system where
  "new_fs = init_default_structure \<lparr>fs_root = Directory ''/'' []\<rparr>"

subsection \<open>Finding and assigning along component lists\<close>

lemma find_node_mut_walk: "find_node_mut fs path = walk (path_parts path) (fs_root fs)"
  by (simp add: find_node_mut_def Let_def trim_slash_Nil)

lemma assign_node_at:
  "assign_node fs path new = fs\<lparr>fs_root := assign_at (path_parts path) new (fs_root fs)\<rparr>"
  by (simp add: assign_node_def Let_def trim_slash_Nil)

lemma child_index_Some:
  "child_index p ch = Some i \<Longrightarrow> i < length ch \<and> node_name (ch ! i) = p"
  by (auto simp: child_index_def dest: position_Some)

lemma child_index_names: "map node_name ch = map node_name ch' \<Longrightarrow> child_index p ch = child_index p ch'"
proof -
  have *: "child_index p ch = position (\<lambda>n. n = p) (map node_name ch)" for ch
    by (induction ch) (auto simp: child_index_def)
  show "map node_name ch = map node_name ch' \<Longrightarrow> ?thesis"
    by (simp add: *)
qed

lemma child_index_update:
  assumes "node_name c = node_name (ch ! i)"
  shows "child_index p (ch[i := c]) = child_index p ch"
proof (rule child_index_names)
  show "map node_name (ch[i := c]) = map node_name ch"
    using assms by (simp add: map_update) (metis list_update_id map_update)
qed

lemma walk_append: "walk (p @ q) n = Option.bind (walk p n) (walk q)"
  by (induction p n rule: walk.induct) (auto split: option.splits)

lemma node_name_assign_at:
  "walk p n = Some m \<Longrightarrow> node_name m' = node_name m \<Longrightarrow> node_name (assign_at p m' n) = node_name n"
  by (induction p n rule: walk.induct) (auto split: option.splits)

lemma is_directory_assign_at:
  "p \<noteq> [] \<Longrightarrow> is_directory (assign_at p m n) = is_directory n"
  by (induction p m n rule: assign_at.induct) (auto split: option.splits)

subsection \<open>The view of a tree as a map\<close>

fun kind :: "vfs_node \<Rightarrow> entry" where
  "kind (File _ c) = Reg c"
| "kind (Directory _ _) = Dir"

definition node_view :: "vfs_node \<Rightarrow> vfs_view" where
  "node_view n p = map_option kind (walk p n)"

definition view_of :: "file_system \<Rightarrow> vfs_view" where
  "view_of fs = node_view (fs_root fs)"

lemma node_view_Nil [simp]: "node_view n [] = Some (kind n)"
  by (simp add: node_view_def)

lemma node_view_File [simp]: "node_view (File nm c) (p # ps) = None"
  by (simp add: node_view_def)

lemma node_view_Cons:
  "node_view (Directory nm ch) (p # ps) =
     (case child_index p ch of Some i \<Rightarrow> node_view (ch ! i) ps | None \<Rightarrow> None)"
  by (auto simp: node_view_def split: option.splits)

lemma node_view_append:
  "walk p n = Some m \<Longrightarrow> node_view n (p @ q) = node_view m q"
  by (simp add: node_view_def walk_append)

lemma node_view_Dir_walk:
  "node_view n p = Some Dir \<longleftrightarrow> (\<exists>nm ch. walk p n = Some (Directory nm ch))"
  by (auto simp: node_view_def elim: kind.elims)

lemma node_view_assign:
  assumes "walk p n = Some m" "node_name m' = node_name m" "kind m' = kind m"
  shows "node_view (assign_at p m' n) q =
           (if is_prefix p q then node_view m' (drop (length p) q) else node_view n q)"
  using assms
proof (induction p n arbitrary: q rule: walk.induct)
  case (1 node)
  then show ?case by (simp add: is_prefix_def)
next
  case (2 part parts nm ch)
  from "2.prems"(1) obtain i where i: "child_index part ch = Some i"
      and w: "walk parts (ch ! i) = Some m"
    by (auto split: option.splits)
  note IH = "2.IH" [OF i w "2.prems"(2,3)]
  have il: "i < length ch" using child_index_Some [OF i] by simp
  have nn: "node_name (assign_at parts m' (ch ! i)) = node_name (ch ! i)"
    by (rule node_name_assign_at [OF w "2.prems"(2)])
  show ?case
  proof (cases q)
    case Nil
    then show ?thesis using i by (simp add: is_prefix_def)
  next
    case (Cons a qs)
    show ?thesis
    proof (cases "a = part")
      case True
      then show ?thesis
        using i il IH [of qs] Cons nn
        by (simp add: is_prefix_def node_view_Cons child_index_update)
    next
      case False
      have "j \<noteq> i" if "child_index a ch = Some j" for j
        using that i False child_index_Some by metis
      then show ?thesis
        using i Cons False nn
        by (auto simp: is_prefix_def node_view_Cons child_index_update split: option.splits)
    qed
  qed
next
  case (3 part parts nm c)
  then show ?case by simp
qed

subsection \<open>Well-formed trees\<close>

text \<open>Siblings have distinct names, and a name is a non-empty piece without a slash.\<close>

definition good_name :: "string \<Rightarrow> bool" where
  "good_name w = (w \<noteq> [] \<and> slash \<notin> set w)"

fun wf_node :: "vfs_node \<Rightarrow> bool" where
  "wf_node (File _ _) = True"
| "wf_node (Directory _ ch) =
     (distinct (map node_name ch) \<and> list_all (\<lambda>c. good_name (node_name c)) ch
      \<and> list_all wf_node ch)"

definition wf_fs :: "file_system \<Rightarrow> bool" where
  "wf_fs fs = (is_directory (fs_root fs) \<and> wf_node (fs_root fs))"

lemma wf_node_walk: "wf_node n \<Longrightarrow> walk p n = Some m \<Longrightarrow> wf_node m"
proof (induction p n rule: walk.induct)
  case (2 part parts nm ch)
  then show ?case
    by (auto split: option.splits dest!: child_index_Some simp: list_all_length)
qed auto

lemma wf_node_assign:
  assumes "wf_node n" "walk p n = Some m" "node_name m' = node_name m" "wf_node m'"
  shows "wf_node (assign_at p m' n)"
  using assms
proof (induction p n rule: walk.induct)
  case (2 part parts nm ch)
  from "2.prems"(2) obtain i where i: "child_index part ch = Some i"
      and w: "walk parts (ch ! i) = Some m"
    by (auto split: option.splits)
  let ?c = "assign_at parts m' (ch ! i)"
  have il: "i < length ch" using child_index_Some [OF i] by simp
  have nn: "node_name ?c = node_name (ch ! i)"
    by (rule node_name_assign_at [OF w "2.prems"(3)])
  have wf: "wf_node ?c"
    using "2.IH" [OF i _ w "2.prems"(3,4)] "2.prems"(1) il by (simp add: list_all_length)
  have names: "map node_name (ch[i := ?c]) = map node_name ch"
    using nn by (simp add: map_update) (metis list_update_id map_update)
  have good: "list_all (\<lambda>c. good_name (node_name c)) (ch[i := ?c])"
    using "2.prems"(1) nn il by (auto simp: list_all_length nth_list_update)
  have "list_all wf_node (ch[i := ?c])"
    using "2.prems"(1) wf il by (auto simp: list_all_length nth_list_update)
  with good names "2.prems"(1) i show ?case by simp
qed auto

subsection \<open>The effect of an operation on a directory's children\<close>

lemma node_view_Cons_child:
  "node_view (Directory nm (c # cs)) (a # qs) =
     (if node_name c = a then node_view c qs else node_view (Directory nm cs) (a # qs))"
  by (auto simp: node_view_Cons child_index_def split: option.splits)

lemma node_view_no_children [simp]: "node_view (Directory nm []) (a # qs) = None"
  by (simp add: node_view_Cons child_index_def)

lemma node_view_no_child:
  "a \<notin> node_name ` set ch \<Longrightarrow> node_view (Directory nm ch) (a # qs) = None"
  by (induction ch) (auto simp: node_view_Cons_child)

lemma node_view_child_None:
  "node_view (Directory nm ch) [a] = None \<longleftrightarrow> a \<notin> node_name ` set ch"
  by (induction ch) (auto simp: node_view_Cons_child)

lemma write_child_ok:
  "fst (write_child nm d ch) \<longleftrightarrow> node_view (Directory n ch) [nm] \<noteq> Some Dir"
  by (induction nm d ch rule: write_child.induct)
     (auto simp: node_view_Cons_child node_view_no_child split: vfs_node.splits prod.splits)

lemma write_child_refused: "\<not> fst (write_child nm d ch) \<Longrightarrow> snd (write_child nm d ch) = ch"
  by (induction nm d ch rule: write_child.induct)
     (auto split: vfs_node.splits prod.splits if_splits)

lemma write_child_view:
  "fst (write_child nm d ch) \<Longrightarrow>
     node_view (Directory n (snd (write_child nm d ch))) (a # qs) =
       (if a # qs = [nm] then Some (Reg d) else node_view (Directory n ch) (a # qs))"
proof (induction nm d ch rule: write_child.induct)
  case (1 nm d)
  then show ?case
    by (cases qs) (auto simp: node_view_Cons_child node_view_no_child)
next
  case (2 nm d c cs)
  then show ?case
    by (cases qs) (auto simp: node_view_Cons_child split: vfs_node.splits prod.splits if_splits)
qed

lemma write_child_names:
  "map node_name (snd (write_child nm d ch)) =
     (if nm \<in> node_name ` set ch then map node_name ch else map node_name ch @ [nm])"
  by (induction nm d ch rule: write_child.induct)
     (auto split: vfs_node.splits prod.splits if_splits)

lemma write_child_wf:
  "list_all wf_node ch \<Longrightarrow> list_all wf_node (snd (write_child nm d ch))"
  by (induction nm d ch rule: write_child.induct)
     (auto split: vfs_node.splits prod.splits if_splits)

lemma wf_Directory_iff:
  "wf_node (Directory nm ch) \<longleftrightarrow>
     distinct (map node_name ch) \<and> list_all good_name (map node_name ch) \<and> list_all wf_node ch"
  by (simp add: list_all_iff)

lemma write_child_wf_dir:
  "wf_node (Directory n ch) \<Longrightarrow> good_name nm \<Longrightarrow> wf_node (Directory n (snd (write_child nm d ch)))"
  unfolding wf_Directory_iff by (auto simp: write_child_names write_child_wf image_iff)

lemma append_child_view:
  "a \<notin> node_name ` set ch \<or> node_name c \<noteq> a \<Longrightarrow>
     node_view (Directory n (ch @ [c])) (a # qs) =
       (if node_name c = a then node_view c qs else node_view (Directory n ch) (a # qs))"
  by (induction ch) (auto simp: node_view_Cons_child)

lemma remove_child_view:
  "distinct (map node_name ch) \<Longrightarrow> position (\<lambda>c. node_name c = nm) ch = Some i \<Longrightarrow>
     node_view (Directory n (remove_at i ch)) (a # qs) =
       (if a = nm then None else node_view (Directory n ch) (a # qs))"
proof (induction ch arbitrary: i)
  case Nil
  then show ?case by simp
next
  case (Cons c cs)
  show ?case
  proof (cases "node_name c = nm")
    case True
    with Cons.prems show ?thesis
      by (auto simp: remove_at_def node_view_Cons_child node_view_no_child)
  next
    case False
    with Cons.prems obtain k where k: "position (\<lambda>c. node_name c = nm) cs = Some k" "i = Suc k"
      by auto
    with Cons.IH [OF _ k(1)] Cons.prems False show ?thesis
      by (auto simp: remove_at_def node_view_Cons_child)
  qed
qed

lemma remove_child_wf:
  "wf_node (Directory n ch) \<Longrightarrow> wf_node (Directory n (remove_at i ch))"
  by (simp add: wf_Directory_iff map_remove_at distinct_remove_at list_all_iff)
     (metis in_mono map_remove_at list.set_map imageI set_remove_at_subset)

subsection \<open>From a directory's children to the whole tree\<close>

text \<open>What an assignment to the parent does to the view: nothing at the parent or outside
  it, and below it what the new children show.\<close>

lemma parent_assign_view:
  assumes "walk pp n = Some (Directory nm ch)"
  shows "node_view (assign_at pp (Directory nm ch') n) q =
           (if is_prefix pp q \<and> q \<noteq> pp then node_view (Directory nm ch') (drop (length pp) q)
            else node_view n q)"
  using node_view_assign [OF assms, of "Directory nm ch'" q] node_view_append [OF assms, of "[]"]
  by auto

lemma is_prefix_cases:
  obtains (outside) "\<not> is_prefix p q" | (eq) "q = p" | (below) a qs where "q = p @ a # qs"
  by (metis append_Nil2 is_prefixE neq_Nil_conv)

lemma parent_assign_upd:
  assumes w: "walk pp n = Some (Directory nm ch)"
    and ch': "\<And>a qs. node_view (Directory nm ch') (a # qs) = f (pp @ a # qs)"
    and eq: "f pp = node_view n pp"
    and out: "\<And>q. \<not> is_prefix pp q \<Longrightarrow> f q = node_view n q"
  shows "node_view (assign_at pp (Directory nm ch') n) = f"
proof
  fix q
  show "node_view (assign_at pp (Directory nm ch') n) q = f q"
    by (cases rule: is_prefix_cases [where p = pp and q = q])
       (simp_all add: parent_assign_view [OF w] ch' eq out)
qed

lemma node_view_parent_Dir:
  assumes "node_view n (p @ [x]) \<noteq> None"
  shows "node_view n p = Some Dir"
proof -
  from assms obtain m where "walk p n = Some m" "node_view m [x] \<noteq> None"
    by (auto simp: node_view_def walk_append bind_eq_Some_conv)
  then show ?thesis by (cases m) (auto simp: node_view_def)
qed

lemma tree_view_of: "is_directory n \<Longrightarrow> tree_view (node_view n)"
  unfolding tree_view_def
  by (metis append_butlast_last_id node_view_parent_Dir node_view_Nil kind.simps(2)
      is_directory.elims(2))

subsection \<open>The operations implement the abstract file system\<close>

text \<open>The three operations that create or remove a node share their first steps: trim the
  path, split off the last component and find the parent. The rule splits a proof about
  one of them along those steps.\<close>

lemma parent_cases:
  obtains (root) "trim_matches slash path = []" "path_parts path = []"
  | (no_parent) pp nm where "trim_matches slash path \<noteq> []"
      "split_parent (trim_matches slash path) = (pp, nm)" "path_parts path = path_parts pp @ [nm]"
      "\<nexists>n ch. find_node_mut fs pp = Some (Directory n ch)"
      "view_of fs (path_parts pp) \<noteq> Some Dir"
  | (parent) pp nm n ch where "trim_matches slash path \<noteq> []"
      "split_parent (trim_matches slash path) = (pp, nm)" "path_parts path = path_parts pp @ [nm]"
      "find_node_mut fs pp = Some (Directory n ch)"
      "walk (path_parts pp) (fs_root fs) = Some (Directory n ch)"
      "view_of fs (path_parts pp) = Some Dir" "good_name nm"
proof (cases "trim_matches slash path = []")
  case True
  then show ?thesis using root trim_slash_Nil by blast
next
  case False
  obtain pp nm where sp: "split_parent (trim_matches slash path) = (pp, nm)" by fastforce
  note parts = split_parent_parts [OF False sp]
  show ?thesis
  proof (cases "view_of fs (path_parts pp) = Some Dir")
    case True
    then show ?thesis
      using parent [OF False sp parts(1)] parts(2,3)
      by (auto simp: view_of_def node_view_Dir_walk find_node_mut_walk good_name_def)
  next
    case not_Dir: False
    then show ?thesis
      using no_parent [OF False sp parts(1)]
      by (auto simp: view_of_def node_view_Dir_walk find_node_mut_walk)
  qed
qed

lemma wf_parent:
  "wf_fs fs \<Longrightarrow> walk pp (fs_root fs) = Some (Directory n ch) \<Longrightarrow> wf_node (Directory n ch)"
  by (auto simp: wf_fs_def dest: wf_node_walk)

lemma wf_assign_parent:
  assumes "wf_fs fs" "walk pp (fs_root fs) = Some (Directory n ch)" "wf_node (Directory n ch')"
  shows "wf_fs (fs\<lparr>fs_root := assign_at pp (Directory n ch') (fs_root fs)\<rparr>)"
  using assms wf_node_assign [of "fs_root fs" pp "Directory n ch" "Directory n ch'"]
  by (cases "pp = []") (auto simp: wf_fs_def is_directory_assign_at)

lemma view_below: "walk pp (fs_root fs) = Some m \<Longrightarrow> view_of fs (pp @ q) = node_view m q"
  by (simp add: view_of_def node_view_append)

lemma read_file_spec: "read_file fs p = spec_read (view_of fs) (path_parts p)"
  by (auto simp: read_file_def spec_read_def view_of_def node_view_def find_node_mut_walk
      split: option.splits vfs_node.splits)

lemma write_file_spec:
  "(fst (write_file fs p d), view_of (snd (write_file fs p d)))
     = spec_write (view_of fs) (path_parts p) d"
proof (cases rule: parent_cases [where path = p and fs = fs])
  case root
  then show ?thesis by (simp add: write_file_def spec_write_def)
next
  case (no_parent pp nm)
  then have "write_file fs p d = (False, fs)"
    by (auto simp: write_file_def split: option.splits vfs_node.splits)
  with no_parent show ?thesis by (simp add: spec_write_def)
next
  case (parent pp nm n ch)
  let ?ok = "fst (write_child nm d ch)" and ?ch = "snd (write_child nm d ch)"
  let ?pp = "path_parts pp"
  have eq: "write_file fs p d = (?ok, fs\<lparr>fs_root := assign_at ?pp (Directory n ?ch) (fs_root fs)\<rparr>)"
    using parent by (simp add: write_file_def assign_node_at split_beta)
  have ok: "?ok \<longleftrightarrow> view_of fs (?pp @ [nm]) \<noteq> Some Dir"
    using write_child_ok [of nm d ch n] view_below [OF parent(5)] by simp
  have "node_view (assign_at ?pp (Directory n ?ch) (fs_root fs)) =
          (if ?ok then (view_of fs)(?pp @ [nm] \<mapsto> Reg d) else view_of fs)"
  proof (rule parent_assign_upd [OF parent(5)])
    show "node_view (Directory n ?ch) (a # qs) =
        (if ?ok then (view_of fs)(?pp @ [nm] \<mapsto> Reg d) else view_of fs) (?pp @ a # qs)" for a qs
      using write_child_view [of nm d ch n a qs] write_child_refused [of nm d ch]
      by (simp add: view_below [OF parent(5)])
  qed (auto simp: view_of_def)
  with eq ok parent show ?thesis
    by (simp add: spec_write_def view_of_def)
qed

lemma mkdir_spec:
  "(fst (mkdir fs p), view_of (snd (mkdir fs p))) = spec_mkdir (view_of fs) (path_parts p)"
proof (cases rule: parent_cases [where path = p and fs = fs])
  case root
  then show ?thesis by (simp add: mkdir_def spec_mkdir_def)
next
  case (no_parent pp nm)
  then have "mkdir fs p = (False, fs)"
    by (auto simp: mkdir_def split: option.splits vfs_node.splits)
  with no_parent show ?thesis by (simp add: spec_mkdir_def)
next
  case (parent pp nm n ch)
  let ?pp = "path_parts pp"
  let ?n' = "assign_at ?pp (Directory n (ch @ [Directory nm []])) (fs_root fs)"
  have ex: "list_ex (\<lambda>c. node_name c = nm) ch \<longleftrightarrow> view_of fs (?pp @ [nm]) \<noteq> None"
    using view_below [OF parent(5), of "[nm]"] node_view_child_None [of n ch nm]
    by (auto simp: list_ex_iff)
  show ?thesis
  proof (cases "view_of fs (?pp @ [nm]) = None")
    case False
    with ex parent show ?thesis by (simp add: mkdir_def spec_mkdir_def)
  next
    case True
    with ex parent have eq: "mkdir fs p = (True, fs\<lparr>fs_root := ?n'\<rparr>)"
      by (simp add: mkdir_def assign_node_at)
    have nm: "nm \<notin> node_name ` set ch"
      using True view_below [OF parent(5), of "[nm]"] node_view_child_None [of n ch nm] by simp
    have "node_view ?n' = (view_of fs)(?pp @ [nm] \<mapsto> Dir)"
    proof (rule parent_assign_upd [OF parent(5)])
      show "node_view (Directory n (ch @ [Directory nm []])) (a # qs) =
          ((view_of fs)(?pp @ [nm] \<mapsto> Dir)) (?pp @ a # qs)" for a qs
        using nm append_child_view [of a ch "Directory nm []" n qs]
        by (cases "a = nm"; cases qs) (simp_all add: view_below [OF parent(5)] node_view_no_child)
    qed (auto simp: view_of_def)
    with eq True parent show ?thesis by (simp add: spec_mkdir_def view_of_def)
  qed
qed

lemma remove_spec:
  assumes "wf_fs fs"
  shows "(fst (remove fs p), view_of (snd (remove fs p))) = spec_remove (view_of fs) (path_parts p)"
proof (cases rule: parent_cases [where path = p and fs = fs])
  case root
  then show ?thesis by (simp add: remove_def spec_remove_def)
next
  case (no_parent pp nm)
  then have "remove fs p = (False, fs)"
    by (auto simp: remove_def split: option.splits vfs_node.splits)
  moreover have "view_of fs (path_parts pp @ [nm]) = None"
    using no_parent(5) node_view_parent_Dir unfolding view_of_def by blast
  ultimately show ?thesis using no_parent by (simp add: spec_remove_def)
next
  case (parent pp nm n ch)
  let ?pp = "path_parts pp"
  have d: "distinct (map node_name ch)"
    using wf_parent [OF assms parent(5)] by (simp add: wf_Directory_iff)
  show ?thesis
  proof (cases "position (\<lambda>c. node_name c = nm) ch")
    case None
    then have "view_of fs (?pp @ [nm]) = None"
      using view_below [OF parent(5), of "[nm]"] node_view_child_None [of n ch nm]
      by (auto simp: position_None)
    with None parent show ?thesis by (simp add: remove_def spec_remove_def)
  next
    case (Some i)
    let ?n' = "assign_at ?pp (Directory n (remove_at i ch)) (fs_root fs)"
    have eq: "remove fs p = (True, fs\<lparr>fs_root := ?n'\<rparr>)"
      using Some parent by (simp add: remove_def assign_node_at)
    have some: "view_of fs (?pp @ [nm]) \<noteq> None"
      using view_below [OF parent(5), of "[nm]"] node_view_child_None [of n ch nm]
        position_Some [OF Some] by auto
    have "node_view ?n' = (\<lambda>q. if is_prefix (?pp @ [nm]) q then None else view_of fs q)"
    proof (rule parent_assign_upd [OF parent(5)])
      show "node_view (Directory n (remove_at i ch)) (a # qs) =
          (if is_prefix (?pp @ [nm]) (?pp @ a # qs) then None else view_of fs (?pp @ a # qs))" for a qs
        using remove_child_view [OF d Some, of n a qs]
        by (simp add: is_prefix_def view_below [OF parent(5)])
    next
      show "(if is_prefix (?pp @ [nm]) q then None else view_of fs q) = node_view (fs_root fs) q"
        if "\<not> is_prefix ?pp q" for q
        using that by (auto simp: view_of_def elim!: is_prefixE)
    qed (auto simp: view_of_def is_prefix_def)
    then have "view_of (snd (remove fs p)) =
        (\<lambda>q. if is_prefix (?pp @ [nm]) q then None else view_of fs q)"
      by (simp add: eq view_of_def [of "fs\<lparr>fs_root := ?n'\<rparr>"])
    with eq some parent show ?thesis by (simp add: spec_remove_def)
  qed
qed

lemma wf_write_file: "wf_fs fs \<Longrightarrow> wf_fs (snd (write_file fs p d))"
proof (cases rule: parent_cases [where path = p and fs = fs])
  case (parent pp nm n ch)
  assume wf: "wf_fs fs"
  show ?thesis
    using wf_assign_parent [OF wf parent(5) write_child_wf_dir [OF wf_parent [OF wf parent(5)]]]
      parent by (simp add: write_file_def assign_node_at split_beta)
qed (auto simp: write_file_def split: option.splits vfs_node.splits)

lemma wf_mkdir: "wf_fs fs \<Longrightarrow> wf_fs (snd (mkdir fs p))"
proof (cases rule: parent_cases [where path = p and fs = fs])
  case (parent pp nm n ch)
  assume wf: "wf_fs fs"
  have "wf_node (Directory n (ch @ [Directory nm []]))" if "\<not> list_ex (\<lambda>c. node_name c = nm) ch"
    using that wf_parent [OF wf parent(5)] parent(7)
    by (auto simp: wf_Directory_iff list_ex_iff image_iff)
  from wf_assign_parent [OF wf parent(5) this] wf parent show ?thesis
    by (simp add: mkdir_def assign_node_at)
qed (auto simp: mkdir_def split: option.splits vfs_node.splits)

lemma wf_remove: "wf_fs fs \<Longrightarrow> wf_fs (snd (remove fs p))"
proof (cases rule: parent_cases [where path = p and fs = fs])
  case (parent pp nm n ch)
  assume wf: "wf_fs fs"
  show ?thesis
    using wf_assign_parent [OF wf parent(5) remove_child_wf [OF wf_parent [OF wf parent(5)]]]
      wf parent by (auto simp: remove_def assign_node_at split: option.splits)
qed (auto simp: remove_def split: option.splits vfs_node.splits)

lemmas wf_ops [inv_intros] = wf_write_file wf_mkdir wf_remove

interpretation ramfs: file_store view_of wf_fs read_file write_file mkdir remove
proof
  show "tree_view (view_of fs)" if "wf_fs fs" for fs
    using that tree_view_of by (simp add: view_of_def wf_fs_def)
qed (simp_all add: read_file_spec write_file_spec mkdir_spec remove_spec wf_ops)

end
