(* ===== verification/Console.thy ===== *)
theory Console
  imports Rust_Format
begin

text \<open>
  What the kernel sends out. The print macros of \<^verbatim>\<open>src/src/main.rs\<close> (serial port) and
  \<^verbatim>\<open>src/src/vga_buffer.rs\<close> (framebuffer) have no result, so a function that prints is
  modelled by the list of things it sends, in order; the theory of the framebuffer says what
  a \<open>Screen\<close> text does there. The colours are those of \<^verbatim>\<open>vga_buffer.rs\<close>.
\<close>

datatype color = Black | Green | LightGreen | White | Amber | Cyan | Magenta | Red

fun rgb :: "color \<Rightarrow> u8 \<times> u8 \<times> u8" where
  "rgb Black = (0, 0, 0)"
| "rgb Green = (0, 170, 0)"
| "rgb LightGreen = (85, 255, 85)"
| "rgb White = (255, 255, 255)"
| "rgb Amber = (255, 170, 0)"
| "rgb Cyan = (0, 255, 255)"
| "rgb Magenta = (255, 0, 255)"
| "rgb Red = (255, 85, 85)"

text \<open>Distinct themes are distinguishable: no two colours share a value.\<close>

lemma rgb_inj: "rgb c = rgb d \<longleftrightarrow> c = d"
  by (cases c; cases d) simp_all

datatype out =
    Serial string
  | Screen string
  | Set_Colors color color
  | Clear_Screen
  | Port_Write_U8 u16 u8
  | Port_Write_U16 u16 u16
  | End_Of_Interrupt u8

abbreviation lf :: char where
  "lf \<equiv> CHR 0x0A"

abbreviation bs :: char where
  "bs \<equiv> CHR 0x08"

text \<open>\<^verbatim>\<open>serial_println!\<close> followed by \<^verbatim>\<open>println!\<close> of the same text, the pattern of nearly every
  message; \<open>both\<close> is the same for \<^verbatim>\<open>serial_print!\<close> and \<^verbatim>\<open>print!\<close>.\<close>

definition both :: "string \<Rightarrow> out list" where
  "both s = [Serial s, Screen s]"

definition both_ln :: "string \<Rightarrow> out list" where
  "both_ln s = both (s @ [lf])"

text \<open>What reached the serial line, and what was drawn.\<close>

fun serial_text :: "out list \<Rightarrow> string" where
  "serial_text [] = []"
| "serial_text (Serial s # os) = s @ serial_text os"
| "serial_text (_ # os) = serial_text os"

fun screen_text :: "out list \<Rightarrow> string" where
  "screen_text [] = []"
| "screen_text (Screen s # os) = s @ screen_text os"
| "screen_text (_ # os) = screen_text os"

lemma serial_text_append [simp]: "serial_text (xs @ ys) = serial_text xs @ serial_text ys"
  by (induction xs rule: serial_text.induct) auto

lemma screen_text_append [simp]: "screen_text (xs @ ys) = screen_text xs @ screen_text ys"
  by (induction xs rule: screen_text.induct) auto

text \<open>Output that both consoles show alike.\<close>

definition mirrored :: "out list \<Rightarrow> bool" where
  "mirrored os = (serial_text os = screen_text os)"

lemma mirrored_Nil [simp]: "mirrored []"
  by (simp add: mirrored_def)

lemma mirrored_both [simp]: "mirrored (both s)" "mirrored (both_ln s)"
  by (simp_all add: mirrored_def both_def both_ln_def)

lemma mirrored_append: "mirrored xs \<Longrightarrow> mirrored ys \<Longrightarrow> mirrored (xs @ ys)"
  by (simp add: mirrored_def)

lemma mirrored_concat: "\<forall>xs\<in>set xss. mirrored xs \<Longrightarrow> mirrored (concat xss)"
  by (induction xss) (auto intro: mirrored_append)

end
