(* ===== verification/Vfs.thy ===== *)
theory Vfs
  imports Vfs_Tree Console
begin

text \<open>
  The public functions of \<^verbatim>\<open>src/src/vfs.rs\<close>: the two globals \<^verbatim>\<open>FS\<close> and \<^verbatim>\<open>CURRENT_DIR\<close>,
  path resolution, \<^verbatim>\<open>cd\<close>, the listings, and the string wrappers of the file operations.
  Each wrapper resolves its path against the current directory first, so only canonical
  paths reach the tree.
\<close>

record vfs_state =
  fs_tree :: file_system
  current_dir :: string

definition init_vfs :: vfs_state where
  "init_vfs = \<lparr>fs_tree = new_fs, current_dir = ''/''\<rparr>"

definition get_current_directory :: "vfs_state \<Rightarrow> string" where
  "get_current_directory st = current_dir st"

subsection \<open>Path resolution\<close>

definition resolve_step :: "string list \<Rightarrow> string \<Rightarrow> string list" where
  "resolve_step parts segment =
     (if segment = '''' \<or> segment = ''.'' then parts
      else if segment = ''..'' then butlast parts
      else parts @ [segment])"

definition render_path :: "string list \<Rightarrow> string" where
  "render_path parts = (if parts = [] then ''/'' else ''/'' @ join ''/'' parts)"

definition resolve_path :: "string \<Rightarrow> string \<Rightarrow> string" where
  "resolve_path cwd input_path =
     (let base = (if starts_with slash input_path then ''/'' else cwd) in
      render_path (foldl resolve_step [] (split_on slash base @ split_on slash input_path)))"

subsection \<open>The operations\<close>

definition change_directory :: "vfs_state \<Rightarrow> string \<Rightarrow> bool \<times> vfs_state" where
  "change_directory st path =
     (let resolved = resolve_path (current_dir st) path in
      if resolved = ''/'' then (True, st\<lparr>current_dir := ''/''\<rparr>)
      else
        (case find_node_mut (fs_tree st) resolved of
           Some node \<Rightarrow> if is_directory node then (True, st\<lparr>current_dir := resolved\<rparr>)
                        else (False, st)
         | None \<Rightarrow> (False, st)))"

definition list_directory_cmd :: "vfs_state \<Rightarrow> string \<Rightarrow> out list" where
  "list_directory_cmd st path =
     (let target = (if path = [] then current_dir st else resolve_path (current_dir st) path) in
      case list_directory (fs_tree st) target of
        Some entries \<Rightarrow>
          both_ln (''Directory listing ['' @ target @ '']:'')
          @ (if entries = [] then both_ln ''  (empty)''
             else concat (map (\<lambda>(name, is_dir).
               both_ln (''  '' @ name @ (if is_dir then ''/'' else ''''))) entries))
      | None \<Rightarrow> both_ln (''ls: directory not found: '' @ target))"

definition print_tree :: "vfs_state \<Rightarrow> out list" where
  "print_tree st =
     both_ln ''.''
     @ (case list_directory (fs_tree st) [] of
          Some entries \<Rightarrow>
            concat (map (\<lambda>(name, is_dir).
              both_ln (''|-- '' @ name @ (if is_dir then ''/'' else ''''))) entries)
        | None \<Rightarrow> [])"

definition read_file_string :: "vfs_state \<Rightarrow> string \<Rightarrow> string option" where
  "read_file_string st path =
     (case read_file (fs_tree st) (resolve_path (current_dir st) path) of
        Some bytes \<Rightarrow> if utf8_valid bytes then Some bytes else None
      | None \<Rightarrow> None)"

definition write_file_string :: "vfs_state \<Rightarrow> string \<Rightarrow> string \<Rightarrow> bool \<times> vfs_state" where
  "write_file_string st path content =
     (let (ok, fs) = write_file (fs_tree st) (resolve_path (current_dir st) path) content
      in (ok, st\<lparr>fs_tree := fs\<rparr>))"

definition create_dir :: "vfs_state \<Rightarrow> string \<Rightarrow> bool \<times> vfs_state" where
  "create_dir st path =
     (let (ok, fs) = mkdir (fs_tree st) (resolve_path (current_dir st) path)
      in (ok, st\<lparr>fs_tree := fs\<rparr>))"

definition remove_node :: "vfs_state \<Rightarrow> string \<Rightarrow> bool \<times> vfs_state" where
  "remove_node st path =
     (let (ok, fs) = remove (fs_tree st) (resolve_path (current_dir st) path)
      in (ok, st\<lparr>fs_tree := fs\<rparr>))"

subsection \<open>Canonical paths\<close>

text \<open>A component that path resolution lets through, and a path made of such components
  with single slashes.\<close>

definition good_part :: "string \<Rightarrow> bool" where
  "good_part w = (w \<noteq> [] \<and> slash \<notin> set w \<and> w \<noteq> ''.'' \<and> w \<noteq> ''..'')"

definition canonical :: "string \<Rightarrow> bool" where
  "canonical s = (render_path (path_parts s) = s \<and> list_all good_part (path_parts s))"

lemma path_parts_render:
  assumes "list_all good_part ws"
  shows "path_parts (render_path ws) = ws"
proof (cases "ws = []")
  case True
  then show ?thesis by (simp add: render_path_def)
next
  case False
  have "split_on slash (join ''/'' ws) = ws"
    unfolding split_on_def using assms False
    by (intro split_join) (auto simp: list_all_iff good_part_def)
  moreover have "filter (\<lambda>w. w \<noteq> []) ws = ws"
    using assms by (auto simp: list_all_iff good_part_def filter_id_conv)
  ultimately have "path_parts (join ''/'' ws) = ws" by (simp add: path_parts_def)
  with False show ?thesis by (simp add: render_path_def)
qed

lemma canonical_render: "list_all good_part ws \<Longrightarrow> canonical (render_path ws)"
  by (simp add: canonical_def path_parts_render)

lemma canonical_parts: "canonical s \<Longrightarrow> list_all good_part (path_parts s)"
  by (simp add: canonical_def)

lemma canonical_eq: "canonical s \<Longrightarrow> render_path (path_parts s) = s"
  by (simp add: canonical_def)

lemma canonical_inj: "canonical s \<Longrightarrow> canonical t \<Longrightarrow> path_parts s = path_parts t \<longleftrightarrow> s = t"
  by (metis canonical_eq)

text \<open>Empty pieces do not matter to resolution.\<close>

lemma resolve_filter: "foldl resolve_step acc ws = foldl resolve_step acc (filter (\<lambda>w. w \<noteq> []) ws)"
  by (induction ws arbitrary: acc) (auto simp: resolve_step_def)

lemma resolve_parts_good:
  "list_all good_part acc \<Longrightarrow> \<forall>w\<in>set ws. w \<noteq> [] \<and> slash \<notin> set w
    \<Longrightarrow> list_all good_part (foldl resolve_step acc ws)"
proof (induction ws arbitrary: acc)
  case Nil
  then show ?case by simp
next
  case (Cons w ws)
  have "list_all good_part (resolve_step acc w)"
    using Cons.prems by (auto simp: resolve_step_def good_part_def list_all_iff dest: in_set_butlastD)
  with Cons show ?case by simp
qed

lemma resolve_good_parts: "list_all good_part ws \<Longrightarrow> foldl resolve_step acc ws = acc @ ws"
  by (induction ws arbitrary: acc) (auto simp: resolve_step_def good_part_def)

text \<open>Resolution on component lists: start from the root or from the current directory.\<close>

definition resolve_parts :: "string \<Rightarrow> string \<Rightarrow> string list" where
  "resolve_parts cwd input =
     foldl resolve_step (if starts_with slash input then [] else foldl resolve_step [] (path_parts cwd))
       (path_parts input)"

lemma resolve_path_parts: "resolve_path cwd input = render_path (resolve_parts cwd input)"
proof -
  have "foldl resolve_step [] (split_on slash base @ split_on slash input) =
          foldl resolve_step (foldl resolve_step [] (path_parts base)) (path_parts input)" for base
    by (subst resolve_filter) (simp add: path_parts_def)
  then show ?thesis
    by (simp add: resolve_path_def resolve_parts_def)
qed

lemma resolve_parts_all_good: "list_all good_part (resolve_parts cwd input)"
  unfolding resolve_parts_def
  by (intro resolve_parts_good) (auto dest: path_parts_props intro!: resolve_parts_good)

lemma parts_of_resolve [simp]: "path_parts (resolve_path cwd input) = resolve_parts cwd input"
  by (simp add: resolve_path_parts path_parts_render resolve_parts_all_good)

lemma resolve_is_canonical: "canonical (resolve_path cwd input)"
  by (simp add: resolve_path_parts canonical_render resolve_parts_all_good)

lemma canonical_starts: "canonical s \<Longrightarrow> starts_with slash s"
  by (cases "path_parts s") (auto simp: canonical_def render_path_def starts_with_def split: list.splits)

lemma resolve_canonical_id: "canonical s \<Longrightarrow> resolve_path cwd s = s"
  by (simp add: resolve_path_parts resolve_parts_def canonical_starts resolve_good_parts
      canonical_parts canonical_eq)

lemma resolve_parts_relative:
  "canonical cwd \<Longrightarrow> \<not> starts_with slash p \<Longrightarrow>
     resolve_parts cwd p = foldl resolve_step (path_parts cwd) (path_parts p)"
  by (simp add: resolve_parts_def resolve_good_parts canonical_parts)

text \<open>Resolving \<open>p/q\<close> is resolving \<open>p\<close> and then \<open>q\<close> from there: what \<^verbatim>\<open>cd p\<close>, \<^verbatim>\<open>cd q\<close> does.\<close>

lemma resolve_path_compose:
  assumes "\<not> starts_with slash q" "p \<noteq> []"
  shows "resolve_path cwd (p @ slash # q) = resolve_path (resolve_path cwd p) q"
proof -
  have "starts_with slash (p @ slash # q) = starts_with slash p"
    using assms(2) by (cases p) (auto simp: starts_with_def)
  then have "resolve_parts cwd (p @ slash # q) = foldl resolve_step (resolve_parts cwd p) (path_parts q)"
    by (simp add: resolve_parts_def path_parts_append_slash)
  also have "\<dots> = resolve_parts (resolve_path cwd p) q"
    using assms(1) by (simp add: resolve_parts_relative resolve_is_canonical)
  finally show ?thesis by (simp add: resolve_path_parts)
qed

subsection \<open>The state invariant\<close>

text \<open>The tree is well-formed, the current directory is a canonical path, every name in the
  tree is one that path resolution can produce, and every file holds valid UTF-8.\<close>

definition good_view :: "vfs_view \<Rightarrow> bool" where
  "good_view v \<longleftrightarrow> (\<forall>p. v p \<noteq> None \<longrightarrow> list_all good_part p)
     \<and> (\<forall>p d. v p = Some (Reg d) \<longrightarrow> utf8_valid d)"

lemma good_view_upd:
  "good_view v \<Longrightarrow> list_all good_part p \<Longrightarrow> good_view (v(p \<mapsto> Dir))"
  "good_view v \<Longrightarrow> list_all good_part p \<Longrightarrow> utf8_valid d \<Longrightarrow> good_view (v(p \<mapsto> Reg d))"
  by (simp_all add: good_view_def)

lemma good_view_restrict: "good_view v \<Longrightarrow> good_view (\<lambda>q. if P q then None else v q)"
  by (simp add: good_view_def)

definition vfs_inv :: "vfs_state \<Rightarrow> bool" where
  "vfs_inv st \<longleftrightarrow>
     wf_fs (fs_tree st) \<and> canonical (current_dir st) \<and> good_view (view_of (fs_tree st))"

lemma vfs_inv_wf: "vfs_inv st \<Longrightarrow> wf_fs (fs_tree st)"
  by (simp add: vfs_inv_def)

lemma vfs_inv_cwd: "vfs_inv st \<Longrightarrow> canonical (current_dir st)"
  by (simp add: vfs_inv_def)

lemma vfs_inv_good_view: "vfs_inv st \<Longrightarrow> good_view (view_of (fs_tree st))"
  by (simp add: vfs_inv_def)

lemma vfs_inv_utf8: "vfs_inv st \<Longrightarrow> view_of (fs_tree st) p = Some (Reg d) \<Longrightarrow> utf8_valid d"
  by (auto simp: vfs_inv_def good_view_def)

lemma write_file_string_simps [simp]:
  "fst (write_file_string st path c) = fst (write_file (fs_tree st) (resolve_path (current_dir st) path) c)"
  "fs_tree (snd (write_file_string st path c)) =
     snd (write_file (fs_tree st) (resolve_path (current_dir st) path) c)"
  "current_dir (snd (write_file_string st path c)) = current_dir st"
  by (simp_all add: write_file_string_def split_beta)

lemma create_dir_simps [simp]:
  "fst (create_dir st path) = fst (mkdir (fs_tree st) (resolve_path (current_dir st) path))"
  "fs_tree (snd (create_dir st path)) = snd (mkdir (fs_tree st) (resolve_path (current_dir st) path))"
  "current_dir (snd (create_dir st path)) = current_dir st"
  by (simp_all add: create_dir_def split_beta)

lemma remove_node_simps [simp]:
  "fst (remove_node st path) = fst (remove (fs_tree st) (resolve_path (current_dir st) path))"
  "fs_tree (snd (remove_node st path)) = snd (remove (fs_tree st) (resolve_path (current_dir st) path))"
  "current_dir (snd (remove_node st path)) = current_dir st"
  by (simp_all add: remove_node_def split_beta)

lemma is_directory_kind: "is_directory n \<longleftrightarrow> kind n = Dir"
  by (cases n) simp_all

lemma change_directory_iff:
  "is_directory (fs_root (fs_tree st)) \<Longrightarrow> change_directory st path =
     (if view_of (fs_tree st) (resolve_parts (current_dir st) path) = Some Dir
      then (True, st\<lparr>current_dir := resolve_path (current_dir st) path\<rparr>) else (False, st))"
proof -
  let ?r = "resolve_path (current_dir st) path"
  assume root: "is_directory (fs_root (fs_tree st))"
  have "?r = ''/'' \<longleftrightarrow> resolve_parts (current_dir st) path = []"
    by (metis canonical_eq parts_of_resolve path_parts_Nil path_parts_slash render_path_def
        resolve_is_canonical)
  with root show ?thesis
    by (auto simp: change_directory_def Let_def view_of_def node_view_def find_node_mut_walk
        is_directory_kind split: option.splits)
qed

lemma wf_fs_root [simp]: "wf_fs fs \<Longrightarrow> is_directory (fs_root fs)"
  by (simp add: wf_fs_def)

lemma vfs_inv_change: "vfs_inv st \<Longrightarrow> vfs_inv (snd (change_directory st path))"
  by (simp add: change_directory_iff vfs_inv_def resolve_is_canonical)

lemma vfs_inv_write:
  "vfs_inv st \<Longrightarrow> utf8_valid content \<Longrightarrow> vfs_inv (snd (write_file_string st path content))"
  by (simp add: vfs_inv_def wf_write_file ramfs.wr_view good_view_upd resolve_parts_all_good)

lemma vfs_inv_mkdir: "vfs_inv st \<Longrightarrow> vfs_inv (snd (create_dir st path))"
  by (simp add: vfs_inv_def wf_mkdir ramfs.mk_view good_view_upd resolve_parts_all_good)

lemma vfs_inv_remove: "vfs_inv st \<Longrightarrow> vfs_inv (snd (remove_node st path))"
  by (simp add: vfs_inv_def wf_remove ramfs.rm_view good_view_restrict)

lemmas vfs_inv_ops [inv_intros] = vfs_inv_change vfs_inv_write vfs_inv_mkdir vfs_inv_remove

text \<open>The default structure satisfies it.\<close>

definition good_fs :: "file_system \<Rightarrow> bool" where
  "good_fs fs \<longleftrightarrow> wf_fs fs \<and> good_view (view_of fs)"

lemma good_fs_write:
  "good_fs fs \<Longrightarrow> list_all good_part (path_parts p) \<Longrightarrow> utf8_valid d \<Longrightarrow> good_fs (snd (write_file fs p d))"
  by (simp add: good_fs_def wf_write_file ramfs.wr_view good_view_upd)

lemma good_fs_mkdir:
  "good_fs fs \<Longrightarrow> list_all good_part (path_parts p) \<Longrightarrow> good_fs (snd (mkdir fs p))"
  by (simp add: good_fs_def wf_mkdir ramfs.mk_view good_view_upd)

lemma good_fs_root: "good_fs \<lparr>fs_root = Directory ''/'' []\<rparr>"
proof -
  have "view_of \<lparr>fs_root = Directory ''/'' []\<rparr> p = (if p = [] then Some Dir else None)" for p
    by (cases p) (simp_all add: view_of_def)
  then show ?thesis by (simp add: good_fs_def wf_fs_def good_view_def)
qed

lemma default_files_utf8: "utf8_valid system_conf" "utf8_valid readme_txt" "utf8_valid bin_init"
  by code_simp+

lemma default_paths_good:
  "list_all (\<lambda>p. list_all good_part (path_parts p))
     [''config'', ''bin'', ''home'', ''config/system.conf'', ''readme.txt'', ''bin/init'']"
  by code_simp

lemma good_fs_new: "good_fs new_fs"
  using default_paths_good
  by (simp add: new_fs_def init_default_structure_def good_fs_root good_fs_mkdir good_fs_write
      default_files_utf8)

lemma vfs_inv_init: "vfs_inv init_vfs"
proof -
  have "canonical ''/''" by code_simp
  with good_fs_new show ?thesis by (simp add: vfs_inv_def init_vfs_def good_fs_def)
qed

subsection \<open>Sequences of operations\<close>

datatype vfs_op =
    Cd string
  | Write string string
  | Mkdir string
  | Rm string

fun vfs_step :: "vfs_op \<Rightarrow> vfs_state \<Rightarrow> vfs_state" where
  "vfs_step (Cd p) st = snd (change_directory st p)"
| "vfs_step (Write p c) st = snd (write_file_string st p c)"
| "vfs_step (Mkdir p) st = snd (create_dir st p)"
| "vfs_step (Rm p) st = snd (remove_node st p)"

text \<open>The content of a write is a \<^verbatim>\<open>&str\<close>, so it is valid UTF-8.\<close>

fun op_utf8 :: "vfs_op \<Rightarrow> bool" where
  "op_utf8 (Write p c) = utf8_valid c"
| "op_utf8 _ = True"

lemma vfs_inv_step: "vfs_inv st \<Longrightarrow> op_utf8 op \<Longrightarrow> vfs_inv (vfs_step op st)"
  by (cases op) (auto intro: inv_intros)

lemma vfs_inv_run: "vfs_inv st \<Longrightarrow> list_all op_utf8 ops \<Longrightarrow> vfs_inv (fold vfs_step ops st)"
  by (induction ops arbitrary: st) (auto intro: vfs_inv_step)

text \<open>The current directory names a directory.\<close>

definition cwd_exists :: "vfs_state \<Rightarrow> bool" where
  "cwd_exists st = (view_of (fs_tree st) (path_parts (current_dir st)) = Some Dir)"

lemma cwd_exists_change:
  "vfs_inv st \<Longrightarrow> cwd_exists st \<Longrightarrow> cwd_exists (snd (change_directory st p))"
  by (auto dest!: vfs_inv_wf simp: change_directory_iff cwd_exists_def)

lemma cwd_exists_write:
  "vfs_inv st \<Longrightarrow> cwd_exists st \<Longrightarrow> cwd_exists (snd (write_file_string st p c))"
  by (auto dest!: vfs_inv_wf simp: cwd_exists_def ramfs.wr_view ramfs.wr_ok)

lemma cwd_exists_mkdir:
  "vfs_inv st \<Longrightarrow> cwd_exists st \<Longrightarrow> cwd_exists (snd (create_dir st p))"
  by (auto dest!: vfs_inv_wf simp: cwd_exists_def ramfs.mk_view ramfs.mk_ok)

lemma cwd_exists_remove:
  "vfs_inv st \<Longrightarrow> cwd_exists st \<Longrightarrow>
     cwd_exists (snd (remove_node st p)) \<longleftrightarrow>
       \<not> (fst (remove_node st p)
          \<and> is_prefix (resolve_parts (current_dir st) p) (path_parts (current_dir st)))"
  by (auto dest!: vfs_inv_wf simp: cwd_exists_def ramfs.rm_view)

lemma read_written:
  "vfs_inv st \<Longrightarrow> fst (write_file_string st path content) \<Longrightarrow> utf8_valid content \<Longrightarrow>
     read_file_string (snd (write_file_string st path content)) path = Some content"
  using ramfs.read_after_write [OF vfs_inv_wf, of st "resolve_path (current_dir st) path" content]
  by (simp add: read_file_string_def)

subsection \<open>Properties\<close>

text \<open>C14. The RamFS implements the abstract file system: on a well-formed tree, each of
  \<^verbatim>\<open>write_file\<close>, \<^verbatim>\<open>mkdir\<close> and \<^verbatim>\<open>remove\<close> returns true exactly when the map operation
  applies and changes the map from component lists to entries as that operation does,
  \<^verbatim>\<open>read_file\<close> is the lookup in that map, and the tree stays well-formed.\<close>

theorem ramfs_refines:
  assumes "wf_fs fs"
  shows "(fst (write_file fs p d), view_of (snd (write_file fs p d)))
           = spec_write (view_of fs) (path_parts p) d
       \<and> (fst (mkdir fs p), view_of (snd (mkdir fs p))) = spec_mkdir (view_of fs) (path_parts p)
       \<and> (fst (remove fs p), view_of (snd (remove fs p))) = spec_remove (view_of fs) (path_parts p)
       \<and> read_file fs p = spec_read (view_of fs) (path_parts p)
       \<and> wf_fs (snd (write_file fs p d)) \<and> wf_fs (snd (mkdir fs p)) \<and> wf_fs (snd (remove fs p))"
  using assms by (simp add: write_file_spec mkdir_spec remove_spec read_file_spec wf_ops)

theorem ramfs_refines_witness:
  "wf_fs new_fs \<and>
   (fst (remove new_fs ''/bin''), view_of (snd (remove new_fs ''/bin'')))
     = spec_remove (view_of new_fs) (path_parts ''/bin'')"
  using good_fs_new ramfs_refines [of new_fs "''/bin''" "''''"] by (simp add: good_fs_def)

text \<open>C25. Whatever sequence of \<^verbatim>\<open>cd\<close>, \<^verbatim>\<open>write\<close>, \<^verbatim>\<open>mkdir\<close> and \<^verbatim>\<open>rm\<close> runs from the booted file
  system, siblings keep distinct names, no node is ever called \<open>.\<close>, \<open>..\<close> or the empty
  string, every file holds valid UTF-8 and the current directory is a canonical absolute
  path.\<close>

theorem vfs_invariant:
  assumes "list_all op_utf8 ops"
  shows "vfs_inv (fold vfs_step ops init_vfs)"
  using vfs_inv_init assms by (rule vfs_inv_run)

theorem vfs_invariant_witness:
  "vfs_inv (fold vfs_step [Cd ''home'', Write ''a//b'' ''x'', Mkdir ''../d'', Rm ''/bin/''] init_vfs)"
  by (rule vfs_invariant) code_simp

text \<open>After a successful write, reading the same path gives the written text back, and
  every path that resolves elsewhere reads as before.\<close>

theorem write_then_read:
  assumes inv: "vfs_inv st" and ok: "fst (write_file_string st path content)"
    and utf8: "utf8_valid content"
  shows "read_file_string (snd (write_file_string st path content)) path = Some content
    \<and> (\<forall>other. resolve_path (current_dir st) other \<noteq> resolve_path (current_dir st) path \<longrightarrow>
         read_file_string (snd (write_file_string st path content)) other = read_file_string st other)"
proof (intro conjI allI impI)
  note wf = vfs_inv_wf [OF inv]
  show "read_file_string (snd (write_file_string st path content)) path = Some content"
    by (rule read_written [OF inv ok utf8])
  fix other
  assume "resolve_path (current_dir st) other \<noteq> resolve_path (current_dir st) path"
  then have "path_parts (resolve_path (current_dir st) other) \<noteq> path_parts (resolve_path (current_dir st) path)"
    by (simp only: canonical_inj resolve_is_canonical not_False_eq_True)
  from ramfs.write_frame [OF wf this]
  show "read_file_string (snd (write_file_string st path content)) other = read_file_string st other"
    by (simp add: read_file_string_def)
qed

theorem write_then_read_witness:
  "read_file_string (snd (write_file_string init_vfs ''home/../readme.txt'' ''hi'')) ''home/../readme.txt'' = Some ''hi''
   \<and> read_file_string (snd (write_file_string init_vfs ''home/../readme.txt'' ''hi'')) ''bin/init'' = Some bin_init"
proof -
  have "fst (write_file_string init_vfs ''home/../readme.txt'' ''hi'')" "utf8_valid ''hi''"
    by code_simp+
  note wr = write_then_read [OF vfs_inv_init this]
  have "resolve_path (current_dir init_vfs) ''bin/init'' \<noteq> resolve_path (current_dir init_vfs) ''home/../readme.txt''"
    "read_file_string init_vfs ''bin/init'' = Some bin_init"
    by code_simp+
  with wr show ?thesis by simp
qed

text \<open>\<^verbatim>\<open>rm\<close> succeeds exactly on an existing path other than the root, and then what is gone
  is that path with everything below it and nothing else.\<close>

theorem remove_exactly:
  assumes inv: "vfs_inv st"
  shows "(fst (remove_node st path) \<longleftrightarrow>
           resolve_parts (current_dir st) path \<noteq> []
           \<and> view_of (fs_tree st) (resolve_parts (current_dir st) path) \<noteq> None)
       \<and> view_of (fs_tree (snd (remove_node st path))) q =
           (if fst (remove_node st path) \<and> is_prefix (resolve_parts (current_dir st) path) q then None
            else view_of (fs_tree st) q)"
  using vfs_inv_wf [OF inv] by (simp_all add: ramfs.rm_ok ramfs.rm_view)

theorem remove_exactly_witness:
  "fst (remove_node init_vfs ''config'')
   \<and> view_of (fs_tree (snd (remove_node init_vfs ''config''))) [''config'', ''system.conf''] = None
   \<and> view_of (fs_tree (snd (remove_node init_vfs ''config''))) [''home''] = Some Dir"
proof -
  have "resolve_parts (current_dir init_vfs) ''config'' = [''config'']"
    "view_of (fs_tree init_vfs) [''config''] = Some Dir" "view_of (fs_tree init_vfs) [''home''] = Some Dir"
    by code_simp+
  then show ?thesis
    using remove_exactly [OF vfs_inv_init, of "''config''"] by (simp add: is_prefix_def)
qed



text \<open>The UTF-8 check of \<^verbatim>\<open>read_file_string\<close> never rejects a file: \<^verbatim>\<open>cat\<close> fails exactly when
  the path names no file, and otherwise shows the bytes that are stored.\<close>

theorem cat_shows_stored:
  assumes "vfs_inv st"
  shows "read_file_string st path = spec_read (view_of (fs_tree st)) (resolve_parts (current_dir st) path)"
  using vfs_inv_utf8 [OF assms]
  by (auto simp: read_file_string_def read_file_spec spec_read_def split: option.splits entry.splits)

theorem cat_shows_stored_witness:
  "read_file_string init_vfs ''readme.txt'' =
     spec_read (view_of (fs_tree init_vfs)) (resolve_parts (current_dir init_vfs) ''readme.txt'')"
  by (rule cat_shows_stored [OF vfs_inv_init])

text \<open>C34. The current directory keeps naming a directory under \<^verbatim>\<open>cd\<close>, \<^verbatim>\<open>write\<close> and \<^verbatim>\<open>mkdir\<close>; under
  \<^verbatim>\<open>rm\<close> it does exactly when the removed path is not the current directory or one above
  it, which \<^verbatim>\<open>rm\<close> does not check.\<close>

theorem cwd_dangles_only_by_rm:
  assumes inv: "vfs_inv st" and cwd: "cwd_exists st"
  shows "cwd_exists (snd (change_directory st p))
    \<and> cwd_exists (snd (write_file_string st p c))
    \<and> cwd_exists (snd (create_dir st p))
    \<and> (cwd_exists (snd (remove_node st p)) \<longleftrightarrow>
         \<not> (fst (remove_node st p)
            \<and> is_prefix (resolve_parts (current_dir st) p) (path_parts (current_dir st))))"
  using cwd_exists_change [OF assms] cwd_exists_write [OF assms] cwd_exists_mkdir [OF assms]
    cwd_exists_remove [OF assms]
  by blast

text \<open>The run \<^verbatim>\<open>cd home\<close>, \<^verbatim>\<open>rm /home\<close> leaves a current directory that is not there.\<close>

theorem cwd_dangles_only_by_rm_witness:
  "cwd_exists (snd (change_directory init_vfs ''home''))
   \<and> \<not> cwd_exists (snd (remove_node (snd (change_directory init_vfs ''home'')) ''/home''))"
proof -
  let ?st = "snd (change_directory init_vfs ''home'')"
  have home: "cwd_exists ?st" by code_simp
  have "fst (remove_node ?st ''/home'')
      \<and> is_prefix (resolve_parts (current_dir ?st) ''/home'') (path_parts (current_dir ?st))"
    by code_simp
  with cwd_dangles_only_by_rm [OF vfs_inv_change [OF vfs_inv_init] home, of "''/home''" "''/home''"] home
  show ?thesis by blast
qed

end
