(* ===== verification/Input.thy ===== *)
theory Input
  imports Console
begin

text \<open>
  The line editor of \<^verbatim>\<open>src/src/input.rs\<close>: the line being typed, the queue of committed lines
  the shell takes from, the history, and the modifier flags. All of its operations run with
  interrupts off, so each is an atomic step; characters are single bytes, since the input
  decoders produce printable ASCII only. The two bounded queues share one interface.
\<close>

definition max_line_len :: nat where
  "max_line_len = 128"

definition max_queue_depth :: nat where
  "max_queue_depth = 8"

definition max_history :: nat where
  "max_history = 16"

record keyboard_modifiers =
  shift :: bool
  ctrl :: bool
  alt :: bool
  caps_lock :: bool

definition no_modifiers :: keyboard_modifiers where
  "no_modifiers = \<lparr>shift = False, ctrl = False, alt = False, caps_lock = False\<rparr>"

datatype special_key =
    UpArrow | DownArrow | LeftArrow | RightArrow | Home | End | Escape | FunctionKey u8

record input_buffer =
  line :: string
  ready_lines :: "string list"
  history :: "string list"
  modifiers :: keyboard_modifiers

definition new_input :: input_buffer where
  "new_input = \<lparr>line = [], ready_lines = [], history = [], modifiers = no_modifiers\<rparr>"

subsection \<open>Operations\<close>

definition push_char :: "char \<Rightarrow> input_buffer \<Rightarrow> input_buffer" where
  "push_char ch b = (if length (line b) < max_line_len then b\<lparr>line := line b @ [ch]\<rparr> else b)"

definition backspace :: "input_buffer \<Rightarrow> bool \<times> input_buffer" where
  "backspace b = (line b \<noteq> [], b\<lparr>line := butlast (line b)\<rparr>)"

definition handle_special_key :: "special_key \<Rightarrow> input_buffer \<Rightarrow> input_buffer" where
  "handle_special_key key b =
     (case key of
        UpArrow \<Rightarrow> (if history b = [] then b else b\<lparr>line := last (history b)\<rparr>)
      | Escape \<Rightarrow> b\<lparr>line := []\<rparr>
      | _ \<Rightarrow> b)"

definition set_modifier :: "string \<Rightarrow> bool \<Rightarrow> input_buffer \<Rightarrow> input_buffer" where
  "set_modifier mod_kind state b =
     (if mod_kind = ''shift'' then b\<lparr>modifiers := (modifiers b)\<lparr>shift := state\<rparr>\<rparr>
      else if mod_kind = ''ctrl'' then b\<lparr>modifiers := (modifiers b)\<lparr>ctrl := state\<rparr>\<rparr>
      else if mod_kind = ''alt'' then b\<lparr>modifiers := (modifiers b)\<lparr>alt := state\<rparr>\<rparr>
      else if mod_kind = ''caps'' then b\<lparr>modifiers := (modifiers b)\<lparr>caps_lock := state\<rparr>\<rparr>
      else b)"

text \<open>The two bounded queues of \<^verbatim>\<open>commit_line\<close>: the oldest entry makes room.\<close>

definition push_history :: "string \<Rightarrow> string list \<Rightarrow> string list" where
  "push_history l q = (if length q \<ge> max_history then tl q else q) @ [l]"

definition push_ready :: "string \<Rightarrow> string list \<Rightarrow> string list" where
  "push_ready l q = (if length q \<ge> max_queue_depth then tl q else q) @ [l]"

definition commit_line :: "input_buffer \<Rightarrow> input_buffer" where
  "commit_line b =
     (let l = line b; b = b\<lparr>line := []\<rparr>;
          b = (if l \<noteq> [] then b\<lparr>history := push_history l (history b)\<rparr> else b)
      in b\<lparr>ready_lines := push_ready l (ready_lines b)\<rparr>)"

definition pop_line :: "input_buffer \<Rightarrow> string option \<times> input_buffer" where
  "pop_line b =
     (case ready_lines b of
        [] \<Rightarrow> (None, b)
      | l # ls \<Rightarrow> (Some l, b\<lparr>ready_lines := ls\<rparr>))"

definition current_line :: "input_buffer \<Rightarrow> string" where
  "current_line b = line b"

definition get_modifiers :: "input_buffer \<Rightarrow> keyboard_modifiers" where
  "get_modifiers b = modifiers b"

subsection \<open>Bounded queues\<close>

text \<open>A queue that keeps at most \<open>cap\<close> entries by dropping the oldest: pushing a sequence
  leaves the last \<open>cap\<close> of everything that went in, in order.\<close>

locale drop_oldest_queue =
  fixes cap :: nat and push :: "'a \<Rightarrow> 'a list \<Rightarrow> 'a list"
  assumes cap_pos: "0 < cap"
    and push_room: "length q < cap \<Longrightarrow> push x q = q @ [x]"
    and push_full: "cap \<le> length q \<Longrightarrow> push x q = tl q @ [x]"
begin

lemma length_push: "length q \<le> cap \<Longrightarrow> length (push x q) \<le> cap"
  using cap_pos by (cases "length q < cap") (auto simp: push_room push_full)

lemma push_last: "length q \<le> cap \<Longrightarrow> push x q = drop (Suc (length q) - cap) (q @ [x])"
  using cap_pos by (cases "length q < cap") (auto simp: push_room push_full drop_Suc)

lemma set_push: "set (push x q) \<subseteq> insert x (set q)"
  by (cases "length q < cap"; cases q) (auto simp: push_room push_full)

lemma push_all:
  "length q \<le> cap \<Longrightarrow> fold push xs q = drop (length (q @ xs) - cap) (q @ xs)"
proof (induction xs rule: rev_induct)
  case Nil
  then show ?case by simp
next
  case (snoc x xs)
  let ?k = "length (q @ xs) - cap"
  have IH: "fold push xs q = drop ?k (q @ xs)" using snoc by simp
  have len: "length (drop ?k (q @ xs)) \<le> cap" by simp
  have "fold push (xs @ [x]) q = push x (drop ?k (q @ xs))" by (simp only: fold_append IH fold_simps o_apply)
  also have "\<dots> = drop (length (q @ xs @ [x]) - cap) (q @ xs @ [x])"
  proof (cases "length (q @ xs) < cap")
    case True
    then show ?thesis by (simp add: push_room)
  next
    case False
    then have "push x (drop ?k (q @ xs)) = tl (drop ?k (q @ xs)) @ [x]"
      by (intro push_full) simp
    also have "\<dots> = drop (Suc ?k) (q @ xs) @ [x]" by (simp only: drop_Suc tl_drop)
    also have "\<dots> = drop (length (q @ xs @ [x]) - cap) (q @ xs @ [x])"
      using False cap_pos by (simp add: Suc_diff_le)
    finally show ?thesis .
  qed
  finally show ?case .
qed

end

interpretation ready_queue: drop_oldest_queue max_queue_depth push_ready
  by unfold_locales (auto simp: push_ready_def max_queue_depth_def)

interpretation history_queue: drop_oldest_queue max_history push_history
  by unfold_locales (auto simp: push_history_def max_history_def)

subsection \<open>The invariant\<close>

text \<open>Every stored line fits the line buffer and is printable, the queues respect their bounds,
  history has no empty line.\<close>

definition good_line :: "string \<Rightarrow> bool" where
  "good_line l = (length l \<le> max_line_len \<and> list_all is_printable l)"

definition input_inv :: "input_buffer \<Rightarrow> bool" where
  "input_inv b =
     (good_line (line b) \<and> list_all good_line (ready_lines b)
      \<and> list_all (\<lambda>l. good_line l \<and> l \<noteq> []) (history b)
      \<and> length (ready_lines b) \<le> max_queue_depth \<and> length (history b) \<le> max_history)"

lemma input_inv_new: "input_inv new_input"
  by (simp add: input_inv_def new_input_def good_line_def)

lemma input_inv_push_char: "input_inv b \<Longrightarrow> is_printable ch \<Longrightarrow> input_inv (push_char ch b)"
  by (auto simp: input_inv_def push_char_def good_line_def)

lemma input_inv_backspace: "input_inv b \<Longrightarrow> input_inv (snd (backspace b))"
  by (auto simp: input_inv_def backspace_def good_line_def list_all_iff dest: in_set_butlastD)

lemma input_inv_special: "input_inv b \<Longrightarrow> input_inv (handle_special_key key b)"
  by (cases key) (auto simp: input_inv_def handle_special_key_def good_line_def list_all_iff)

lemma input_inv_modifier: "input_inv b \<Longrightarrow> input_inv (set_modifier m v b)"
  by (simp add: input_inv_def set_modifier_def)

lemma input_inv_pop: "input_inv b \<Longrightarrow> input_inv (snd (pop_line b))"
  by (auto simp: input_inv_def pop_line_def split: list.splits)

lemma list_all_push:
  "list_all P q \<Longrightarrow> P l \<Longrightarrow> list_all P (push_ready l q)"
  "list_all P q \<Longrightarrow> P l \<Longrightarrow> list_all P (push_history l q)"
  using ready_queue.set_push [of l q] history_queue.set_push [of l q] by (auto simp: list_all_iff)

lemma input_inv_commit: "input_inv b \<Longrightarrow> input_inv (commit_line b)"
  by (auto simp: input_inv_def commit_line_def Let_def list_all_push ready_queue.length_push
      history_queue.length_push good_line_def)

lemma pop_line_good: "input_inv b \<Longrightarrow> fst (pop_line b) = Some l \<Longrightarrow> good_line l"
  by (auto simp: input_inv_def pop_line_def split: list.splits)

lemmas input_inv_ops [inv_intros] =
  input_inv_push_char input_inv_backspace input_inv_special input_inv_modifier input_inv_pop
  input_inv_commit

end
