(* ===== verification/Scheduler.thy ===== *)
theory Scheduler
  imports Rust_Format
begin

text \<open>
  The cooperative scheduler of \<^verbatim>\<open>src/src/scheduler.rs\<close>: a table of eight slots, a
  round-robin choice of the next ready task, the two critical sections around a task's
  run (\<^verbatim>\<open>prepare_next\<close>, \<^verbatim>\<open>finish_task\<close>), and the operations the shell calls on the table.
  A task function is one of the four the source names; \<open>run_task\<close> gives its effect on the
  context, the effects of the shell on the rest of the kernel are in theory Shell. The
  table is locked within each operation, so the operations are the atomic steps.
\<close>

subsection \<open>State\<close>

definition max_tasks :: nat where
  "max_tasks = 8"

datatype task_state = Ready | Running | Finished

datatype task_fn = Idle_Task | Worker_Task | Logger_Task | Shell_Task

record task_context =
  task_id :: nat
  ctx_tick :: u64
  yielded :: bool
  finished :: bool

definition yield_now :: "task_context \<Rightarrow> task_context" where
  "yield_now ctx = ctx\<lparr>yielded := True\<rparr>"

definition finish :: "task_context \<Rightarrow> task_context" where
  "finish ctx = ctx\<lparr>finished := True\<rparr>"

record task =
  t_name :: string
  t_func :: task_fn
  t_state :: task_state
  t_runs :: u64

definition new_task :: "string \<Rightarrow> task_fn \<Rightarrow> task" where
  "new_task name func = \<lparr>t_name = name, t_func = func, t_state = Ready, t_runs = 0\<rparr>"

record scheduler =
  tasks :: "task option list"
  current :: nat

definition new_scheduler :: scheduler where
  "new_scheduler = \<lparr>tasks = replicate max_tasks None, current = 0\<rparr>"

subsection \<open>The four task functions\<close>

definition idle_task :: "task_context \<Rightarrow> task_context" where
  "idle_task ctx = yield_now ctx"

definition worker_task :: "task_context \<Rightarrow> task_context" where
  "worker_task ctx = yield_now ctx"

definition logger_task :: "task_context \<Rightarrow> task_context" where
  "logger_task ctx = (if ctx_tick ctx > 128 then finish ctx else yield_now ctx)"

text \<open>\<^verbatim>\<open>shell::task\<close> runs one round of the shell and yields.\<close>

fun run_task :: "task_fn \<Rightarrow> task_context \<Rightarrow> task_context" where
  "run_task Idle_Task ctx = idle_task ctx"
| "run_task Worker_Task ctx = worker_task ctx"
| "run_task Logger_Task ctx = logger_task ctx"
| "run_task Shell_Task ctx = yield_now ctx"

subsection \<open>Operations on the table\<close>

definition add_task :: "scheduler \<Rightarrow> string \<Rightarrow> task_fn \<Rightarrow> (nat \<times> scheduler) res" where
  "add_task s name func =
     (case position Option.is_none (tasks s) of
        Some idx \<Rightarrow> Inr (idx, s\<lparr>tasks := (tasks s)[idx := Some (new_task name func)]\<rparr>)
      | None \<Rightarrow> Inl (Panic ''scheduler task table full''))"

definition is_ready :: "scheduler \<Rightarrow> nat \<Rightarrow> bool" where
  "is_ready s idx = (map_option t_state (tasks s ! idx) = Some Ready)"

definition next_runnable_from :: "scheduler \<Rightarrow> nat \<Rightarrow> nat option" where
  "next_runnable_from s start =
     map_option (\<lambda>offset. (start + offset) mod max_tasks)
       (position (\<lambda>offset. is_ready s ((start + offset) mod max_tasks)) [0..<max_tasks])"

definition prepare_next ::
  "scheduler \<Rightarrow> u64 \<Rightarrow> ((nat \<times> task_fn \<times> task_context) option \<times> scheduler) res" where
  "prepare_next s tick =
     (case next_runnable_from s (current s) of
        None \<Rightarrow> Inr (None, s)
      | Some idx \<Rightarrow>
          (case tasks s ! idx of
             None \<Rightarrow> Inl (Panic ''task missing'')
           | Some t \<Rightarrow>
               bind_res (checked_add (t_runs t) 1) (\<lambda>runs.
                 Inr (Some (idx, t_func t,
                        \<lparr>task_id = idx, ctx_tick = tick, yielded = False, finished = False\<rparr>),
                      s\<lparr>tasks := (tasks s)[idx := Some (t\<lparr>t_state := Running, t_runs := runs\<rparr>)]\<rparr>))))"

definition finish_task :: "scheduler \<Rightarrow> nat \<Rightarrow> task_context \<Rightarrow> scheduler res" where
  "finish_task s idx ctx =
     (case tasks s ! idx of
        None \<Rightarrow> Inl (Panic ''task missing'')
      | Some t \<Rightarrow>
          Inr (s\<lparr>tasks := (tasks s)[idx := Some (t\<lparr>t_state := (if finished ctx then Finished else Ready)\<rparr>)],
                 current := (if yielded ctx then (idx + 1) mod max_tasks else idx)\<rparr>))"

definition kill_task :: "scheduler \<Rightarrow> nat \<Rightarrow> bool \<times> scheduler" where
  "kill_task s ident =
     (if ident < max_tasks then
        (case tasks s ! ident of
           Some t \<Rightarrow> (True, s\<lparr>tasks := (tasks s)[ident := Some (t\<lparr>t_state := Finished\<rparr>)]\<rparr>)
         | None \<Rightarrow> (False, s))
      else (False, s))"

definition slot_free :: "task option \<Rightarrow> bool" where
  "slot_free slot = (Option.is_none slot \<or> map_option t_state slot = Some Finished)"

definition spawn_task :: "scheduler \<Rightarrow> string \<Rightarrow> nat option \<times> scheduler" where
  "spawn_task s name =
     (case position slot_free (tasks s) of
        Some idx \<Rightarrow> (Some idx, s\<lparr>tasks := (tasks s)[idx := Some (new_task name Worker_Task)]\<rparr>)
      | None \<Rightarrow> (None, s))"

record task_info =
  ti_id :: nat
  ti_name :: string
  ti_state :: task_state
  ti_runs :: u64

definition snapshot_tasks :: "scheduler \<Rightarrow> task_info list" where
  "snapshot_tasks s =
     List.map_filter (\<lambda>(ident, slot).
       map_option (\<lambda>t. \<lparr>ti_id = ident, ti_name = t_name t, ti_state = t_state t, ti_runs = t_runs t\<rparr>) slot)
       (enumerate 0 (tasks s))"

definition task_count :: "scheduler \<Rightarrow> nat" where
  "task_count s = length (filter (\<lambda>t. \<not> Option.is_none t) (tasks s))"

text \<open>\<^verbatim>\<open>BOOT_TICK_COUNT.fetch_add(1)\<close> wraps around.\<close>

definition on_timer_tick :: "u64 \<Rightarrow> u64" where
  "on_timer_tick ticks = ticks + 1"

text \<open>\<^verbatim>\<open>scheduler::init\<close>.\<close>

definition init_scheduler :: "scheduler res" where
  "init_scheduler =
     bind_res (add_task new_scheduler ''idle'' Idle_Task) (\<lambda>(_, s).
     bind_res (add_task s ''worker-a'' Worker_Task) (\<lambda>(_, s).
     bind_res (add_task s ''worker-b'' Logger_Task) (\<lambda>(_, s).
     bind_res (add_task s ''shell'' Shell_Task) (\<lambda>(_, s). Inr s))))"

subsection \<open>One iteration of the main loop\<close>

text \<open>
  What the shell does to the table while it runs is a list of table operations; the lock is
  free then. \<open>run_round\<close> is one iteration of \<^verbatim>\<open>scheduler::run\<close> with such a list (empty for the
  other tasks); its result says which slot ran.
\<close>

datatype table_op = Kill nat | Spawn string

fun apply_op :: "table_op \<Rightarrow> scheduler \<Rightarrow> scheduler" where
  "apply_op (Kill ident) s = snd (kill_task s ident)"
| "apply_op (Spawn name) s = snd (spawn_task s name)"

definition run_round :: "u64 \<Rightarrow> table_op list \<Rightarrow> scheduler \<Rightarrow> (nat option \<times> scheduler) res" where
  "run_round tick ops s =
     bind_res (prepare_next s tick) (\<lambda>(prepared, s).
       case prepared of
         None \<Rightarrow> Inr (None, s)
       | Some (idx, func, ctx) \<Rightarrow>
           bind_res (finish_task (fold apply_op ops s) idx (run_task func ctx)) (\<lambda>s.
             Inr (Some idx, s)))"

fun run_rounds :: "(u64 \<times> table_op list) list \<Rightarrow> scheduler \<Rightarrow> (nat option list \<times> scheduler) res" where
  "run_rounds [] s = Inr ([], s)"
| "run_rounds ((tick, ops) # rest) s =
     bind_res (run_round tick ops s) (\<lambda>(who, s).
     bind_res (run_rounds rest s) (\<lambda>(whos, s). Inr (who # whos, s)))"

subsection \<open>The choice of the next task\<close>

lemma max_tasks_pos [simp]: "0 < max_tasks"
  by (simp add: max_tasks_def)

definition sched_wf :: "scheduler \<Rightarrow> bool" where
  "sched_wf s = (length (tasks s) = max_tasks \<and> current s < max_tasks)"

lemma next_runnable_SomeD:
  assumes "next_runnable_from s start = Some idx"
  obtains k where "k < max_tasks" "idx = (start + k) mod max_tasks" "is_ready s idx"
    "\<forall>j<k. \<not> is_ready s ((start + j) mod max_tasks)"
proof -
  from assms obtain k where
      k: "position (\<lambda>k. is_ready s ((start + k) mod max_tasks)) [0..<max_tasks] = Some k"
      and idx: "idx = (start + k) mod max_tasks"
    by (auto simp: next_runnable_from_def)
  from position_Some [OF k] show ?thesis
    using that [of k] idx by auto
qed

text \<open>Every slot is at some offset below eight from any start.\<close>

lemma slot_offset: "i < max_tasks \<Longrightarrow> \<exists>k<max_tasks. (start + k) mod max_tasks = i"
proof -
  assume i: "i < max_tasks"
  define r where "r = start mod max_tasks"
  define q where "q = start div max_tasks"
  have s: "start = q * max_tasks + r" by (simp add: q_def r_def)
  have r: "r < max_tasks" by (simp add: r_def)
  show ?thesis
  proof (cases "r \<le> i")
    case True
    then have "start + (i - r) = i + q * max_tasks" using s by linarith
    then have "(start + (i - r)) mod max_tasks = i" using i by simp
    with i show ?thesis by (intro exI [of _ "i - r"]) auto
  next
    case False
    then have "start + (i + max_tasks - r) = i + (q + 1) * max_tasks" using s r by simp
    then have "(start + (i + max_tasks - r)) mod max_tasks = i"
      using i by (metis mod_less mod_mult_self1)
    with i False show ?thesis by (intro exI [of _ "i + max_tasks - r"]) auto
  qed
qed

lemma next_runnable_None_iff:
  "next_runnable_from s start = None \<longleftrightarrow> (\<forall>i<max_tasks. \<not> is_ready s i)"
proof -
  have "next_runnable_from s start = None \<longleftrightarrow> (\<forall>k<max_tasks. \<not> is_ready s ((start + k) mod max_tasks))"
    by (auto simp: next_runnable_from_def position_None)
  also have "\<dots> \<longleftrightarrow> (\<forall>i<max_tasks. \<not> is_ready s i)"
    by (metis slot_offset max_tasks_pos mod_less_divisor)
  finally show ?thesis .
qed

lemma next_runnable_bound: "next_runnable_from s start = Some idx \<Longrightarrow> idx < max_tasks"
  by (elim next_runnable_SomeD) simp

lemma next_runnable_ready: "next_runnable_from s start = Some idx \<Longrightarrow> is_ready s idx"
  by (elim next_runnable_SomeD)

lemma is_ready_slot: "is_ready s i \<longleftrightarrow> (\<exists>t. tasks s ! i = Some t \<and> t_state t = Ready)"
  by (auto simp: is_ready_def)

subsection \<open>What the operations do to a slot\<close>

lemma prepare_next_cases:
  assumes "prepare_next s tick = Inr (r, s')"
  obtains (idle) "r = None" "s' = s" "\<forall>i<max_tasks. \<not> is_ready s i"
  | (run) idx t where "next_runnable_from s (current s) = Some idx"
      "tasks s ! idx = Some t" "t_state t = Ready" "unat (t_runs t) + 1 < 2 ^ 64"
      "r = Some (idx, t_func t, \<lparr>task_id = idx, ctx_tick = tick, yielded = False, finished = False\<rparr>)"
      "s' = s\<lparr>tasks := (tasks s)[idx := Some (t\<lparr>t_state := Running, t_runs := t_runs t + 1\<rparr>)]\<rparr>"
proof (cases "next_runnable_from s (current s)")
  case None
  then show ?thesis
    using assms idle next_runnable_None_iff [of s "current s"] by (simp add: prepare_next_def)
next
  case (Some idx)
  then obtain t where t: "tasks s ! idx = Some t" "t_state t = Ready"
    using next_runnable_ready is_ready_slot by blast
  show ?thesis
    using assms Some t by (intro run [OF Some t])
      (auto simp: prepare_next_def bind_res_eq_Inr checked_add_Inr_iff)
qed

lemma prepare_next_panic:
  assumes "prepare_next s tick = Inl e"
  shows "e = Panic ''attempt to add with overflow''"
proof (cases "next_runnable_from s (current s)")
  case None
  with assms show ?thesis by (simp add: prepare_next_def)
next
  case (Some idx)
  then obtain t where "tasks s ! idx = Some t"
    using next_runnable_ready is_ready_slot by blast
  with Some assms show ?thesis
    by (cases "checked_add (t_runs t) 1") (auto simp: prepare_next_def checked_add_def split: if_splits)
qed

lemma prepare_next_ok:
  assumes "next_runnable_from s (current s) = Some idx" "tasks s ! idx = Some t"
    and "unat (t_runs t) + 1 < 2 ^ 64"
  shows "prepare_next s tick =
     Inr (Some (idx, t_func t, \<lparr>task_id = idx, ctx_tick = tick, yielded = False, finished = False\<rparr>),
          s\<lparr>tasks := (tasks s)[idx := Some (t\<lparr>t_state := Running, t_runs := t_runs t + 1\<rparr>)]\<rparr>)"
proof -
  have "checked_add (t_runs t) 1 = Inr (t_runs t + 1)"
    using assms(3) by (simp add: checked_add_Inr_iff)
  with assms(1,2) show ?thesis by (simp add: prepare_next_def)
qed

lemma spawn_slot:
  "spawn_task s name =
     (case position slot_free (tasks s) of
        None \<Rightarrow> (None, s)
      | Some idx \<Rightarrow> (Some idx, s\<lparr>tasks := (tasks s)[idx := Some (new_task name Worker_Task)]\<rparr>))"
  by (simp add: spawn_task_def split: option.split)

lemma apply_op_length [simp]: "length (tasks (apply_op op s)) = length (tasks s)"
  by (cases op) (simp_all add: kill_task_def spawn_task_def split: option.splits)

lemma apply_op_current [simp]: "current (apply_op op s) = current s"
  by (cases op) (simp_all add: kill_task_def spawn_task_def split: option.splits)

lemma apply_ops_simps [simp]:
  "length (tasks (fold apply_op ops s)) = length (tasks s)"
  "current (fold apply_op ops s) = current s"
  by (induction ops arbitrary: s) simp_all

text \<open>A slot after one table operation: as before, killed, or a fresh worker in a free slot.\<close>

lemma apply_op_slot:
  assumes "j < length (tasks s)"
  obtains (same) "tasks (apply_op op s) ! j = tasks s ! j"
  | (killed) t where "op = Kill j" "tasks s ! j = Some t"
      "tasks (apply_op op s) ! j = Some (t\<lparr>t_state := Finished\<rparr>)"
  | (spawned) name where "op = Spawn name" "slot_free (tasks s ! j)"
      "tasks (apply_op op s) ! j = Some (new_task name Worker_Task)"
proof (cases op)
  case (Kill i)
  show ?thesis
  proof (cases "i = j \<and> j < max_tasks \<and> tasks s ! j \<noteq> None")
    case True
    then show ?thesis using assms Kill killed by (auto simp: kill_task_def)
  next
    case False
    then show ?thesis
      using assms Kill by (intro same) (cases "i = j"; auto simp: kill_task_def split: option.splits)
  qed
next
  case (Spawn name)
  show ?thesis
  proof (cases "position slot_free (tasks s)")
    case None
    then show ?thesis using same Spawn by (simp add: spawn_task_def)
  next
    case (Some i)
    then show ?thesis
      using same spawned [OF Spawn] Spawn assms position_Some [OF Some]
      by (cases "i = j") (auto simp: spawn_task_def)
  qed
qed

lemma apply_ops_occupied:
  "j < length (tasks s) \<Longrightarrow> tasks s ! j \<noteq> None \<Longrightarrow> tasks (fold apply_op ops s) ! j \<noteq> None"
proof (induction ops arbitrary: s)
  case (Cons op ops)
  have "tasks (apply_op op s) ! j \<noteq> None"
    using Cons.prems by (cases rule: apply_op_slot [where op = op and s = s and j = j]) auto
  with Cons show ?case by simp
qed simp

lemma apply_ops_ready:
  "j < length (tasks s) \<Longrightarrow> is_ready s j \<Longrightarrow> Kill j \<notin> set ops
     \<Longrightarrow> tasks (fold apply_op ops s) ! j = tasks s ! j"
proof (induction ops arbitrary: s)
  case (Cons op ops)
  have "tasks (apply_op op s) ! j = tasks s ! j"
    using Cons.prems
    by (cases rule: apply_op_slot [where op = op and s = s and j = j])
       (auto simp: is_ready_slot slot_free_def)
  with Cons show ?case by (simp add: is_ready_def)
qed simp

subsection \<open>One round\<close>

text \<open>The two critical sections of a round never meet an empty slot: with room in the run
  counter, a round always completes, and its effect is this.\<close>

definition runs_below :: "scheduler \<Rightarrow> nat \<Rightarrow> bool" where
  "runs_below s n = (\<forall>t. Some t \<in> set (tasks s) \<longrightarrow> unat (t_runs t) + n < usize_bound)"

lemma runs_below_slot:
  "runs_below s n \<longleftrightarrow> (\<forall>j<length (tasks s). \<forall>t. tasks s ! j = Some t \<longrightarrow> unat (t_runs t) + n < usize_bound)"
  by (auto simp: runs_below_def in_set_conv_nth)

lemma runs_below_mono: "runs_below s n \<Longrightarrow> m \<le> n \<Longrightarrow> runs_below s m"
  by (fastforce simp: runs_below_def)

lemma runs_below_update:
  "runs_below s n \<Longrightarrow> unat (t_runs t) + n < usize_bound \<Longrightarrow> runs_below (s\<lparr>tasks := (tasks s)[i := Some t]\<rparr>) n"
  by (auto simp: runs_below_def dest!: set_update_subset_insert [THEN subsetD])

lemma runs_below_op: "runs_below s n \<Longrightarrow> n < usize_bound \<Longrightarrow> runs_below (apply_op op s) n"
  unfolding runs_below_slot
proof (intro allI impI)
  fix j t
  assume a: "\<forall>j<length (tasks s). \<forall>t. tasks s ! j = Some t \<longrightarrow> unat (t_runs t) + n < usize_bound"
    and n: "n < usize_bound" and j: "j < length (tasks (apply_op op s))"
    and t: "tasks (apply_op op s) ! j = Some t"
  from j have j': "j < length (tasks s)" by simp
  show "unat (t_runs t) + n < usize_bound"
    using j' a n t by (cases rule: apply_op_slot [where op = op, OF j']) (auto simp: new_task_def)
qed

lemma runs_below_ops: "runs_below s n \<Longrightarrow> n < usize_bound \<Longrightarrow> runs_below (fold apply_op ops s) n"
  by (induction ops arbitrary: s) (auto intro: runs_below_op)

text \<open>A logger that may still run: the only task that can end a round without yielding.\<close>

definition logger_live :: "task option \<Rightarrow> bool" where
  "logger_live slot = (\<exists>t. slot = Some t \<and> t_func t = Logger_Task \<and> t_state t \<noteq> Finished)"

definition live_loggers :: "scheduler \<Rightarrow> nat set" where
  "live_loggers s = {j. j < length (tasks s) \<and> logger_live (tasks s ! j)}"

lemma finite_live_loggers [simp]: "finite (live_loggers s)"
  by (simp add: live_loggers_def)

lemma apply_ops_logger:
  "j < length (tasks s) \<Longrightarrow> tasks (fold apply_op ops s) ! j = Some t \<Longrightarrow> t_func t = Logger_Task
     \<Longrightarrow> \<exists>t'. tasks s ! j = Some t' \<and> t_func t' = Logger_Task \<and> (t_state t \<noteq> Finished \<longrightarrow> t = t')"
proof (induction ops arbitrary: s)
  case (Cons op ops)
  have j: "j < length (tasks (apply_op op s))" using Cons.prems by simp
  from Cons.IH [OF j] Cons.prems obtain t' where
    t': "tasks (apply_op op s) ! j = Some t'" "t_func t' = Logger_Task" "t_state t \<noteq> Finished \<longrightarrow> t = t'"
    by auto
  show ?case
    using t' by (cases rule: apply_op_slot [where op = op, OF Cons.prems(1)]) (auto simp: new_task_def)
qed auto

lemma run_task_yields:
  "yielded (run_task f ctx) \<or> (f = Logger_Task \<and> finished (run_task f ctx))"
  by (cases f) (auto simp: idle_task_def worker_task_def logger_task_def yield_now_def finish_def)

lemma run_task_finished:
  "\<not> finished ctx \<Longrightarrow> finished (run_task f ctx) \<Longrightarrow> f = Logger_Task"
  by (cases f) (auto simp: idle_task_def worker_task_def logger_task_def yield_now_def finish_def)

text \<open>Distance from the current position to a slot, going round.\<close>

definition dist :: "scheduler \<Rightarrow> nat \<Rightarrow> nat" where
  "dist s i = (i + max_tasks - current s) mod max_tasks"

lemma dist_lt [simp]: "dist s i < max_tasks"
  by (simp add: dist_def)

lemma dist_eqI:
  "current s < max_tasks \<Longrightarrow> (current s + k) mod max_tasks = i \<Longrightarrow> k < max_tasks \<Longrightarrow> dist s i = k"
proof -
  assume c: "current s < max_tasks" and i: "(current s + k) mod max_tasks = i" and k: "k < max_tasks"
  show ?thesis
  proof (cases "current s + k < max_tasks")
    case True
    with i k show ?thesis by (auto simp: dist_def)
  next
    case False
    then have "i = current s + k - max_tasks"
      using i c k by (metis add_less_mono le_add_diff_inverse2 linorder_not_less mod_add_self2
          mod_less mult_2 nat_add_left_cancel_less add.commute less_diff_conv2)
    with False k show ?thesis by (simp add: dist_def)
  qed
qed

lemma dist_mod: "i < max_tasks \<Longrightarrow> current s < max_tasks \<Longrightarrow> (current s + dist s i) mod max_tasks = i"
  by (metis slot_offset dist_eqI)

lemma usize_bound_gt: "1 < usize_bound"
  by (simp add: usize_bound_def)

text \<open>The shape of a round: slot \<open>idx\<close> is marked running, the shell may work on the table,
  and the slot is settled by what its task left in the context.\<close>

definition fresh_context :: "nat \<Rightarrow> u64 \<Rightarrow> task_context" where
  "fresh_context idx tick = \<lparr>task_id = idx, ctx_tick = tick, yielded = False, finished = False\<rparr>"

definition mark_running :: "nat \<Rightarrow> task \<Rightarrow> scheduler \<Rightarrow> scheduler" where
  "mark_running idx t s =
     s\<lparr>tasks := (tasks s)[idx := Some (t\<lparr>t_state := Running, t_runs := t_runs t + 1\<rparr>)]\<rparr>"

definition settle :: "nat \<Rightarrow> task \<Rightarrow> task_context \<Rightarrow> scheduler \<Rightarrow> scheduler" where
  "settle idx t ctx s =
     s\<lparr>tasks := (tasks s)[idx := Some (t\<lparr>t_state := (if finished ctx then Finished else Ready)\<rparr>)],
       current := (if yielded ctx then (idx + 1) mod max_tasks else idx)\<rparr>"

lemma run_round_shape:
  assumes wf: "sched_wf s" and runs: "runs_below s (Suc n)" and i: "i < max_tasks" "is_ready s i"
  obtains idx t t2 s2 where
    "next_runnable_from s (current s) = Some idx" "tasks s ! idx = Some t" "t_state t = Ready"
    "s2 = fold apply_op ops (mark_running idx t s)" "tasks s2 ! idx = Some t2" "runs_below s2 n"
    "run_round tick ops s = Inr (Some idx, settle idx t2 (run_task (t_func t) (fresh_context idx tick)) s2)"
proof -
  have "next_runnable_from s (current s) \<noteq> None"
    using i next_runnable_None_iff by blast
  then obtain idx where idx: "next_runnable_from s (current s) = Some idx" by auto
  obtain t where t: "tasks s ! idx = Some t" "t_state t = Ready"
    using next_runnable_ready [OF idx] is_ready_slot by blast
  have il: "idx < length (tasks s)"
    using wf next_runnable_bound [OF idx] by (simp add: sched_wf_def)
  have b: "unat (t_runs t) + Suc n < usize_bound"
    using runs t il by (auto simp: runs_below_slot)
  let ?s1 = "mark_running idx t s"
  have prep: "prepare_next s tick = Inr (Some (idx, t_func t, fresh_context idx tick), ?s1)"
    using b unfolding fresh_context_def mark_running_def
    by (intro prepare_next_ok idx t) (simp add: usize_bound_def)
  have "unat (t_runs t + 1) = unat (t_runs t) + 1"
    using b by (subst unat_add_lem [THEN iffD1]) (simp_all add: usize_bound_def)
  then have "runs_below ?s1 n"
    using b runs unfolding mark_running_def
    by (intro runs_below_update) (auto elim: runs_below_mono)
  then have r2: "runs_below (fold apply_op ops ?s1) n"
    using b by (intro runs_below_ops) linarith+
  have "tasks (fold apply_op ops ?s1) ! idx \<noteq> None"
    using il by (intro apply_ops_occupied) (simp_all add: mark_running_def)
  then obtain t2 where "tasks (fold apply_op ops ?s1) ! idx = Some t2" by blast
  then show ?thesis
    using that [OF idx t refl _ r2, of t2]
    by (simp add: run_round_def prep finish_task_def settle_def)
qed

text \<open>A round makes no logger, and one that ends without yielding uses one up.\<close>

lemma round_loggers:
  assumes len: "length (tasks s) = max_tasks" and il: "idx < max_tasks"
    and t: "tasks s ! idx = Some t" "t_state t = Ready"
    and t2: "tasks (fold apply_op ops (mark_running idx t s)) ! idx = Some t2"
  shows "live_loggers (settle idx t2 ctx (fold apply_op ops (mark_running idx t s))) \<subseteq> live_loggers s"
    (is "live_loggers ?s3 \<subseteq> _")
proof
  let ?s1 = "mark_running idx t s"
  fix j assume "j \<in> live_loggers ?s3"
  then have j: "j < max_tasks" and "logger_live (tasks ?s3 ! j)"
    using len by (simp_all add: live_loggers_def settle_def mark_running_def)
  then obtain u where u: "tasks ?s3 ! j = Some u" "t_func u = Logger_Task" "t_state u \<noteq> Finished"
    by (auto simp: logger_live_def)
  have j1: "j < length (tasks ?s1)" using j len by (simp add: mark_running_def)
  obtain v where v: "tasks (fold apply_op ops ?s1) ! j = Some v" "t_func v = Logger_Task"
      "j \<noteq> idx \<longrightarrow> v = u"
    using u t2 il len by (cases "j = idx") (auto simp: settle_def mark_running_def)
  from apply_ops_logger [OF j1 v(1,2)] obtain w where
    "tasks ?s1 ! j = Some w" "t_func w = Logger_Task" "t_state v \<noteq> Finished \<longrightarrow> v = w"
    by blast
  then show "j \<in> live_loggers s"
    using v(3) u t j len by (cases "j = idx") (auto simp: mark_running_def live_loggers_def logger_live_def)
qed

text \<open>How far the position moves: past \<open>idx\<close>, at offset \<open>k\<close>, if the task yielded, else to it.\<close>

lemma settle_dist:
  assumes "(current s + k) mod max_tasks = idx" "k < dist s i" "i < max_tasks" "current s < max_tasks"
  shows "dist (settle idx t ctx s') i = (if yielded ctx then dist s i - Suc k else dist s i - k)"
proof -
  let ?d = "dist s i" and ?s3 = "settle idx t ctx s'"
  have d: "(current s + ?d) mod max_tasks = i" using assms by (simp add: dist_mod)
  have dl: "?d - m < max_tasks" for m by (rule less_imp_diff_less) simp
  show ?thesis
  proof (cases "yielded ctx")
    case True
    have "((idx + 1) mod max_tasks + (?d - Suc k)) mod max_tasks = (current s + k + 1 + (?d - Suc k)) mod max_tasks"
      using assms(1) by (metis mod_add_left_eq)
    also have "current s + k + 1 + (?d - Suc k) = current s + ?d" using assms(2) by simp
    finally show ?thesis
      using True d dl by (simp, intro dist_eqI) (simp_all add: settle_def)
  next
    case False
    have "(idx + (?d - k)) mod max_tasks = (current s + k + (?d - k)) mod max_tasks"
      using assms(1) by (metis mod_add_left_eq)
    also have "current s + k + (?d - k) = current s + ?d" using assms(2) by simp
    finally show ?thesis
      using False d dl assms(1) by (simp, intro dist_eqI) (auto simp: settle_def)
  qed
qed

text \<open>Settling another slot than \<open>i\<close> brings the position nearer to \<open>i\<close>, or uses up a logger.\<close>

lemma settle_progress:
  assumes wf: "sched_wf s" and i: "i < max_tasks" "is_ready s i"
    and idx: "next_runnable_from s (current s) = Some idx" "idx \<noteq> i"
    and t: "tasks s ! idx = Some t" "t_state t = Ready"
    and s2: "s2 = fold apply_op ops (mark_running idx t s)" and t2: "tasks s2 ! idx = Some t2"
    and s3: "s3 = settle idx t2 ctx s2" and ctx: "ctx = run_task (t_func t) c"
  shows "dist s3 i + card (live_loggers s3) < dist s i + card (live_loggers s)"
proof -
  have len: "length (tasks s) = max_tasks" "current s < max_tasks"
    using wf by (simp_all add: sched_wf_def)
  have len2: "length (tasks s2) = max_tasks" using s2 len by (simp add: mark_running_def)
  have il: "idx < max_tasks" by (rule next_runnable_bound [OF idx(1)])
  obtain k where k: "k < max_tasks" "idx = (current s + k) mod max_tasks"
      "\<forall>j<k. \<not> is_ready s ((current s + j) mod max_tasks)"
    using idx(1) by (auto elim: next_runnable_SomeD)
  have kd: "k < dist s i"
    using k dist_mod [OF i(1) len(2)] i(2) idx(2) by (metis linorder_neqE_nat)
  note moved = settle_dist [OF k(2) [symmetric] kd i(1) len(2), of t2 ctx s2, folded s3]
  note sub = round_loggers [OF len(1) il t t2 [unfolded s2], of ctx, folded s2 s3]
  show ?thesis
  proof (cases "yielded ctx")
    case True
    with moved kd card_mono [OF _ sub] show ?thesis by simp
  next
    case False
    then have lg: "t_func t = Logger_Task" "finished ctx" using run_task_yields ctx by blast+
    have "idx \<in> live_loggers s" using lg t il len by (simp add: live_loggers_def logger_live_def)
    moreover have "idx \<notin> live_loggers s3"
      using lg il len2 by (simp add: live_loggers_def logger_live_def settle_def s3)
    ultimately have "card (live_loggers s3) < card (live_loggers s)"
      using sub by (intro psubset_card_mono) auto
    with False moved show ?thesis by simp
  qed
qed

lemma run_round_progress:
  assumes wf: "sched_wf s" and runs: "runs_below s (Suc n)" and i: "i < max_tasks" "is_ready s i"
    and keep: "Kill i \<notin> set ops"
  obtains idx s' where "run_round tick ops s = Inr (Some idx, s')" "sched_wf s'" "runs_below s' n"
    "idx = i \<or> (is_ready s' i \<and>
       dist s' i + card (live_loggers s') < dist s i + card (live_loggers s))"
proof -
  obtain idx t t2 s2 where idx: "next_runnable_from s (current s) = Some idx"
    and t: "tasks s ! idx = Some t" "t_state t = Ready"
    and s2: "s2 = fold apply_op ops (mark_running idx t s)"
    and t2: "tasks s2 ! idx = Some t2" and r2: "runs_below s2 n"
    and eq: "run_round tick ops s = Inr (Some idx, settle idx t2 (run_task (t_func t) (fresh_context idx tick)) s2)"
    by (rule run_round_shape [OF wf runs i])
  let ?ctx = "run_task (t_func t) (fresh_context idx tick)"
  let ?s3 = "settle idx t2 ?ctx s2"
  have len: "length (tasks s) = max_tasks" using wf by (simp add: sched_wf_def)
  have len2: "length (tasks s2) = max_tasks" using s2 len by (simp add: mark_running_def)
  have il: "idx < max_tasks" by (rule next_runnable_bound [OF idx])
  have wf3: "sched_wf ?s3" using len2 il by (simp add: sched_wf_def settle_def)
  have "unat (t_runs t2) + n < usize_bound" using r2 t2 il len2 by (auto simp: runs_below_slot)
  then have r3: "runs_below ?s3 n"
    using runs_below_update [OF r2, of "t2\<lparr>t_state := if finished ?ctx then Finished else Ready\<rparr>" idx]
    by (simp add: runs_below_def settle_def)
  have "is_ready ?s3 i" if ne: "idx \<noteq> i"
  proof -
    have "tasks s2 ! i = tasks s ! i"
      using ne i len keep unfolding s2
      by (subst apply_ops_ready) (simp_all add: is_ready_def mark_running_def)
    then show ?thesis using ne i by (simp add: is_ready_def settle_def)
  qed
  then show ?thesis
    using that [OF eq wf3 r3] settle_progress [OF wf i idx _ t s2 t2 refl refl] by blast
qed

text \<open>Iterated: a ready task runs before the measure is used up.\<close>

lemma run_rounds_reaches:
  assumes "sched_wf s" "i < max_tasks" "is_ready s i"
    and "runs_below s (length rounds)" "\<forall>(tick, ops)\<in>set rounds. Kill i \<notin> set ops"
    and "dist s i + card (live_loggers s) < length rounds"
  shows "\<exists>m who s'. m < length rounds \<and> run_rounds (take (Suc m) rounds) s = Inr (who, s')
           \<and> who ! m = Some i \<and> length who = Suc m"
  using assms
proof (induction rounds arbitrary: s)
  case Nil
  then show ?case by simp
next
  case (Cons r rounds)
  obtain tick ops where r: "r = (tick, ops)" by fastforce
  have runs: "runs_below s (Suc (length rounds))" and keep: "Kill i \<notin> set ops"
    using Cons.prems(4,5) by (simp_all add: r)
  from run_round_progress [OF Cons.prems(1) runs Cons.prems(2,3) keep] obtain idx s' where
    step: "run_round tick ops s = Inr (Some idx, s')" and wf': "sched_wf s'"
    and runs': "runs_below s' (length rounds)"
    and prog: "idx = i \<or> (is_ready s' i \<and>
       dist s' i + card (live_loggers s') < dist s i + card (live_loggers s))"
    by blast
  show ?case
  proof (cases "idx = i")
    case True
    with step r show ?thesis by (intro exI [of _ 0]) auto
  next
    case False
    with prog Cons.prems(6) have "is_ready s' i" "dist s' i + card (live_loggers s') < length rounds"
      by auto
    with Cons.IH [OF wf' Cons.prems(2) _ runs'] Cons.prems(5) obtain m who s'' where
      "m < length rounds" "run_rounds (take (Suc m) rounds) s' = Inr (who, s'')"
      "who ! m = Some i" "length who = Suc m"
      by auto
    with step r show ?thesis by (intro exI [of _ "Suc m"]) auto
  qed
qed

subsection \<open>The scheduler as a transition system\<close>

text \<open>
  The state between the two critical sections matters too: the timer interrupt fires at any
  time, and the running shell works on the table. \<open>on_cpu\<close> is the task between
  \<^verbatim>\<open>prepare_next\<close> and \<^verbatim>\<open>finish_task\<close>.
\<close>

record sched_sys =
  sched :: scheduler
  ticks :: u64
  on_cpu :: "(nat \<times> task_fn \<times> task_context) option"

inductive sched_step :: "sched_sys \<Rightarrow> sched_sys \<Rightarrow> bool" where
  timer: "sched_step y (y\<lparr>ticks := on_timer_tick (ticks y)\<rparr>)"
| dispatch: "on_cpu y = None \<Longrightarrow> prepare_next (sched y) (ticks y) = Inr (prepared, s') \<Longrightarrow>
     sched_step y (y\<lparr>sched := s', on_cpu := prepared\<rparr>)"
| shell_op: "on_cpu y = Some (idx, Shell_Task, ctx) \<Longrightarrow>
     sched_step y (y\<lparr>sched := apply_op op (sched y)\<rparr>)"
| complete: "on_cpu y = Some (idx, func, ctx) \<Longrightarrow>
     finish_task (sched y) idx (run_task func ctx) = Inr s' \<Longrightarrow>
     sched_step y (y\<lparr>sched := s', on_cpu := None\<rparr>)"

inductive_cases sched_stepE: "sched_step y y'"

definition sched_boot :: "sched_sys \<Rightarrow> bool" where
  "sched_boot y = (init_scheduler = Inr (sched y) \<and> on_cpu y = None)"

definition slot_running :: "scheduler \<Rightarrow> nat \<Rightarrow> bool" where
  "slot_running s j = (map_option t_state (tasks s ! j) = Some Running)"

text \<open>Only the task on the CPU is marked running, and its slot is occupied.\<close>

definition sched_sys_inv :: "sched_sys \<Rightarrow> bool" where
  "sched_sys_inv y \<longleftrightarrow>
     sched_wf (sched y)
     \<and> (\<forall>j<max_tasks. slot_running (sched y) j \<longrightarrow> (\<exists>func ctx. on_cpu y = Some (j, func, ctx)))
     \<and> (\<forall>idx func ctx. on_cpu y = Some (idx, func, ctx) \<longrightarrow>
          idx < max_tasks \<and> tasks (sched y) ! idx \<noteq> None \<and> task_id ctx = idx)"

lemma slot_running_iff: "slot_running s j \<longleftrightarrow> (\<exists>t. tasks s ! j = Some t \<and> t_state t = Running)"
  by (auto simp: slot_running_def)

text \<open>The table that \<^verbatim>\<open>init\<close> leaves.\<close>

definition booted_scheduler :: scheduler where
  "booted_scheduler = \<lparr>tasks = [Some (new_task ''idle'' Idle_Task),
     Some (new_task ''worker-a'' Worker_Task), Some (new_task ''worker-b'' Logger_Task),
     Some (new_task ''shell'' Shell_Task), None, None, None, None], current = 0\<rparr>"

lemma init_scheduler_eq: "init_scheduler = Inr booted_scheduler"
  by (simp add: init_scheduler_def booted_scheduler_def add_task_def new_scheduler_def max_tasks_def
      numeral_eq_Suc bind_res_def)

lemma booted_wf: "sched_wf booted_scheduler"
  by (simp add: sched_wf_def booted_scheduler_def max_tasks_def)

lemma sched_boot_inv: "sched_boot y \<Longrightarrow> sched_sys_inv y"
proof -
  assume "sched_boot y"
  then have y: "sched y = booted_scheduler" "on_cpu y = None"
    by (simp_all add: sched_boot_def init_scheduler_eq)
  have "list_all (\<lambda>slot. map_option t_state slot \<noteq> Some Running) (tasks booted_scheduler)"
    by (simp add: booted_scheduler_def new_task_def)
  then have "\<not> slot_running booted_scheduler j" if "j < max_tasks" for j
    using that booted_wf by (simp add: list_all_length sched_wf_def slot_running_def)
  with y booted_wf show ?thesis by (simp add: sched_sys_inv_def)
qed

lemma apply_op_running:
  "j < length (tasks s) \<Longrightarrow> slot_running (apply_op op s) j \<Longrightarrow> slot_running s j"
proof -
  assume j: "j < length (tasks s)" and r: "slot_running (apply_op op s) j"
  from r show ?thesis
    by (cases rule: apply_op_slot [OF j, where op = op]) (auto simp: slot_running_def new_task_def)
qed

lemma apply_op_inv: "sched_sys_inv y \<Longrightarrow> sched_sys_inv (y\<lparr>sched := apply_op op (sched y)\<rparr>)"
proof -
  assume inv: "sched_sys_inv y"
  then have len: "length (tasks (sched y)) = max_tasks"
    by (simp add: sched_sys_inv_def sched_wf_def)
  have occ: "tasks (apply_op op (sched y)) ! j \<noteq> None"
    if "j < max_tasks" "tasks (sched y) ! j \<noteq> None" for j
    using that len apply_ops_occupied [of j "sched y" "[op]"] by simp
  show ?thesis
    using inv occ len apply_op_running [of _ "sched y" op] by (auto simp: sched_sys_inv_def sched_wf_def)
qed

lemma dispatch_inv:
  assumes inv: "sched_sys_inv y" and cpu: "on_cpu y = None"
    and p: "prepare_next (sched y) (ticks y) = Inr (prepared, s')"
  shows "sched_sys_inv (y\<lparr>sched := s', on_cpu := prepared\<rparr>)"
  using p
proof (cases rule: prepare_next_cases)
  case idle
  with inv cpu show ?thesis by (simp add: sched_sys_inv_def)
next
  case (run idx t)
  note il = next_runnable_bound [OF run(1)]
  have wf: "sched_wf (sched y)" using inv by (simp add: sched_sys_inv_def)
  have "\<not> slot_running (sched y) j" if "j < max_tasks" for j
    using that inv cpu by (auto simp: sched_sys_inv_def)
  moreover have "slot_running s' j = slot_running (sched y) j" if "j \<noteq> idx" for j
    using that by (simp add: run(6) slot_running_def)
  ultimately have "j = idx" if "j < max_tasks" "slot_running s' j" for j
    using that by blast
  moreover have "sched_wf s'" "tasks s' ! idx \<noteq> None"
    using wf il by (simp_all add: run(6) sched_wf_def)
  ultimately show ?thesis
    using il run(5) by (simp add: sched_sys_inv_def)
qed

lemma complete_inv:
  assumes inv: "sched_sys_inv y" and cpu: "on_cpu y = Some (idx, func, ctx)"
    and f: "finish_task (sched y) idx (run_task func ctx) = Inr s'"
  shows "sched_sys_inv (y\<lparr>sched := s', on_cpu := None\<rparr>)"
proof -
  have wf: "sched_wf (sched y)" and il: "idx < max_tasks"
    using inv cpu by (simp_all add: sched_sys_inv_def)
  from f obtain t where t: "tasks (sched y) ! idx = Some t"
    and s': "s' = settle idx t (run_task func ctx) (sched y)"
    by (auto simp: finish_task_def settle_def split: option.splits)
  have "\<not> slot_running s' j" if "j < max_tasks" for j
    using that inv cpu wf by (cases "j = idx")
      (auto simp: s' settle_def slot_running_def sched_sys_inv_def sched_wf_def)
  moreover have "sched_wf s'" using wf il by (simp add: s' settle_def sched_wf_def)
  ultimately show ?thesis by (simp add: sched_sys_inv_def)
qed

lemma sched_step_inv: "sched_sys_inv y \<Longrightarrow> sched_step y y' \<Longrightarrow> sched_sys_inv y'"
  by (elim sched_stepE)
     (auto intro: dispatch_inv complete_inv apply_op_inv, simp add: sched_sys_inv_def)

interpretation sched_sys: safety sched_boot sched_step sched_sys_inv
  by unfold_locales (auto intro: sched_boot_inv sched_step_inv)

subsection \<open>A finished task stays finished\<close>

lemma ops_keep_finished:
  assumes "\<forall>op\<in>set ops. \<exists>k. op = Kill k" "j < length (tasks s)" "tasks s ! j = Some t" "t_state t = Finished"
  shows "tasks (fold apply_op ops s) ! j = Some t"
  using assms
proof (induction ops arbitrary: s)
  case (Cons op ops)
  have "tasks (apply_op op s) ! j = Some t"
    using Cons.prems by (cases rule: apply_op_slot [OF Cons.prems(2), where op = op]) auto
  with Cons show ?case by simp
qed simp

lemma round_keeps_finished:
  assumes wf: "sched_wf s" and j: "j < max_tasks" "tasks s ! j = Some t" "t_state t = Finished"
    and ops: "\<forall>op\<in>set ops. \<exists>k. op = Kill k"
    and r: "run_round tick ops s = Inr (who, s')"
  shows "who \<noteq> Some j" "tasks s' ! j = Some t" "sched_wf s'"
proof -
  have len: "length (tasks s) = max_tasks" using wf by (simp add: sched_wf_def)
  from r obtain p s1 where p: "prepare_next s tick = Inr (p, s1)"
    and rest: "(case p of None \<Rightarrow> Inr (None, s1)
       | Some (idx, func, ctx) \<Rightarrow> bind_res (finish_task (fold apply_op ops s1) idx (run_task func ctx))
           (\<lambda>s. Inr (Some idx, s))) = Inr (who, s')"
    by (auto simp: run_round_def bind_res_eq_Inr)
  have "who \<noteq> Some j \<and> tasks s' ! j = Some t \<and> sched_wf s'"
    using p
  proof (cases rule: prepare_next_cases)
    case idle
    with rest j wf show ?thesis by simp
  next
    case (run idx u)
    have ne: "idx \<noteq> j" using run(2,3) j by auto
    have il: "idx < max_tasks" by (rule next_runnable_bound [OF run(1)])
    have "tasks (fold apply_op ops s1) ! j = Some t"
      using ne j len by (intro ops_keep_finished [OF ops]) (simp_all add: run(6))
    moreover have "length (tasks (fold apply_op ops s1)) = max_tasks" by (simp add: run(6) len)
    ultimately show ?thesis
      using rest ne il by (auto simp: run(5) bind_res_eq_Inr finish_task_def sched_wf_def split: option.splits)
  qed
  then show "who \<noteq> Some j" "tasks s' ! j = Some t" "sched_wf s'" by simp_all
qed

subsection \<open>Properties\<close>

text \<open>In every state the kernel can reach, with timer ticks, dispatches, the shell's kills
  and spawns and task completions in any order: the table has eight slots and a current
  position inside it, a slot is marked running only while its task is on the CPU (so at
  most one is), and the slot of the task on the CPU is occupied.\<close>

theorem scheduler_invariant:
  assumes "sched_boot y0" "sched_step\<^sup>*\<^sup>* y0 y"
  shows "sched_sys_inv y"
  using assms by (rule sched_sys.reachable_inv)

theorem scheduler_invariant_witness:
  "sched_sys_inv \<lparr>sched = booted_scheduler, ticks = 1, on_cpu = None\<rparr>"
proof (rule scheduler_invariant)
  let ?y = "\<lparr>sched = booted_scheduler, ticks = 0, on_cpu = None\<rparr>"
  show "sched_boot ?y" by (simp add: sched_boot_def init_scheduler_eq)
  show "sched_step\<^sup>*\<^sup>* ?y \<lparr>sched = booted_scheduler, ticks = 1, on_cpu = None\<rparr>"
    using sched_step.timer [of ?y] by (simp add: on_timer_tick_def r_into_rtranclp)
qed

text \<open>The \<^verbatim>\<open>expect("task missing")\<close> of the two critical sections never fires: completing the
  task on the CPU always succeeds, and dispatching can only fail by the overflow of a run
  counter.\<close>

theorem no_task_missing:
  assumes "sched_boot y0" "sched_step\<^sup>*\<^sup>* y0 y"
  shows "(\<forall>idx func ctx. on_cpu y = Some (idx, func, ctx) \<longrightarrow>
            is_ok (finish_task (sched y) idx (run_task func ctx)))
       \<and> (\<forall>e. prepare_next (sched y) (ticks y) = Inl e \<longrightarrow> e = Panic ''attempt to add with overflow'')"
proof (intro conjI allI impI)
  note inv = sched_sys.reachable_inv [OF assms]
  fix idx func ctx
  assume "on_cpu y = Some (idx, func, ctx)"
  then show "is_ok (finish_task (sched y) idx (run_task func ctx))"
    using inv by (auto simp: sched_sys_inv_def finish_task_def)
next
  fix e
  assume "prepare_next (sched y) (ticks y) = Inl e"
  then show "e = Panic ''attempt to add with overflow''"
    by (rule prepare_next_panic)
qed

theorem no_task_missing_witness:
  "is_ok (finish_task (mark_running 0 (new_task ''idle'' Idle_Task) booted_scheduler) 0
     (run_task Idle_Task (fresh_context 0 5)))"
proof -
  let ?y = "\<lparr>sched = booted_scheduler, ticks = 5, on_cpu = None\<rparr>"
  let ?s' = "mark_running 0 (new_task ''idle'' Idle_Task) booted_scheduler"
  have boot: "sched_boot ?y" by (simp add: sched_boot_def init_scheduler_eq)
  have "prepare_next booted_scheduler 5 = Inr (Some (0, Idle_Task, fresh_context 0 5), ?s')"
    by code_simp
  then have "sched_step ?y \<lparr>sched = ?s', ticks = 5, on_cpu = Some (0, Idle_Task, fresh_context 0 5)\<rparr>"
    using sched_step.dispatch [of ?y] by simp
  from no_task_missing [OF boot r_into_rtranclp [of sched_step, OF this]]
  show ?thesis by simp
qed

text \<open>C13. Round-robin is fair: a task that is ready, and that the shell does not kill, runs within
  as many rounds as the table has slots, plus one for each logger that may still end without
  yielding; whatever the shell spawns or kills besides.\<close>

theorem round_robin_fair:
  assumes "sched_wf s" "i < max_tasks" "is_ready s i"
    and "length rounds = max_tasks + card (live_loggers s)" "runs_below s (length rounds)"
    and "\<forall>(tick, ops)\<in>set rounds. Kill i \<notin> set ops"
  shows "\<exists>m<length rounds. \<exists>who s'.
           run_rounds (take (Suc m) rounds) s = Inr (who, s') \<and> who ! m = Some i"
  using run_rounds_reaches [OF assms(1-3,5,6)] assms(4) dist_lt [of s i] by auto

theorem round_robin_fair_witness:
  "\<exists>m<9. \<exists>who s'. run_rounds (take (Suc m) (replicate 9 (0, [Spawn ''w'', Kill 1]))) booted_scheduler
      = Inr (who, s') \<and> who ! m = Some 3"
proof -
  have "live_loggers booted_scheduler = {2}"
    by (auto simp: live_loggers_def logger_live_def booted_scheduler_def new_task_def
        less_Suc_eq numeral_eq_Suc)
  moreover have "is_ready booted_scheduler 3" "runs_below booted_scheduler 9"
    by (auto simp: is_ready_def runs_below_def booted_scheduler_def new_task_def usize_bound_def)
  ultimately show ?thesis
    using round_robin_fair [OF booted_wf, of 3 "replicate 9 (0, [Spawn ''w'', Kill 1])"]
    by (simp add: max_tasks_def)
qed

text \<open>The next task is the first ready one from the current position on, going round the
  table; none is chosen exactly when no slot is ready.\<close>

theorem next_runnable_first:
  "(next_runnable_from s start = None \<longleftrightarrow> (\<forall>i<max_tasks. \<not> is_ready s i))
   \<and> (\<forall>idx. next_runnable_from s start = Some idx \<longrightarrow>
        (\<exists>k<max_tasks. idx = (start + k) mod max_tasks \<and> is_ready s idx
           \<and> (\<forall>j<k. \<not> is_ready s ((start + j) mod max_tasks))))"
  using next_runnable_None_iff by (auto elim!: next_runnable_SomeD)

theorem next_runnable_first_witness:
  "\<exists>k<max_tasks. 3 = (3 + k) mod max_tasks \<and> is_ready booted_scheduler 3
     \<and> (\<forall>j<k. \<not> is_ready booted_scheduler ((3 + j) mod max_tasks))"
proof -
  have "next_runnable_from booted_scheduler 3 = Some 3" by code_simp
  with next_runnable_first [of booted_scheduler 3] show ?thesis by blast
qed

text \<open>\<^verbatim>\<open>spawn_task\<close> puts a fresh ready worker into the first slot that is empty or finished and
  changes nothing else; it refuses exactly when all eight slots hold unfinished tasks.\<close>

theorem spawn_first_free:
  assumes "sched_wf s"
  shows "(fst (spawn_task s name) = None \<longleftrightarrow> (\<forall>j<max_tasks. \<not> slot_free (tasks s ! j)))
       \<and> (fst (spawn_task s name) = None \<longrightarrow> snd (spawn_task s name) = s)
       \<and> (\<forall>idx. fst (spawn_task s name) = Some idx \<longrightarrow>
            idx < max_tasks \<and> slot_free (tasks s ! idx) \<and> (\<forall>j<idx. \<not> slot_free (tasks s ! j))
            \<and> tasks (snd (spawn_task s name)) ! idx = Some (new_task name Worker_Task)
            \<and> (\<forall>j. j \<noteq> idx \<longrightarrow> tasks (snd (spawn_task s name)) ! j = tasks s ! j)
            \<and> current (snd (spawn_task s name)) = current s)"
proof (cases "position slot_free (tasks s)")
  case None
  then have "\<forall>j<max_tasks. \<not> slot_free (tasks s ! j)"
    using assms by (auto simp: position_None sched_wf_def)
  with None show ?thesis by (simp add: spawn_task_def)
next
  case (Some idx)
  from position_Some [OF Some] have "idx < max_tasks" "slot_free (tasks s ! idx)"
      "\<forall>j<idx. \<not> slot_free (tasks s ! j)"
    using assms by (auto simp: sched_wf_def)
  with Some assms show ?thesis by (auto simp: spawn_task_def sched_wf_def)
qed

theorem spawn_first_free_witness:
  "tasks (snd (spawn_task booted_scheduler ''user-worker'')) ! 4 = Some (new_task ''user-worker'' Worker_Task)"
proof -
  have "fst (spawn_task booted_scheduler ''user-worker'') = Some 4" by code_simp
  with spawn_first_free [OF booted_wf, of "''user-worker''"] show ?thesis by blast
qed

text \<open>A killed task never runs again until its slot is reused: over any rounds in which the
  shell only kills, a finished slot is never dispatched and keeps its task.\<close>

theorem killed_never_runs:
  assumes "sched_wf s" "j < max_tasks" "tasks s ! j = Some t" "t_state t = Finished"
    and "\<forall>(tick, ops)\<in>set rounds. \<forall>op\<in>set ops. \<exists>k. op = Kill k"
    and "run_rounds rounds s = Inr (who, s')"
  shows "Some j \<notin> set who \<and> tasks s' ! j = Some t"
  using assms
proof (induction rounds arbitrary: s who)
  case Nil
  then show ?case by simp
next
  case (Cons r rounds)
  obtain tick ops where r: "r = (tick, ops)" by fastforce
  from Cons.prems(6) r obtain x s1 rs where
    one: "run_round tick ops s = Inr (x, s1)" and rest: "run_rounds rounds s1 = Inr (rs, s')"
    and who: "who = x # rs"
    by (auto simp: bind_res_eq_Inr)
  have "\<forall>op\<in>set ops. \<exists>k. op = Kill k" using Cons.prems(5) r by auto
  note one' = round_keeps_finished [OF Cons.prems(1-4) this one]
  have "Some j \<notin> set rs \<and> tasks s' ! j = Some t"
    using Cons.prems(5) by (intro Cons.IH [OF one'(3) Cons.prems(2) one'(2) Cons.prems(4) _ rest]) auto
  with one'(1) who show ?case by simp
qed

theorem killed_never_runs_witness:
  "\<exists>who s'. run_rounds [(0, []), (1, [Kill 5]), (2, [])] (snd (kill_task booted_scheduler 1)) = Inr (who, s')
     \<and> Some 1 \<notin> set who"
proof -
  let ?s = "snd (kill_task booted_scheduler 1)"
  have wf: "sched_wf ?s" by (simp add: kill_task_def booted_scheduler_def sched_wf_def max_tasks_def)
  have slot: "tasks ?s ! 1 = Some ((new_task ''worker-a'' Worker_Task)\<lparr>t_state := Finished\<rparr>)"
    by (simp add: kill_task_def booted_scheduler_def max_tasks_def)
  have "is_ok (run_rounds [(0, []), (1, [Kill 5]), (2, [])] ?s)" by code_simp
  then obtain who s' where "run_rounds [(0, []), (1, [Kill 5]), (2, [])] ?s = Inr (who, s')"
    by (auto simp: is_ok_iff)
  with killed_never_runs [OF wf _ slot _ _ this] show ?thesis by (auto simp: max_tasks_def)
qed

text \<open>C32. \<^verbatim>\<open>kill\<close> does not stop the task that calls it: it reports success on the running shell's
  own slot, and completing the shell's round makes the slot ready again. It also reports
  success on a task that is already finished.\<close>

theorem kill_self_is_undone:
  assumes "sched_wf s" "idx < max_tasks" "tasks s ! idx = Some t"
  shows "fst (kill_task s idx)
       \<and> (\<exists>s'. finish_task (snd (kill_task s idx)) idx (run_task Shell_Task (fresh_context idx tick)) = Inr s'
            \<and> is_ready s' idx)"
proof -
  have len: "idx < length (tasks s)" using assms by (simp add: sched_wf_def)
  let ?t = "t\<lparr>t_state := Finished\<rparr>"
  have k: "kill_task s idx = (True, s\<lparr>tasks := (tasks s)[idx := Some ?t]\<rparr>)"
    using assms by (simp add: kill_task_def)
  have "finish_task (snd (kill_task s idx)) idx (run_task Shell_Task (fresh_context idx tick))
      = Inr (settle idx ?t (run_task Shell_Task (fresh_context idx tick)) (snd (kill_task s idx)))"
    using len by (simp add: k finish_task_def settle_def)
  moreover have "is_ready (settle idx ?t (run_task Shell_Task (fresh_context idx tick)) (snd (kill_task s idx))) idx"
    using len by (simp add: k settle_def is_ready_def yield_now_def fresh_context_def)
  ultimately show ?thesis using k by simp
qed

theorem kill_self_is_undone_witness:
  "fst (kill_task booted_scheduler 3)
   \<and> (\<exists>s'. finish_task (snd (kill_task booted_scheduler 3)) 3 (run_task Shell_Task (fresh_context 3 7)) = Inr s'
        \<and> is_ready s' 3)"
  by (rule kill_self_is_undone [OF booted_wf]) (simp_all add: booted_scheduler_def max_tasks_def)

end
