(* ===== verification/Interrupts.thy ===== *)
theory Interrupts
  imports Input Scheduler
begin

text \<open>
  The interrupt layer: the vectors and masks of \<^verbatim>\<open>src/src/pic.rs\<close>, the descriptor table
  and the handlers of \<^verbatim>\<open>src/src/interrupts.rs\<close>, and the serial input path of
  \<^verbatim>\<open>src/src/shell.rs\<close>, which repeats the decoder and the event handler of the interrupt
  path. A device is a parameter: a pair of port reads, each returning the byte and the
  device after the read; what the polling loops rely on is the locale \<open>byte_device\<close>.
\<close>

unbundle bit_operations_syntax

subsection \<open>Vectors, masks and the descriptor table\<close>

definition pic_1_offset :: u8 where "pic_1_offset = 32"
definition pic_2_offset :: u8 where "pic_2_offset = pic_1_offset + 8"

datatype interrupt_index = Timer | Keyboard | Serial1

fun as_u8 :: "interrupt_index \<Rightarrow> u8" where
  "as_u8 Timer = pic_1_offset"
| "as_u8 Keyboard = pic_1_offset + 1"
| "as_u8 Serial1 = pic_1_offset + 4"

text \<open>The two bytes \<^verbatim>\<open>pic::init\<close> writes to the mask registers, a set bit masks its line.\<close>

definition pic_masks :: "u8 \<times> u8" where
  "pic_masks = (NOT 0b00010011, - 1)"

datatype handler =
    Breakpoint_Handler | Double_Fault_Handler | General_Protection_Fault_Handler
  | Page_Fault_Handler | Irq_Handler interrupt_index

text \<open>The exception vectors are those of the architecture; the three interrupt vectors come
  from \<^verbatim>\<open>InterruptIndex\<close>.\<close>

definition idt :: "u8 \<Rightarrow> handler option" where
  "idt = [3 \<mapsto> Breakpoint_Handler, 13 \<mapsto> General_Protection_Fault_Handler, 14 \<mapsto> Page_Fault_Handler,
          8 \<mapsto> Double_Fault_Handler, as_u8 Timer \<mapsto> Irq_Handler Timer,
          as_u8 Keyboard \<mapsto> Irq_Handler Keyboard, as_u8 Serial1 \<mapsto> Irq_Handler Serial1]"

text \<open>What a request line does: whether the mask lets it through, and the vector the
  remapped controllers raise for it.\<close>

definition irq_unmasked :: "nat \<Rightarrow> bool" where
  "irq_unmasked n =
     (if n < 8 then \<not> bit (fst pic_masks) n else \<not> bit (snd pic_masks) (n - 8))"

definition irq_vector :: "nat \<Rightarrow> u8" where
  "irq_vector n =
     (if n < 8 then pic_1_offset + of_nat n else pic_2_offset + of_nat (n - 8))"

subsection \<open>CPU exceptions\<close>

text \<open>The \<^verbatim>\<open>Debug\<close> texts of the stack frame, the error code and CR2 come from the
  \<^verbatim>\<open>x86_64\<close> crate; they are parameters.\<close>

definition breakpoint_handler :: "string \<Rightarrow> out list" where
  "breakpoint_handler stack_frame =
     [Serial (''EXCEPTION: BREAKPOINT'' @ lf # stack_frame @ [lf]),
      Screen (''EXCEPTION: BREAKPOINT'' @ [lf])]"

definition double_fault_handler :: "string \<Rightarrow> unit res" where
  "double_fault_handler stack_frame = Inl (Panic (''EXCEPTION: DOUBLE FAULT'' @ lf # stack_frame))"

definition page_fault_handler :: "string \<Rightarrow> string \<Rightarrow> string \<Rightarrow> out list \<times> unit res" where
  "page_fault_handler cr2 error_code stack_frame =
     ([Serial (''EXCEPTION: PAGE FAULT'' @ [lf]),
       Serial (''  Accessed address : '' @ cr2 @ [lf]),
       Serial (''  Error code       : '' @ error_code @ [lf]),
       Serial (stack_frame @ [lf])],
      Inl (Panic ''unhandled page fault''))"

definition general_protection_fault_handler :: "u64 \<Rightarrow> string \<Rightarrow> unit res" where
  "general_protection_fault_handler error_code stack_frame =
     Inl (Panic (''EXCEPTION: GENERAL PROTECTION FAULT (error='' @ show_hex_alt (unat error_code)
       @ '')'' @ lf # stack_frame))"

subsection \<open>Decoding input\<close>

datatype key_event = Char char | Backspace | Enter

definition char_of_u8 :: "u8 \<Rightarrow> char" where
  "char_of_u8 b = char_of (unat b)"

definition serial_byte_to_event :: "u8 \<Rightarrow> key_event option" where
  "serial_byte_to_event byte =
     (if byte = 0x0D \<or> byte = 0x0A then Some Enter
      else if byte = 0x08 \<or> byte = 0x7F then Some Backspace
      else if 0x20 \<le> byte \<and> byte \<le> 0x7E then Some (Char (char_of_u8 byte))
      else None)"

definition scancode_to_event :: "u8 \<Rightarrow> key_event option" where
  "scancode_to_event scancode =
     (if scancode AND 0x80 \<noteq> 0 then None
      else if 0x02 \<le> scancode \<and> scancode \<le> 0x0A
        then Some (Char (char_of_u8 (0x31 + (scancode - 0x02))))
      else if scancode = 0x0B then Some (Char (CHR ''0''))
      else if scancode = 0x10 then Some (Char (CHR ''q''))
      else if scancode = 0x11 then Some (Char (CHR ''w''))
      else if scancode = 0x12 then Some (Char (CHR ''e''))
      else if scancode = 0x13 then Some (Char (CHR ''r''))
      else if scancode = 0x14 then Some (Char (CHR ''t''))
      else if scancode = 0x15 then Some (Char (CHR ''y''))
      else if scancode = 0x16 then Some (Char (CHR ''u''))
      else if scancode = 0x17 then Some (Char (CHR ''i''))
      else if scancode = 0x18 then Some (Char (CHR ''o''))
      else if scancode = 0x19 then Some (Char (CHR ''p''))
      else if scancode = 0x1E then Some (Char (CHR ''a''))
      else if scancode = 0x1F then Some (Char (CHR ''s''))
      else if scancode = 0x20 then Some (Char (CHR ''d''))
      else if scancode = 0x21 then Some (Char (CHR ''f''))
      else if scancode = 0x22 then Some (Char (CHR ''g''))
      else if scancode = 0x23 then Some (Char (CHR ''h''))
      else if scancode = 0x24 then Some (Char (CHR ''j''))
      else if scancode = 0x25 then Some (Char (CHR ''k''))
      else if scancode = 0x26 then Some (Char (CHR ''l''))
      else if scancode = 0x2C then Some (Char (CHR ''z''))
      else if scancode = 0x2D then Some (Char (CHR ''x''))
      else if scancode = 0x2E then Some (Char (CHR ''c''))
      else if scancode = 0x2F then Some (Char (CHR ''v''))
      else if scancode = 0x30 then Some (Char (CHR ''b''))
      else if scancode = 0x31 then Some (Char (CHR ''n''))
      else if scancode = 0x32 then Some (Char (CHR ''m''))
      else if scancode = 0x39 then Some (Char (CHR '' ''))
      else if scancode = 0x1C then Some Enter
      else if scancode = 0x0E then Some Backspace
      else None)"

subsection \<open>Handling one event\<close>

definition handle_key_event :: "key_event \<Rightarrow> input_buffer \<Rightarrow> out list \<times> input_buffer" where
  "handle_key_event event b =
     (case event of
        Char ch \<Rightarrow> (both [ch], push_char ch b)
      | Backspace \<Rightarrow>
          (let (ok, b) = backspace b
           in (if ok then [Serial [bs, CHR '' '', bs], Screen [bs]] else [], b))
      | Enter \<Rightarrow> (both_ln [], commit_line b))"

text \<open>The shell's own copies (\<^verbatim>\<open>shell.rs\<close>).\<close>

datatype input_event = Input_Char char | Input_Backspace | Input_Enter

definition handle_input_event :: "input_event \<Rightarrow> input_buffer \<Rightarrow> out list \<times> input_buffer" where
  "handle_input_event event b =
     (case event of
        Input_Char ch \<Rightarrow> (both [ch], push_char ch b)
      | Input_Backspace \<Rightarrow>
          (let (ok, b) = backspace b
           in (if ok then [Serial [bs, CHR '' '', bs], Screen [bs]] else [], b))
      | Input_Enter \<Rightarrow> (both_ln [], commit_line b))"

definition shell_serial_byte_to_event :: "u8 \<Rightarrow> input_event option" where
  "shell_serial_byte_to_event byte =
     (if byte = 0x0D \<or> byte = 0x0A then Some Input_Enter
      else if byte = 0x08 \<or> byte = 0x7F then Some Input_Backspace
      else if 0x20 \<le> byte \<and> byte \<le> 0x7E then Some (Input_Char (char_of_u8 byte))
      else None)"

text \<open>The bodies of the reading loops: decode a byte and handle the event, if it is one.\<close>

definition on_event :: "('b \<Rightarrow> 'e option) \<Rightarrow> ('e \<Rightarrow> 's \<Rightarrow> out list \<times> 's) \<Rightarrow> 'b \<Rightarrow> 's \<Rightarrow> out list \<times> 's" where
  "on_event decode handle byte s =
     (case decode byte of Some event \<Rightarrow> handle event s | None \<Rightarrow> ([], s))"

definition serial_byte :: "u8 \<Rightarrow> input_buffer \<Rightarrow> out list \<times> input_buffer" where
  "serial_byte = on_event serial_byte_to_event handle_key_event"

definition keyboard_byte :: "u8 \<Rightarrow> input_buffer \<Rightarrow> out list \<times> input_buffer" where
  "keyboard_byte = on_event scancode_to_event handle_key_event"

definition shell_serial_byte :: "u8 \<Rightarrow> input_buffer \<Rightarrow> out list \<times> input_buffer" where
  "shell_serial_byte = on_event shell_serial_byte_to_event handle_input_event"

subsection \<open>Reading loops and handlers\<close>

type_synonym 'd port_read = "'d \<Rightarrow> u8 \<times> 'd"

text \<open>Whether a byte waits: bit 0 of the status port, of the keyboard controller (0x64) and of the
  UART (0x3FD) alike.\<close>

definition serial_received :: "'d port_read \<Rightarrow> 'd \<Rightarrow> bool \<times> 'd" where
  "serial_received status d = (let (st, d) = status d in (st AND 1 \<noteq> 0, d))"

definition keyboard_data_ready :: "'d port_read \<Rightarrow> 'd \<Rightarrow> bool \<times> 'd" where
  "keyboard_data_ready status d = (let (st, d) = status d in (st AND 1 \<noteq> 0, d))"

definition shell_serial_received :: "'d port_read \<Rightarrow> 'd \<Rightarrow> bool \<times> 'd" where
  "shell_serial_received status d = (let (st, d) = status d in (st AND 1 \<noteq> 0, d))"

lemma received_eq [simp]:
  "keyboard_data_ready = serial_received" "shell_serial_received = serial_received"
  by (simp_all add: fun_eq_iff keyboard_data_ready_def shell_serial_received_def serial_received_def)

text \<open>\<^verbatim>\<open>while received() \{ read; decode; handle \}\<close>: not returning is \<open>None\<close>.\<close>

partial_function (option) drain ::
  "('d \<Rightarrow> bool \<times> 'd) \<Rightarrow> 'd port_read \<Rightarrow> (u8 \<Rightarrow> 's \<Rightarrow> out list \<times> 's) \<Rightarrow> 'd \<Rightarrow> 's
    \<Rightarrow> (out list \<times> 's \<times> 'd) option" where
  "drain received data f d s =
     (let (waits, d) = received d in
      if waits then
        (let (byte, d) = data d; (os, s) = f byte s in
         Option.bind (drain received data f d s) (\<lambda>(os', s, d). Some (os @ os', s, d)))
      else Some ([], s, d))"

definition poll_keyboard ::
  "'d port_read \<Rightarrow> 'd port_read \<Rightarrow> 'd \<Rightarrow> input_buffer \<Rightarrow> (out list \<times> input_buffer \<times> 'd) option" where
  "poll_keyboard status data = drain (keyboard_data_ready status) data keyboard_byte"

definition poll_serial_input ::
  "'d port_read \<Rightarrow> 'd port_read \<Rightarrow> 'd \<Rightarrow> input_buffer \<Rightarrow> (out list \<times> input_buffer \<times> 'd) option" where
  "poll_serial_input status data = drain (shell_serial_received status) data shell_serial_byte"

definition timer_handler :: "u64 \<Rightarrow> out list \<times> u64" where
  "timer_handler n = ([End_Of_Interrupt (as_u8 Timer)], on_timer_tick n)"

definition keyboard_handler ::
  "'d port_read \<Rightarrow> 'd \<Rightarrow> input_buffer \<Rightarrow> out list \<times> input_buffer \<times> 'd" where
  "keyboard_handler data d b =
     (let (scancode, d) = data d;
          (os, b) = (case scancode_to_event scancode of
                       Some event \<Rightarrow> handle_key_event event b
                     | None \<Rightarrow> ([], b))
      in (os @ [End_Of_Interrupt (as_u8 Keyboard)], b, d))"

definition serial_handler ::
  "'d port_read \<Rightarrow> 'd port_read \<Rightarrow> 'd \<Rightarrow> input_buffer \<Rightarrow> (out list \<times> input_buffer \<times> 'd) option" where
  "serial_handler status data d b =
     Option.bind (drain (serial_received status) data serial_byte d b) (\<lambda>(os, b, d).
       Some (os @ [End_Of_Interrupt (as_u8 Serial1)], b, d))"

subsection \<open>Feeding a sequence of bytes\<close>

primrec feed :: "('b \<Rightarrow> 's \<Rightarrow> out list \<times> 's) \<Rightarrow> 'b list \<Rightarrow> 's \<Rightarrow> out list \<times> 's" where
  "feed f [] s = ([], s)"
| "feed f (b # r) s = (let (os, s) = f b s; (os', s) = feed f r s in (os @ os', s))"

lemma feed_append:
  "feed f (xs @ ys) s =
     (fst (feed f xs s) @ fst (feed f ys (snd (feed f xs s))), snd (feed f ys (snd (feed f xs s))))"
  by (induction xs arbitrary: s) (auto simp: split_beta Let_def)

lemma feed_inv: "P s \<Longrightarrow> (\<And>b s. P s \<Longrightarrow> P (snd (f b s))) \<Longrightarrow> P (snd (feed f r s))"
  by (induction r arbitrary: s) (auto simp: split_beta Let_def)

text \<open>
  What the loops rely on, documented of the keyboard controller and of the UART: bit 0 of
  the status says whether a byte waits, reading the status consumes nothing, reading the
  data port returns and removes the oldest byte. Then a reading loop ends and has handled
  exactly the bytes that waited.
\<close>

locale byte_device =
  fixes status :: "'d port_read" and data :: "'d port_read" and pending :: "'d \<Rightarrow> u8 list"
  assumes status_ready: "fst (status d) AND 1 \<noteq> 0 \<longleftrightarrow> pending d \<noteq> []"
    and status_keeps: "pending (snd (status d)) = pending d"
    and data_first: "pending d = b # r \<Longrightarrow> fst (data d) = b"
    and data_rest: "pending d = b # r \<Longrightarrow> pending (snd (data d)) = r"
begin

lemma drain_feeds:
  "\<exists>d'. drain (serial_received status) data f d s = Some (fst (feed f (pending d) s), snd (feed f (pending d) s), d')
      \<and> pending d' = []"
proof (induction "pending d" arbitrary: d s)
  case Nil
  then have "fst (status d) AND 1 = 0" using status_ready [of d] by auto
  then show ?case
    using Nil status_keeps [of d] by (subst drain.simps) (simp add: serial_received_def split_beta Let_def Nil [symmetric])
next
  case (Cons b r)
  let ?d1 = "snd (status d)" and ?s1 = "snd (f b s)"
  have ready: "fst (status d) AND 1 \<noteq> 0" using Cons.hyps(2) status_ready [of d] by auto
  have p1: "pending ?d1 = b # r" using Cons.hyps(2) status_keeps [of d] by simp
  have byte: "fst (data ?d1) = b" and rest: "pending (snd (data ?d1)) = r"
    using data_first [OF p1] data_rest [OF p1] by simp_all
  from Cons.hyps(1) [of "snd (data ?d1)" ?s1] rest obtain d' where
    d': "drain (serial_received status) data f (snd (data ?d1)) ?s1 = Some (fst (feed f r ?s1), snd (feed f r ?s1), d')"
      "pending d' = []"
    by auto
  show ?case
    using ready byte d' by (subst drain.simps) (simp add: serial_received_def split_beta Let_def Cons.hyps(2) [symmetric])
qed

end

text \<open>A device that keeps its bytes in order, as the receive FIFO of the UART does; its line
  status has bits 5 and 6 (transmitter empty) set as well. The output buffer of the
  keyboard controller is the same with room for one byte.\<close>

definition fifo_status :: "u8 list port_read" where
  "fifo_status q = (if q = [] then 0x60 else 0x61, q)"

definition fifo_data :: "u8 list port_read" where
  "fifo_data q = (case q of [] \<Rightarrow> (0, []) | b # r \<Rightarrow> (b, r))"

interpretation uart: byte_device fifo_status fifo_data "\<lambda>q. q"
  by unfold_locales (auto simp: fifo_status_def fifo_data_def)

subsection \<open>The invariant through the handlers\<close>

lemma char_of_u8_printable: "0x20 \<le> b \<Longrightarrow> b \<le> 0x7E \<Longrightarrow> is_printable (char_of_u8 b)"
  by (simp add: is_printable_def byte_in_def char_of_u8_def word_le_nat_alt)

definition letters :: string where
  "letters = ''qwertyuiopasdfghjklzxcvbnm''"

lemma serial_event_printable: "serial_byte_to_event b = Some (Char c) \<Longrightarrow> is_printable c"
  by (auto simp: serial_byte_to_event_def char_of_u8_printable split: if_splits)

lemma digit_scancode: "(0x02::u8) \<le> b \<Longrightarrow> b \<le> 0x0A \<Longrightarrow> is_printable (char_of_u8 (0x31 + (b - 0x02)))"
proof -
  assume b: "(0x02::u8) \<le> b" "b \<le> 0x0A"
  then have "unat (0x31 + (b - 0x02)) = 0x31 + (unat b - 2)"
    by (simp add: unat_word_ariths word_le_nat_alt unat_sub del: add_diff_eq)
  with b show ?thesis
    by (simp add: is_printable_def byte_in_def char_of_u8_def word_le_nat_alt)
qed

lemma scancode_event_printable: "scancode_to_event b = Some (Char c) \<Longrightarrow> is_printable c"
proof -
  have "is_printable (CHR ''0'')" "is_printable (CHR '' '')" and "list_all is_printable letters"
    by (simp_all add: is_printable_def byte_in_def letters_def)
  moreover assume "scancode_to_event b = Some (Char c)"
  ultimately show ?thesis
    using digit_scancode [of b] by (auto simp: scancode_to_event_def letters_def split: if_splits)
qed

lemma input_inv_event:
  "input_inv b \<Longrightarrow> (\<And>c. e = Char c \<Longrightarrow> is_printable c) \<Longrightarrow> input_inv (snd (handle_key_event e b))"
  by (cases e) (simp_all add: handle_key_event_def split_beta Let_def input_inv_ops)

lemma input_inv_serial: "input_inv b \<Longrightarrow> input_inv (snd (serial_byte x b))"
  by (auto simp: serial_byte_def on_event_def serial_event_printable split: option.splits
      intro!: input_inv_event)

lemma input_inv_keyboard: "input_inv b \<Longrightarrow> input_inv (snd (keyboard_byte x b))"
  by (auto simp: keyboard_byte_def on_event_def scancode_event_printable split: option.splits
      intro!: input_inv_event)

subsection \<open>The two input paths agree\<close>

fun event_of_input :: "input_event \<Rightarrow> key_event" where
  "event_of_input (Input_Char c) = Char c"
| "event_of_input Input_Backspace = Backspace"
| "event_of_input Input_Enter = Enter"

lemma shell_decoder_eq: "map_option event_of_input (shell_serial_byte_to_event b) = serial_byte_to_event b"
  by (simp add: shell_serial_byte_to_event_def serial_byte_to_event_def)

lemma shell_handler_eq: "handle_input_event e b = handle_key_event (event_of_input e) b"
  by (cases e) (simp_all add: handle_input_event_def handle_key_event_def)

lemma shell_serial_byte_eq: "shell_serial_byte = serial_byte"
proof (intro ext)
  fix b s
  show "shell_serial_byte b s = serial_byte b s"
    unfolding shell_serial_byte_def serial_byte_def on_event_def
    by (subst shell_decoder_eq [symmetric]) (auto simp: shell_handler_eq split: option.splits)
qed

end
