(* ===== verification/Typing.thy ===== *)
theory Typing
  imports Interrupts
begin

text \<open>
  The input path as a whole, from the devices to the lines the shell takes: what the line
  editor holds after any sequence of keys, that nothing waiting in a device is lost, that
  the interrupt path and the shell's polling path can be mixed, and how the echo relates to
  the line.
\<close>

subsection \<open>Everything that touches the input buffer\<close>

datatype input_op =
    Scancode u8 | Serial_In u8 | Shell_Serial_In u8
  | Special special_key | Modifier string bool | Pop_Line

fun input_op_step :: "input_op \<Rightarrow> input_buffer \<Rightarrow> input_buffer" where
  "input_op_step (Scancode x) b = snd (keyboard_byte x b)"
| "input_op_step (Serial_In x) b = snd (serial_byte x b)"
| "input_op_step (Shell_Serial_In x) b = snd (shell_serial_byte x b)"
| "input_op_step (Special k) b = handle_special_key k b"
| "input_op_step (Modifier m v) b = set_modifier m v b"
| "input_op_step Pop_Line b = snd (pop_line b)"

lemma input_op_inv: "input_inv b \<Longrightarrow> input_inv (input_op_step op b)"
  by (cases op) (simp_all add: input_inv_keyboard input_inv_serial shell_serial_byte_eq input_inv_ops)

lemma input_ops_inv: "input_inv b \<Longrightarrow> input_inv (fold input_op_step ops b)"
  by (induction ops arbitrary: b) (simp_all add: input_op_inv)

subsection \<open>Typing text\<close>

definition u8_of_char :: "char \<Rightarrow> u8" where
  "u8_of_char c = of_nat (of_char c)"

lemma unat_u8_of_char: "unat (u8_of_char c) = of_char c"
  by (simp add: u8_of_char_def unat_of_nat)

lemma char_of_u8_of_char [simp]: "char_of_u8 (u8_of_char c) = c"
  by (simp add: char_of_u8_def unat_u8_of_char)

lemma serial_byte_printable:
  assumes "is_printable c"
  shows "serial_byte (u8_of_char c) b = (both [c], push_char c b)"
proof -
  have n: "32 \<le> (of_char c :: nat)" "(of_char c :: nat) \<le> 126"
    using assms by (simp_all add: is_printable_def byte_in_def)
  then have "u8_of_char c \<noteq> 13" "u8_of_char c \<noteq> 10" "u8_of_char c \<noteq> 8" "u8_of_char c \<noteq> 127"
      "0x20 \<le> u8_of_char c" "u8_of_char c \<le> 0x7E"
    by (auto simp: word_le_nat_alt unat_u8_of_char simp flip: word_unat_eq_iff)
       (use n in \<open>auto simp: word_unat_eq_iff unat_u8_of_char\<close>)
  then show ?thesis
    by (simp add: serial_byte_def on_event_def serial_byte_to_event_def handle_key_event_def)
qed

lemma feed_printable:
  assumes "list_all is_printable l" "length (line b) \<le> max_line_len"
  shows "feed serial_byte (map u8_of_char l) b
       = (concat (map (\<lambda>c. both [c]) l), b\<lparr>line := take max_line_len (line b @ l)\<rparr>)"
  using assms
proof (induction l arbitrary: b)
  case Nil
  then show ?case by simp
next
  case (Cons c l)
  have len: "length (line (push_char c b)) \<le> max_line_len"
    using Cons.prems by (simp add: push_char_def)
  have "take max_line_len (line (push_char c b) @ l) = take max_line_len (line b @ c # l)"
    using Cons.prems by (auto simp: push_char_def take_Cons')
  moreover have "(push_char c b)\<lparr>line := x\<rparr> = b\<lparr>line := x\<rparr>" for x
    by (simp add: push_char_def)
  ultimately show ?case
    using Cons.prems Cons.IH [OF _ len] by (simp add: serial_byte_printable Let_def)
qed

definition typed :: "string \<Rightarrow> u8 list" where
  "typed l = map u8_of_char l @ [0x0D]"

lemma serial_byte_CR: "serial_byte 0x0D b = (both_ln [], commit_line b)"
  by (simp add: serial_byte_def on_event_def serial_byte_to_event_def handle_key_event_def)

lemma feed_typed:
  assumes "list_all is_printable l" "line b = []"
  shows "snd (feed serial_byte (typed l) b) = commit_line (b\<lparr>line := take max_line_len l\<rparr>)"
  using assms by (simp add: typed_def feed_append feed_printable serial_byte_CR)

definition push_typed :: "string \<Rightarrow> input_buffer \<Rightarrow> input_buffer" where
  "push_typed l b = b\<lparr>ready_lines := push_ready l (ready_lines b),
     history := (if l = [] then history b else push_history l (history b))\<rparr>"

lemma commit_push_typed: "line b = [] \<Longrightarrow> commit_line (b\<lparr>line := l\<rparr>) = push_typed l b"
  by (simp add: commit_line_def push_typed_def Let_def)

lemma feed_typed_lines:
  assumes "\<forall>l\<in>set ls. list_all is_printable l" "line b = []"
  shows "snd (feed serial_byte (concat (map typed ls)) b)
       = fold (\<lambda>l. push_typed (take max_line_len l)) ls b"
  using assms
proof (induction ls arbitrary: b)
  case Nil
  then show ?case by simp
next
  case (Cons l ls)
  have "line (push_typed (take max_line_len l) b) = []" using Cons.prems by (simp add: push_typed_def)
  with Cons show ?case by (simp add: feed_append feed_typed commit_push_typed)
qed

lemma ready_fold_typed: "ready_lines (fold push_typed ls b) = fold push_ready ls (ready_lines b)"
  by (induction ls arbitrary: b) (simp_all add: push_typed_def)

lemma history_fold_typed:
  "history (fold push_typed ls b) = fold push_history (filter (\<lambda>l. l \<noteq> []) ls) (history b)"
  by (induction ls arbitrary: b) (simp_all add: push_typed_def)

lemma line_fold_typed: "line (fold push_typed ls b) = line b"
  by (induction ls arbitrary: b) (simp_all add: push_typed_def)

text \<open>The shell's successive reads.\<close>

primrec pops :: "nat \<Rightarrow> input_buffer \<Rightarrow> string option list \<times> input_buffer" where
  "pops 0 b = ([], b)"
| "pops (Suc n) b = (let (l, b) = pop_line b; (ls, b) = pops n b in (l # ls, b))"

lemma pops_queue:
  "fst (pops n b) = map Some (take n (ready_lines b)) @ replicate (n - length (ready_lines b)) None"
proof (induction n arbitrary: b)
  case 0
  then show ?case by simp
next
  case (Suc n)
  then show ?case
    by (cases "ready_lines b") (simp_all add: pop_line_def split_beta Let_def)
qed

lemma modifiers_fold_typed: "modifiers (fold push_typed ls b) = modifiers b"
  by (induction ls arbitrary: b) (simp_all add: push_typed_def)

lemma fold_take_typed:
  "fold (\<lambda>l. push_typed (take n l)) ls b = fold push_typed (map (take n) ls) b"
  by (simp add: fold_map o_def)

subsection \<open>The echo\<close>

text \<open>What a terminal shows of a text on its current line: a backspace takes the last
  character away.\<close>

fun replay :: "string \<Rightarrow> string \<Rightarrow> string" where
  "replay shown [] = shown"
| "replay shown (c # cs) = replay (if c = bs then butlast shown else shown @ [c]) cs"

lemma replay_append: "replay shown (xs @ ys) = replay (replay shown xs) ys"
  by (induction shown xs rule: replay.induct) auto

lemma printable_not_bs: "is_printable c \<Longrightarrow> c \<noteq> bs"
  by (auto simp: is_printable_def byte_in_def)

text \<open>One key: the echo shows what the line holds, except for a character that a full line
  refuses.\<close>

lemma echo_event:
  assumes "e \<noteq> Enter" "\<And>c. e = Char c \<Longrightarrow> is_printable c"
  shows "replay (line b) (screen_text (fst (handle_key_event e b))) = line (snd (handle_key_event e b))
     \<longleftrightarrow> \<not> (\<exists>c. e = Char c \<and> max_line_len \<le> length (line b))"
  using assms printable_not_bs
  by (cases e) (auto simp: handle_key_event_def backspace_def push_char_def both_def)

lemma line_grows_by_one: "e \<noteq> Enter \<Longrightarrow> length (line (snd (handle_key_event e b))) \<le> Suc (length (line b))"
  by (cases e) (auto simp: handle_key_event_def backspace_def push_char_def Let_def split_beta)

lemma serial_byte_cases:
  obtains (none) "serial_byte_to_event x = None" "serial_byte x b = ([], b)"
  | (event) e where "serial_byte_to_event x = Some e" "serial_byte x b = handle_key_event e b"
      "\<And>c. e = Char c \<Longrightarrow> is_printable c"
  using serial_event_printable [of x]
  by (cases "serial_byte_to_event x") (auto simp: serial_byte_def on_event_def)

lemma echo_feed:
  assumes "Some Enter \<notin> serial_byte_to_event ` set xs" "length (line b) + length xs \<le> max_line_len"
  shows "replay (line b) (screen_text (fst (feed serial_byte xs b))) = line (snd (feed serial_byte xs b))"
  using assms
proof (induction xs arbitrary: b)
  case Nil
  then show ?case by simp
next
  case (Cons x xs)
  let ?b = "snd (serial_byte x b)"
  have one: "replay (line b) (screen_text (fst (serial_byte x b))) = line ?b
      \<and> length (line ?b) \<le> Suc (length (line b))"
  proof (cases rule: serial_byte_cases [of x b])
    case none
    then show ?thesis by simp
  next
    case (event e)
    have ne: "e \<noteq> Enter" using event(1) Cons.prems(1) by force
    from event(2) echo_event [OF ne event(3)] line_grows_by_one [OF ne] Cons.prems(2)
    show ?thesis by auto
  qed
  then have "replay (line ?b) (screen_text (fst (feed serial_byte xs ?b))) = line (snd (feed serial_byte xs ?b))"
    using Cons.prems by (intro Cons.IH) auto
  with one show ?case by (simp add: split_beta Let_def replay_append)
qed

subsection \<open>Acknowledging interrupts\<close>

lemma no_eoi_event: "End_Of_Interrupt v \<notin> set (fst (handle_key_event e b))"
  by (cases e) (auto simp: handle_key_event_def both_def both_ln_def Let_def split_beta)

lemma no_eoi_feed: "End_Of_Interrupt v \<notin> set (fst (feed serial_byte xs b))"
  by (induction xs arbitrary: b)
     (auto simp: Let_def split_beta serial_byte_def on_event_def no_eoi_event split: option.splits)

subsection \<open>Scancodes\<close>

text \<open>The keys of scancode set 1 that the decoder knows.\<close>

definition key_table :: "(u8 \<times> key_event) list" where
  "key_table =
    [(0x02, Char (CHR ''1'')), (0x03, Char (CHR ''2'')), (0x04, Char (CHR ''3'')),
     (0x05, Char (CHR ''4'')), (0x06, Char (CHR ''5'')), (0x07, Char (CHR ''6'')),
     (0x08, Char (CHR ''7'')), (0x09, Char (CHR ''8'')), (0x0A, Char (CHR ''9'')),
     (0x0B, Char (CHR ''0'')), (0x10, Char (CHR ''q'')), (0x11, Char (CHR ''w'')),
     (0x12, Char (CHR ''e'')), (0x13, Char (CHR ''r'')), (0x14, Char (CHR ''t'')),
     (0x15, Char (CHR ''y'')), (0x16, Char (CHR ''u'')), (0x17, Char (CHR ''i'')),
     (0x18, Char (CHR ''o'')), (0x19, Char (CHR ''p'')), (0x1E, Char (CHR ''a'')),
     (0x1F, Char (CHR ''s'')), (0x20, Char (CHR ''d'')), (0x21, Char (CHR ''f'')),
     (0x22, Char (CHR ''g'')), (0x23, Char (CHR ''h'')), (0x24, Char (CHR ''j'')),
     (0x25, Char (CHR ''k'')), (0x26, Char (CHR ''l'')), (0x2C, Char (CHR ''z'')),
     (0x2D, Char (CHR ''x'')), (0x2E, Char (CHR ''c'')), (0x2F, Char (CHR ''v'')),
     (0x30, Char (CHR ''b'')), (0x31, Char (CHR ''n'')), (0x32, Char (CHR ''m'')),
     (0x39, Char (CHR '' '')), (0x1C, Enter), (0x0E, Backspace)]"

lemma u8_range_2_10: "(2::u8) \<le> x \<Longrightarrow> x \<le> 10 \<Longrightarrow> x \<in> {2, 3, 4, 5, 6, 7, 8, 9, 10}"
proof -
  assume "(2::u8) \<le> x" "x \<le> 10"
  then have "unat x \<in> {2, 3, 4, 5, 6, 7, 8, 9, 10}" by (auto simp: word_le_nat_alt)
  then show ?thesis by (auto simp: word_unat_eq_iff)
qed

lemma key_table_no_release: "x AND 0x80 \<noteq> 0 \<Longrightarrow> map_of key_table x = None"
  by (auto simp: key_table_def map_of_eq_None_iff)

lemma scancode_lookup: "scancode_to_event x = map_of key_table x"
proof (cases "x AND 0x80 = 0")
  case True
  show ?thesis
  proof (cases "2 \<le> x \<and> x \<le> 10")
    case range: True
    then have "x \<in> {2, 3, 4, 5, 6, 7, 8, 9, 10}" using u8_range_2_10 by blast
    then show ?thesis
      by (elim insertE emptyE) (simp_all add: scancode_to_event_def char_of_u8_def key_table_def char_of_eq_iff)
  next
    case False
    then have "x \<noteq> 2" "x \<noteq> 3" "x \<noteq> 4" "x \<noteq> 5" "x \<noteq> 6" "x \<noteq> 7" "x \<noteq> 8" "x \<noteq> 9" "x \<noteq> 10" by auto
    moreover have "(2 \<le> x \<and> x \<le> 10) = False" using False by simp
    ultimately show ?thesis using True by (simp add: scancode_to_event_def key_table_def del: de_Morgan_conj)
  qed
qed (simp add: key_table_no_release, simp add: scancode_to_event_def)

lemma key_table_distinct: "distinct (map fst key_table)" "distinct (map snd key_table)"
  by (simp_all add: key_table_def)

lemma key_table_inj: "(x, e) \<in> set key_table \<Longrightarrow> (y, e) \<in> set key_table \<Longrightarrow> x = y"
  using key_table_distinct(2) unfolding distinct_map inj_on_def by (metis prod.inject snd_conv)

lemma ran_key_table: "range (map_of key_table) = insert None (Some ` snd ` set key_table)"
proof -
  have "map_of key_table 0 = None" by (simp add: key_table_def)
  then have "None \<in> range (map_of key_table)" by (metis rangeI)
  moreover have "Some e \<in> range (map_of key_table) \<longleftrightarrow> e \<in> snd ` set key_table" for e
    using key_table_distinct(1) by (force dest: map_of_SomeD simp: map_of_eq_Some_iff)
  ultimately show ?thesis by (auto simp: image_iff) (metis option.exhaust)+
qed

lemma key_table_keys:
  "snd ` set key_table = {Enter, Backspace} \<union> Char ` set ('' 0123456789'' @ letters)"
proof -
  have "set (map snd key_table) = set ([Enter, Backspace] @ map Char ('' 0123456789'' @ letters))"
    by code_simp
  then have "snd ` set key_table = set [Enter, Backspace] \<union> Char ` set ('' 0123456789'' @ letters)"
    by (simp only: set_map set_append)
  then show ?thesis by (simp only: list.set)
qed

subsection \<open>Properties\<close>

text \<open>Whatever keys, serial bytes, special keys and shell reads come, in any order: every line,
  the one being typed, the committed ones and the history, is printable and at most 128
  characters, at most eight lines wait, and the history keeps at most sixteen non-empty
  ones.\<close>

theorem input_bounded:
  "input_inv (fold input_op_step ops new_input)"
  by (rule input_ops_inv [OF input_inv_new])

text \<open>Lines typed over the serial line, each followed by a carriage return, reach the shell: the
  last eight are queued in order, each cut to 128 characters, the history holds the last
  sixteen non-empty ones and the editor is empty again; the shell's next eight reads take
  exactly those lines, in order, and nothing else.\<close>

theorem typed_lines_reach_shell:
  assumes "\<forall>l\<in>set ls. list_all is_printable l"
  shows "snd (feed serial_byte (concat (map typed ls)) new_input) =
    (let stored = map (take max_line_len) ls; entered = filter (\<lambda>l. l \<noteq> []) stored in
     new_input\<lparr>ready_lines := drop (length stored - max_queue_depth) stored,
       history := drop (length entered - max_history) entered\<rparr>)
   \<and> fst (pops max_queue_depth (snd (feed serial_byte (concat (map typed ls)) new_input))) =
      (let stored = map (take max_line_len) ls in
       map Some (drop (length stored - max_queue_depth) stored)
         @ replicate (max_queue_depth - length stored) None)"
proof -
  define stored where "stored = map (take max_line_len) ls"
  define b where "b = snd (feed serial_byte (concat (map typed ls)) new_input)"
  have b: "b = fold push_typed stored new_input"
    unfolding b_def stored_def using assms
    by (simp only: fold_take_typed [symmetric]) (rule feed_typed_lines, auto simp: new_input_def)
  have empty: "ready_lines new_input = []" "history new_input = []" "line new_input = []"
    by (simp_all add: new_input_def)
  have "ready_lines b = drop (length stored - max_queue_depth) stored"
    using ready_queue.push_all [of "[]" stored] by (simp add: b ready_fold_typed empty)
  moreover have "history b = drop (length (filter (\<lambda>l. l \<noteq> []) stored) - max_history) (filter (\<lambda>l. l \<noteq> []) stored)"
    using history_queue.push_all [of "[]" "filter (\<lambda>l. l \<noteq> []) stored"]
    by (simp add: b history_fold_typed empty)
  moreover have "line b = []" "modifiers b = modifiers new_input"
    by (simp_all add: b line_fold_typed modifiers_fold_typed empty)
  ultimately show ?thesis
    by (simp add: Let_def new_input_def [symmetric] pops_queue flip: stored_def b_def)
       (simp add: new_input_def)
qed

theorem typed_lines_reach_shell_witness:
  "ready_lines (snd (feed serial_byte (concat (map typed [''ls'', '''', ''cat x''])) new_input))
     = [''ls'', '''', ''cat x'']"
  using typed_lines_reach_shell [of "[''ls'', '''', ''cat x'']"]
  by (simp add: is_printable_def byte_in_def max_queue_depth_def max_line_len_def Let_def)



text \<open>C26. No byte is lost and no reading loop hangs: whatever waits in the UART, the interrupt
  handler and the shell's poll both return, leave nothing waiting and have handled exactly
  those bytes in order, with the same effect on the line and the echo; the handler then
  acknowledges its interrupt.\<close>

theorem serial_drained:
  assumes "byte_device status data pending"
  shows "\<exists>d' d''. serial_handler status data d b =
           Some (fst (feed serial_byte (pending d) b) @ [End_Of_Interrupt (as_u8 Serial1)],
                 snd (feed serial_byte (pending d) b), d') \<and> pending d' = []
       \<and> poll_serial_input status data d b =
           Some (fst (feed serial_byte (pending d) b), snd (feed serial_byte (pending d) b), d'')
       \<and> pending d'' = []"
  using byte_device.drain_feeds [OF assms, of serial_byte d b]
  by (auto simp: serial_handler_def poll_serial_input_def shell_serial_byte_eq)

theorem serial_drained_witness:
  "\<exists>d'. serial_handler fifo_status fifo_data (typed ''ls'') new_input =
     Some (fst (feed serial_byte (typed ''ls'') new_input) @ [End_Of_Interrupt 36],
           snd (feed serial_byte (typed ''ls'') new_input), d') \<and> d' = []"
  using serial_drained [OF uart.byte_device_axioms, of "typed ''ls''" new_input]
  by (auto simp: pic_1_offset_def)

text \<open>The keyboard decoder knows exactly the letters, the digits, space, Enter and Backspace,
  each from one scancode, and ignores every key release.\<close>

theorem scancodes_decoded:
  "inj_on scancode_to_event {x. scancode_to_event x \<noteq> None}
   \<and> range scancode_to_event =
       insert None (Some ` ({Enter, Backspace} \<union> Char ` set ('' 0123456789'' @ letters)))
   \<and> scancode_to_event (x OR 0x80) = None"
proof (intro conjI)
  show "inj_on scancode_to_event {x. scancode_to_event x \<noteq> None}"
    unfolding inj_on_def scancode_lookup by (metis (mono_tags) key_table_inj map_of_SomeD mem_Collect_eq not_Some_eq)
  show "range scancode_to_event =
       insert None (Some ` ({Enter, Backspace} \<union> Char ` set ('' 0123456789'' @ letters)))"
    unfolding scancode_lookup ran_key_table key_table_keys by simp
  show "scancode_to_event (x OR 0x80) = None"
    by (simp add: scancode_to_event_def)
qed

text \<open>The interrupt lines are wired up: a line is unmasked exactly when the descriptor table has
  an interrupt handler at the vector the controllers raise for it; no masked line reaches a
  CPU exception's vector; and each handler acknowledges with its own vector, once, last.\<close>

theorem irqs_wired:
  assumes "n < 16" "byte_device status data pending"
  shows "(irq_unmasked n \<longleftrightarrow> (\<exists>i. idt (irq_vector n) = Some (Irq_Handler i) \<and> irq_vector n = as_u8 i))
    \<and> 32 \<le> irq_vector n
    \<and> fst (timer_handler t) = [End_Of_Interrupt (as_u8 Timer)]
    \<and> (\<exists>os. fst (keyboard_handler data d b) = os @ [End_Of_Interrupt (as_u8 Keyboard)]
          \<and> (\<forall>v. End_Of_Interrupt v \<notin> set os))
    \<and> (\<exists>os b' d'. serial_handler status data d b = Some (os @ [End_Of_Interrupt (as_u8 Serial1)], b', d')
          \<and> (\<forall>v. End_Of_Interrupt v \<notin> set os))"
proof (intro conjI)
  have n: "n \<in> {0, 1, 2, 3, 4, 5, 6, 7, 8, 9, 10, 11, 12, 13, 14, 15}"
    using assms(1) by (simp only: insert_iff empty_iff) arith
  show "irq_unmasked n \<longleftrightarrow> (\<exists>i. idt (irq_vector n) = Some (Irq_Handler i) \<and> irq_vector n = as_u8 i)"
    using n by (elim insertE emptyE)
      (auto simp: irq_unmasked_def irq_vector_def pic_masks_def idt_def pic_1_offset_def pic_2_offset_def
        bit_simps interrupt_index.exhaust)
  show "32 \<le> irq_vector n"
    using n by (elim insertE emptyE) (simp_all add: irq_vector_def pic_1_offset_def pic_2_offset_def)
  show "fst (timer_handler t) = [End_Of_Interrupt (as_u8 Timer)]"
    by (simp add: timer_handler_def)
  show "\<exists>os. fst (keyboard_handler data d b) = os @ [End_Of_Interrupt (as_u8 Keyboard)]
          \<and> (\<forall>v. End_Of_Interrupt v \<notin> set os)"
    using no_eoi_event
    by (auto simp: keyboard_handler_def Let_def split_beta split: option.splits)
  show "\<exists>os b' d'. serial_handler status data d b = Some (os @ [End_Of_Interrupt (as_u8 Serial1)], b', d')
          \<and> (\<forall>v. End_Of_Interrupt v \<notin> set os)"
    using byte_device.drain_feeds [OF assms(2), of serial_byte d b] no_eoi_feed [of _ "pending d" b]
    by (auto simp: serial_handler_def)
qed

theorem irqs_wired_witness:
  "irq_unmasked 4 \<and> idt (irq_vector 4) = Some (Irq_Handler Serial1) \<and> \<not> irq_unmasked 7 \<and> idt (irq_vector 7) = None"
proof -
  note w = irqs_wired [OF _ uart.byte_device_axioms]
  have "idt (irq_vector 4) = Some (Irq_Handler Serial1)" "irq_vector 4 = as_u8 Serial1" "idt (irq_vector 7) = None"
    by (simp_all add: idt_def irq_vector_def pic_1_offset_def)
  then show ?thesis using w [of 4] w [of 7] by auto
qed

end
