(* ===== verification/Rtc.thy ===== *)
theory Rtc
  imports Rust_Prelude
begin

text \<open>
  The real-time clock reader of \<^verbatim>\<open>src/src/rtc.rs\<close>. The CMOS chip is a parameter \<open>rd\<close>:
  writing a register number to port 0x70 and reading port 0x71, as both functions of the
  source do, yields the byte and the chip after the access (time passes between accesses).
  The arithmetic on the registers never overflows (\<open>unat_bcd\<close>, \<open>unat_bcd_hour\<close> below), so
  the plain word operations are the checked ones.
\<close>

unbundle bit_operations_syntax

type_synonym 'c cmos_read = "'c \<Rightarrow> u8 \<Rightarrow> u8 \<times> 'c"

definition get_update_in_progress_flag :: "'c cmos_read \<Rightarrow> 'c \<Rightarrow> u8 \<times> 'c" where
  "get_update_in_progress_flag rd c = (let (v, c) = rd c 0x0A in (v AND 0x80, c))"

definition get_rtc_register :: "'c cmos_read \<Rightarrow> u8 \<Rightarrow> 'c \<Rightarrow> u8 \<times> 'c" where
  "get_rtc_register rd reg c = rd c reg"

record rtc_time =
  year :: u16
  month :: u8
  day :: u8
  hour :: u8
  minute :: u8
  second :: u8

text \<open>\<^verbatim>\<open>while get_update_in_progress_flag() != 0 \{\}\<close>: never clearing is \<open>None\<close>.\<close>

partial_function (option) wait_update :: "'c cmos_read \<Rightarrow> 'c \<Rightarrow> 'c option" where
  "wait_update rd c =
     (let (flag, c) = get_update_in_progress_flag rd c in
      if flag \<noteq> 0 then wait_update rd c else Some c)"

definition bcd :: "'w::len word \<Rightarrow> 'w word" where
  "bcd v = (v AND 0x0F) + ((v div 16) * 10)"

definition bcd_hour :: "u8 \<Rightarrow> u8" where
  "bcd_hour v = ((v AND 0x0F) + (((v AND 0x70) div 16) * 10)) OR (v AND 0x80)"

definition to_24_hour :: "u8 \<Rightarrow> u8 \<Rightarrow> u8" where
  "to_24_hour register_b v =
     (if register_b AND 0x02 = 0 \<and> v AND 0x80 \<noteq> 0 then ((v AND 0x7F) + 12) mod 24 else v)"

definition convert :: "u8 \<Rightarrow> rtc_time \<Rightarrow> rtc_time" where
  "convert register_b t =
     (let t = (if register_b AND 0x04 = 0
               then t\<lparr>second := bcd (second t), minute := bcd (minute t), hour := bcd_hour (hour t),
                      day := bcd (day t), month := bcd (month t), year := bcd (year t)\<rparr>
               else t)
      in t\<lparr>hour := to_24_hour register_b (hour t), year := year t + 2000\<rparr>)"

definition read_rtc :: "'c cmos_read \<Rightarrow> 'c \<Rightarrow> (rtc_time \<times> 'c) option" where
  "read_rtc rd c =
     Option.bind (wait_update rd c) (\<lambda>c.
       let (s, c) = get_rtc_register rd 0x00 c;
           (mi, c) = get_rtc_register rd 0x02 c;
           (h, c) = get_rtc_register rd 0x04 c;
           (d, c) = get_rtc_register rd 0x07 c;
           (mo, c) = get_rtc_register rd 0x08 c;
           (y, c) = get_rtc_register rd 0x09 c;
           (register_b, c) = get_rtc_register rd 0x0B c
       in Some (convert register_b \<lparr>year = ucast y, month = mo, day = d, hour = h, minute = mi, second = s\<rparr>, c))"

subsection \<open>The wait\<close>

text \<open>The flag the \<open>n\<close>th poll sees.\<close>

definition after_polls :: "'c cmos_read \<Rightarrow> nat \<Rightarrow> 'c \<Rightarrow> 'c" where
  "after_polls rd n = (\<lambda>c. snd (rd c 0x0A)) ^^ n"

definition updating :: "'c cmos_read \<Rightarrow> 'c \<Rightarrow> bool" where
  "updating rd c = (fst (rd c 0x0A) AND 0x80 \<noteq> 0)"

lemma after_polls_Suc: "after_polls rd (Suc n) c = after_polls rd n (snd (rd c 0x0A))"
  by (simp add: after_polls_def funpow_simps_right(2) del: funpow.simps(2))

lemma wait_update_unfold:
  "wait_update rd c = (if updating rd c then wait_update rd (snd (rd c 0x0A)) else Some (snd (rd c 0x0A)))"
  by (subst wait_update.simps) (simp add: get_update_in_progress_flag_def updating_def split_beta Let_def)

lemma wait_update_returns:
  assumes "\<forall>k<n. updating rd (after_polls rd k c)" "\<not> updating rd (after_polls rd n c)"
  shows "wait_update rd c = Some (after_polls rd (Suc n) c)"
  using assms
proof (induction n arbitrary: c)
  case 0
  then show ?case by (simp add: wait_update_unfold [of rd c] after_polls_def)
next
  case (Suc n)
  let ?c = "snd (rd c 0x0A)"
  note step = after_polls_Suc [where rd = rd and c = c]
  have "wait_update rd ?c = Some (after_polls rd (Suc n) ?c)"
    using Suc.prems by (intro Suc.IH) (auto simp flip: step)
  moreover have "updating rd c" using Suc.prems(1) by (auto simp: after_polls_def)
  ultimately show ?case by (simp add: wait_update_unfold [of rd c] step)
qed

lemma wait_update_SomeD:
  assumes w: "wait_update rd c = Some c'"
  shows "\<exists>n. \<not> updating rd (after_polls rd n c)"
proof (rule wait_update.raw_induct [where P = "\<lambda>rd c c'. \<exists>n. \<not> updating rd (after_polls rd n c)", OF _ w])
  fix wait :: "'a cmos_read \<Rightarrow> 'a \<Rightarrow> 'a option" and rd c c'
  assume IH: "\<And>rd c c'. wait rd c = Some c' \<Longrightarrow> \<exists>n. \<not> updating rd (after_polls rd n c)"
    and body: "(let (flag, c) = get_update_in_progress_flag rd c in
                if flag \<noteq> 0 then wait rd c else Some c) = Some c'"
  show "\<exists>n. \<not> updating rd (after_polls rd n c)"
  proof (cases "updating rd c")
    case True
    with body have "wait rd (snd (rd c 0x0A)) = Some c'"
      by (auto simp: get_update_in_progress_flag_def updating_def split_beta Let_def)
    then obtain n where "\<not> updating rd (after_polls rd n (snd (rd c 0x0A)))" using IH by blast
    then have "\<not> updating rd (after_polls rd (Suc n) c)" by (simp add: after_polls_Suc)
    then show ?thesis by blast
  next
    case False
    then have "\<not> updating rd (after_polls rd 0 c)" by (simp add: after_polls_def)
    then show ?thesis by blast
  qed
qed

lemma wait_update_total:
  "(\<exists>c'. wait_update rd c = Some c') \<longleftrightarrow> (\<exists>n. \<not> updating rd (after_polls rd n c))"
proof
  assume "\<exists>n. \<not> updating rd (after_polls rd n c)"
  then obtain n where "\<not> updating rd (after_polls rd n c)" "\<forall>k<n. updating rd (after_polls rd k c)"
    using exists_least_iff [of "\<lambda>n. \<not> updating rd (after_polls rd n c)"] by blast
  from wait_update_returns [OF this(2) this(1)] show "\<exists>c'. wait_update rd c = Some c'" by simp
next
  assume "\<exists>c'. wait_update rd c = Some c'"
  then show "\<exists>n. \<not> updating rd (after_polls rd n c)"
    by (elim exE) (rule wait_update_SomeD)
qed

subsection \<open>Decoding\<close>

text \<open>Masks and shifts of a byte, as numbers.\<close>

lemma unat_and_mask: "unat (v AND mask n) = unat v mod 2 ^ n" for v :: "'w::len word"
proof -
  have "unat (take_bit n v) = take_bit n (unat v)" by (rule unsigned_take_bit_eq)
  then show ?thesis by (simp only: take_bit_eq_mask [of n v] take_bit_eq_mod [of n "unat v"])
qed

lemma unat_and_15: "unat (v AND 0x0F) = unat v mod 16" for v :: "'w::len word"
  using unat_and_mask [of v 4] by (simp add: mask_eq_exp_minus_1)

lemma unat_and_127: "unat (v AND 0x7F) = unat v mod 128" for v :: u8
  using unat_and_mask [of v 7] by (simp add: mask_eq_exp_minus_1)

lemma u8_bound: "unat (v :: u8) < 256"
  using unsigned_less [of v] by simp

lemma unat_bcd: "unat (bcd v) = unat v mod 16 + 10 * (unat v div 16)" for v :: u8
proof -
  have d: "unat v div 16 < 16" using u8_bound [of v] by (simp add: less_mult_imp_div_less)
  have m: "unat v mod 16 < 16" by simp
  have "unat ((v div 16) * 10) = unat v div 16 * 10"
    using d by (simp add: unat_word_ariths unat_div)
  then show ?thesis
    using d m by (simp add: bcd_def unat_word_ariths(1) unat_and_15)
qed

lemma unat_bcd_year: "unat (bcd (ucast v :: u16)) = unat v mod 16 + 10 * (unat v div 16)" for v :: u8
proof -
  let ?v = "ucast v :: u16"
  have v: "unat ?v = unat v"
    using u8_bound [of v] by (simp add: unsigned_ucast_eq take_bit_nat_eq_self_iff)
  have d: "unat v div 16 < 16" using u8_bound [of v] by (simp add: less_mult_imp_div_less)
  have m: "unat v mod 16 < 16" by simp
  have "unat ((?v div 16) * 10) = unat v div 16 * 10"
    using d by (simp add: unat_word_ariths unat_div v)
  then show ?thesis
    using d m by (simp add: bcd_def unat_word_ariths(1) unat_and_15 v)
qed

subsection \<open>Encoded times\<close>

text \<open>How the chip stores a time, documented of the MC146818: binary or BCD (bit 2 of register
  B), 24-hour or 12-hour (bit 1), where twelve o'clock is stored as 12 and bit 7 of the hour
  marks the afternoon.\<close>

definition enc :: "u8 \<Rightarrow> nat \<Rightarrow> nat" where
  "enc register_b n = (if register_b AND 0x04 = 0 then 16 * (n div 10) + n mod 10 else n)"

definition enc_hour :: "u8 \<Rightarrow> nat \<Rightarrow> nat" where
  "enc_hour register_b h =
     (if register_b AND 0x02 = 0
      then enc register_b (if h mod 12 = 0 then 12 else h mod 12) + (if h < 12 then 0 else 128)
      else enc register_b h)"

record civil_time =
  c_year :: nat
  c_month :: nat
  c_day :: nat
  c_hour :: nat
  c_minute :: nat
  c_second :: nat

definition valid_time :: "civil_time \<Rightarrow> bool" where
  "valid_time t = (c_year t < 100 \<and> c_month t < 100 \<and> c_day t < 100 \<and> c_hour t < 24
     \<and> c_minute t < 100 \<and> c_second t < 100)"

definition cmos_holds :: "u8 \<Rightarrow> civil_time \<Rightarrow> u8 \<Rightarrow> u8" where
  "cmos_holds register_b t reg =
     (if reg = 0x00 then of_nat (enc register_b (c_second t))
      else if reg = 0x02 then of_nat (enc register_b (c_minute t))
      else if reg = 0x04 then of_nat (enc_hour register_b (c_hour t))
      else if reg = 0x07 then of_nat (enc register_b (c_day t))
      else if reg = 0x08 then of_nat (enc register_b (c_month t))
      else if reg = 0x09 then of_nat (enc register_b (c_year t))
      else if reg = 0x0B then register_b
      else 0)"

text \<open>What the reader makes of an hour: the true one, but for the two twelve o'clocks of a
  12-hour chip, which it exchanges.\<close>

definition shown_hour :: "u8 \<Rightarrow> nat \<Rightarrow> nat" where
  "shown_hour register_b h = (if register_b AND 0x02 = 0 \<and> h mod 12 = 0 then 12 - h else h)"

lemma unat_of_enc: "n < 100 \<Longrightarrow> unat (of_nat (enc b n) :: u8) = enc b n"
proof -
  assume n: "n < 100"
  then have "n div 10 < 10" "n mod 10 < 10" by (simp_all add: less_mult_imp_div_less)
  then have "16 * (n div 10) + n mod 10 < 256" by linarith
  then have "enc b n < 256" using n by (simp add: enc_def)
  then show ?thesis by (simp add: unat_of_nat)
qed

lemma bcd_enc:
  assumes "n < 100"
  shows "unat (if b AND 0x04 = 0 then bcd (of_nat (enc b n) :: u8) else of_nat (enc b n)) = n"
proof -
  have "n mod 10 < 16" by (rule less_trans [of _ 10]) simp_all
  then show ?thesis
    using unat_of_enc [OF assms, of b] by (simp add: unat_bcd) (simp add: enc_def)
qed

lemma bcd_enc_year:
  assumes "n < 100"
  shows "unat (if b AND 0x04 = 0 then bcd (ucast (of_nat (enc b n) :: u8) :: u16)
               else ucast (of_nat (enc b n) :: u8)) = n"
proof -
  have "n mod 10 < 16" by (rule less_trans [of _ 10]) simp_all
  moreover have "unat (ucast v :: u16) = unat v" for v :: u8
    using u8_bound [of v] by (simp add: unsigned_ucast_eq take_bit_nat_eq_self_iff)
  ultimately show ?thesis
    using unat_of_enc [OF assms, of b] by (simp add: unat_bcd_year) (simp add: enc_def)
qed

text \<open>The hour, for each of the four modes and the 24 hours.\<close>

definition hour_ok :: "u8 \<Rightarrow> nat \<Rightarrow> bool" where
  "hour_ok b h =
     (to_24_hour b (if b AND 0x04 = 0 then bcd_hour (of_nat (enc_hour b h)) else of_nat (enc_hour b h))
        = of_nat (shown_hour b h))"

lemma hour_table: "list_all (\<lambda>b. list_all (hour_ok b) [0..<24]) [0, 2, 4, 6]"
  by code_simp

lemma hour_ok_mode:
  "(b AND 4 = 0) = (b' AND 4 = 0) \<Longrightarrow> (b AND 2 = 0) = (b' AND 2 = 0) \<Longrightarrow> hour_ok b h = hour_ok b' h"
  by (simp only: hour_ok_def to_24_hour_def enc_hour_def enc_def shown_hour_def)

lemma hour_ok_all:
  assumes "h < 24"
  shows "hour_ok b h"
proof -
  have t: "hour_ok b' h" if "b' \<in> {0, 2, 4, 6}" for b'
    using hour_table assms that by (auto simp: list_all_iff)
  show ?thesis
    using t [of 0] t [of 2] t [of 4] t [of 6]
      hour_ok_mode [of b 0 h] hour_ok_mode [of b 2 h] hour_ok_mode [of b 4 h] hour_ok_mode [of b 6 h]
    by (cases "b AND 4 = 0"; cases "b AND 2 = 0") simp_all
qed

definition rtc_of_civil :: "u8 \<Rightarrow> civil_time \<Rightarrow> rtc_time" where
  "rtc_of_civil b t =
     \<lparr>year = of_nat (c_year t + 2000), month = of_nat (c_month t), day = of_nat (c_day t),
      hour = of_nat (shown_hour b (c_hour t)), minute = of_nat (c_minute t),
      second = of_nat (c_second t)\<rparr>"

lemma word_eq_of_nat: "unat v = n \<Longrightarrow> v = of_nat n"
  by auto

lemma convert_cmos:
  assumes "valid_time t"
  shows "convert b \<lparr>year = ucast (cmos_holds b t 0x09), month = cmos_holds b t 0x08,
      day = cmos_holds b t 0x07, hour = cmos_holds b t 0x04, minute = cmos_holds b t 0x02,
      second = cmos_holds b t 0x00\<rparr> = rtc_of_civil b t"
proof -
  note w = bcd_enc [where b = b, THEN word_eq_of_nat] bcd_enc_year [where b = b, THEN word_eq_of_nat]
  have "hour_ok b (c_hour t)" using assms by (intro hour_ok_all) (simp add: valid_time_def)
  with assms show ?thesis
    using w(1) [of "c_second t"] w(1) [of "c_minute t"] w(1) [of "c_day t"] w(1) [of "c_month t"]
      w(2) [of "c_year t"]
    by (cases "b AND 4 = 0")
      (simp_all add: convert_def cmos_holds_def rtc_of_civil_def hour_ok_def valid_time_def Let_def)
qed

text \<open>A chip whose access counter advances; the flag is up for the first \<open>n\<close> accesses.\<close>

definition busy_cmos :: "nat \<Rightarrow> (u8 \<Rightarrow> u8) \<Rightarrow> nat cmos_read" where
  "busy_cmos n regs k reg = (if reg = 0x0A \<and> k < n then 0xA6 else if reg = 0x0A then 0x26 else regs reg, Suc k)"

subsection \<open>Properties\<close>

text \<open>Reading the clock returns exactly when the update flag is ever seen clear; it never hangs
  on a chip that finishes its update.\<close>

theorem read_rtc_returns:
  "(\<exists>r. read_rtc rd c = Some r) = (\<exists>n. \<not> updating rd (after_polls rd n c))"
  unfolding wait_update_total [symmetric]
  by (cases "wait_update rd c") (simp_all add: read_rtc_def split_beta Let_def)

text \<open>C27. The clock reads true: whatever mode the chip is in (BCD or binary, 24-hour or 12-hour), the
  time returned is the stored one with the full year, except that a 12-hour chip's
  midnight is read as 12 and its noon as 0.\<close>

theorem read_rtc_decodes:
  assumes "valid_time t"
    and "\<forall>c. \<forall>reg. reg \<noteq> 0x0A \<longrightarrow> fst (rd c reg) = cmos_holds register_b t reg"
    and "\<not> updating rd (after_polls rd n c)"
  shows "\<exists>c'. read_rtc rd c = Some (rtc_of_civil register_b t, c')"
proof -
  obtain c' where "wait_update rd c = Some c'" using assms(3) wait_update_total [of rd c] by blast
  then show ?thesis
    using assms(2) convert_cmos [OF assms(1), of register_b]
    by (simp add: read_rtc_def get_rtc_register_def split_beta Let_def)
       (simp add: cmos_holds_def)
qed

theorem read_rtc_decodes_witness:
  "(\<exists>c'. read_rtc (busy_cmos 3 (cmos_holds 0x02 \<lparr>c_year = 26, c_month = 2, c_day = 28, c_hour = 23,
        c_minute = 59, c_second = 7\<rparr>)) 0
      = Some (\<lparr>year = 2026, month = 2, day = 28, hour = 23, minute = 59, second = 7\<rparr>, c'))
   \<and> (\<exists>c'. read_rtc (busy_cmos 0 (cmos_holds 0x00 \<lparr>c_year = 26, c_month = 2, c_day = 28, c_hour = 12,
        c_minute = 30, c_second = 0\<rparr>)) 0
      = Some (\<lparr>year = 2026, month = 2, day = 28, hour = 0, minute = 30, second = 0\<rparr>, c'))"
proof -
  have chip: "\<forall>c. \<forall>reg. reg \<noteq> 0x0A \<longrightarrow> fst (busy_cmos n (cmos_holds b t) c reg) = cmos_holds b t reg"
    for n b t by (simp add: busy_cmos_def)
  have clear: "\<not> updating (busy_cmos n regs) (after_polls (busy_cmos n regs) n 0)" for n regs
  proof -
    have "after_polls (busy_cmos n regs) k 0 = k" for k
      by (induction k) (simp_all add: after_polls_def busy_cmos_def)
    then show ?thesis by (simp add: updating_def busy_cmos_def)
  qed
  have read: "\<exists>c'. read_rtc (busy_cmos n (cmos_holds b t)) 0 = Some (rtc_of_civil b t, c')"
    if "valid_time t" for t n b
    using read_rtc_decodes [OF that chip clear] .
  show ?thesis
    using read [where t = "\<lparr>c_year = 26, c_month = 2, c_day = 28, c_hour = 23, c_minute = 59, c_second = 7\<rparr>" and n = 3 and b = "0x02"]
      read [where t = "\<lparr>c_year = 26, c_month = 2, c_day = 28, c_hour = 12, c_minute = 30, c_second = 0\<rparr>" and n = 0 and b = "0x00"]
    by (simp add: valid_time_def rtc_of_civil_def shown_hour_def)
qed

end
