(* ===== verification/Net.thy ===== *)
theory Net
  imports Console
begin

text \<open>
  The network stack of \<^verbatim>\<open>src/src/net.rs\<close>: two interfaces with packet counters, the \<^verbatim>\<open>ping\<close>
  that answers for the stack's own addresses, and the listings. No packet is ever sent; a
  ping adds to the counters of the first interface that answers.
\<close>

subsection \<open>Addresses as text\<close>

datatype mac_address = Mac "u8 list"
datatype ipv4_addr = Ipv4 "u8 list"

text \<open>\<open>{:02x}\<close> and \<open>{}\<close> of a byte.\<close>

definition show_u8 :: "u8 \<Rightarrow> string" where
  "show_u8 b = show_nat (unat b)"

definition show_u8_hex :: "u8 \<Rightarrow> string" where
  "show_u8_hex b = pad_left (CHR ''0'') 2 (show_hex (unat b))"

fun show_mac :: "mac_address \<Rightarrow> string" where
  "show_mac (Mac bytes) = join '':'' (map show_u8_hex bytes)"

fun show_ipv4 :: "ipv4_addr \<Rightarrow> string" where
  "show_ipv4 (Ipv4 bytes) = join ''.'' (map show_u8 bytes)"

subsection \<open>The stack\<close>

record network_interface =
  if_name :: string
  mac :: mac_address
  ip :: ipv4_addr
  rx_packets :: u64
  tx_packets :: u64
  rx_bytes :: u64
  tx_bytes :: u64

definition loopback :: network_interface where
  "loopback = \<lparr>if_name = ''lo0'', mac = Mac [0, 0, 0, 0, 0, 0], ip = Ipv4 [127, 0, 0, 1],
     rx_packets = 4, tx_packets = 4, rx_bytes = 256, tx_bytes = 256\<rparr>"

definition eth0 :: network_interface where
  "eth0 = \<lparr>if_name = ''eth0'', mac = Mac [0x52, 0x54, 0x00, 0x12, 0x34, 0x56], ip = Ipv4 [192, 168, 1, 100],
     rx_packets = 12, tx_packets = 8, rx_bytes = 1420, tx_bytes = 980\<rparr>"

record network_stack =
  interfaces :: "network_interface list"

definition new_stack :: network_stack where
  "new_stack = \<lparr>interfaces = [loopback, eth0]\<rparr>"

definition count_ping :: "network_interface \<Rightarrow> network_interface res" where
  "count_ping i =
     bind_res (checked_add (tx_packets i) 4) (\<lambda>tp.
     bind_res (checked_add (rx_packets i) 4) (\<lambda>rp.
     bind_res (checked_add (tx_bytes i) 256) (\<lambda>tb.
     bind_res (checked_add (rx_bytes i) 256) (\<lambda>rb.
       Inr (i\<lparr>tx_packets := tp, rx_packets := rp, tx_bytes := tb, rx_bytes := rb\<rparr>)))))"

definition answers :: "string \<Rightarrow> network_interface \<Rightarrow> bool" where
  "answers target i = (show_ipv4 (ip i) = target \<or> target = ''127.0.0.1'' \<or> target = ''localhost'')"

fun ping_interfaces :: "string \<Rightarrow> network_interface list \<Rightarrow> (bool \<times> network_interface list) res" where
  "ping_interfaces target [] = Inr (False, [])"
| "ping_interfaces target (i # is) =
     (if answers target i then bind_res (count_ping i) (\<lambda>i. Inr (True, i # is))
      else bind_res (ping_interfaces target is) (\<lambda>(r, is). Inr (r, i # is)))"

definition stack_ping :: "network_stack \<Rightarrow> string \<Rightarrow> (bool \<times> network_stack) res" where
  "stack_ping st target =
     bind_res (ping_interfaces target (interfaces st)) (\<lambda>(r, is). Inr (r, st\<lparr>interfaces := is\<rparr>))"

subsection \<open>What the commands print\<close>

definition show_u64 :: "u64 \<Rightarrow> string" where
  "show_u64 n = show_nat (unat n)"

definition print_ifconfig :: "network_stack \<Rightarrow> out list" where
  "print_ifconfig st = concat (map (\<lambda>i.
     both_ln (if_name i @ '': flags=UP LOOPBACK RUNNING  mtu 1500'' @ lf #
       ''        inet '' @ show_ipv4 (ip i) @ ''  netmask 255.255.255.0'' @ lf #
       ''        ether '' @ show_mac (mac i) @ lf #
       ''        RX packets '' @ show_u64 (rx_packets i) @ ''  bytes '' @ show_u64 (rx_bytes i) @ lf #
       ''        TX packets '' @ show_u64 (tx_packets i) @ ''  bytes '' @ show_u64 (tx_bytes i)))
     (interfaces st))"

definition ping_reply :: "string \<Rightarrow> nat \<Rightarrow> out list" where
  "ping_reply target seq =
     both_ln (''64 bytes from '' @ target @ '': icmp_seq='' @ show_nat seq @ '' ttl=64 time=0.342 ms'')"

definition ping :: "network_stack \<Rightarrow> string \<Rightarrow> (out list \<times> network_stack) res" where
  "ping st target =
     (let header = both_ln (''PING '' @ target @ '' ('' @ target @ ''): 56 data bytes'') in
      bind_res (stack_ping st target) (\<lambda>(r, st).
        if r then
          Inr (header @ concat (map (ping_reply target) [1, 2, 3, 4])
               @ both_ln (''--- '' @ target @ '' ping statistics ---'' @ lf #
                   ''4 packets transmitted, 4 packets received, 0.0% packet loss''), st)
        else Inr (header @ both_ln (''Request timeout for icmp_seq 1 to '' @ target), st)))"

definition print_netstat :: "out list" where
  "print_netstat =
     both_ln (''Proto Recv-Q Send-Q Local Address          Foreign Address        State'' @ lf #
       ''tcp        0      0 127.0.0.1:80           0.0.0.0:*              LISTEN'' @ lf #
       ''tcp        0      0 192.168.1.100:22       192.168.1.1:54321      ESTABLISHED'' @ lf #
       ''udp        0      0 0.0.0.0:68             0.0.0.0:*'')"

subsection \<open>Addresses are told apart by their text\<close>

lemma show_u8_inj: "show_u8 a = show_u8 b \<longleftrightarrow> a = b"
  by (simp add: show_u8_def show_nat_inj word_unat_eq_iff)

lemma dot_not_in_u8: "CHR ''.'' \<notin> set (show_u8 b)"
  using show_nat_digits [of "unat b"] by (auto simp: show_u8_def is_digit_def)

lemma map_inj_eq: "(\<And>x y. f x = f y \<longleftrightarrow> x = y) \<Longrightarrow> map f xs = map f ys \<longleftrightarrow> xs = ys"
  by (meson inj_def inj_map_eq_map)

lemma show_ipv4_inj:
  assumes "xs \<noteq> []" "ys \<noteq> []" "show_ipv4 (Ipv4 xs) = show_ipv4 (Ipv4 ys)"
  shows "xs = ys"
proof -
  have "split_by (\<lambda>x. x = CHR ''.'') (join ''.'' (map show_u8 zs)) = map show_u8 zs" if "zs \<noteq> []" for zs
    using that dot_not_in_u8 by (intro split_join) auto
  with assms have "map show_u8 xs = map show_u8 ys" by (metis show_ipv4.simps)
  then show ?thesis by (simp add: map_inj_eq show_u8_inj)
qed

lemma length_show_hex: "n < 256 \<Longrightarrow> length (show_hex n) \<le> 2"
  by (subst show_hex.simps, subst show_hex.simps) auto

subsection \<open>Pinging\<close>

lemma ping_interfaces_Inr:
  "ping_interfaces target is = Inr (r, is') \<Longrightarrow>
    (r \<longleftrightarrow> (\<exists>i\<in>set is. answers target i)) \<and>
    (case position (answers target) is of
       None \<Rightarrow> is' = is
     | Some k \<Rightarrow> \<exists>i. count_ping (is ! k) = Inr i \<and> is' = is[k := i])"
proof (induction "is" arbitrary: is')
  case Nil
  then show ?case by simp
next
  case (Cons i "is")
  then show ?case
    by (cases "answers target i") (fastforce simp: bind_res_eq_Inr split: option.splits)+
qed

lemma count_ping_Inr:
  assumes "count_ping i = Inr j"
  shows "unat (tx_packets j) = unat (tx_packets i) + 4" "unat (rx_packets j) = unat (rx_packets i) + 4"
    "unat (tx_bytes j) = unat (tx_bytes i) + 256" "unat (rx_bytes j) = unat (rx_bytes i) + 256"
    "ip j = ip i" "mac j = mac i" "if_name j = if_name i"
  using assms by (auto simp: count_ping_def bind_res_eq_Inr dest!: checked_add_InrD)

text \<open>A run of pings.\<close>

primrec pings :: "string list \<Rightarrow> network_stack \<Rightarrow> network_stack res" where
  "pings [] st = Inr st"
| "pings (t # ts) st = bind_res (ping st t) (\<lambda>(_, st). pings ts st)"

definition to_loopback :: "string \<Rightarrow> bool" where
  "to_loopback t = (t = ''127.0.0.1'' \<or> t = ''localhost'')"

definition to_eth0 :: "string \<Rightarrow> bool" where
  "to_eth0 t = (t = ''192.168.1.100'')"

definition counted :: "nat \<Rightarrow> network_interface \<Rightarrow> network_interface" where
  "counted n i = i\<lparr>tx_packets := tx_packets i + of_nat (4 * n), rx_packets := rx_packets i + of_nat (4 * n),
     tx_bytes := tx_bytes i + of_nat (256 * n), rx_bytes := rx_bytes i + of_nat (256 * n)\<rparr>"

lemma show_own_ips:
  "show_ipv4 (Ipv4 [127, 0, 0, 1]) = ''127.0.0.1''" "show_ipv4 (Ipv4 [192, 168, 1, 100]) = ''192.168.1.100''"
  by code_simp+

lemma answers_lo: "ip i = Ipv4 [127, 0, 0, 1] \<Longrightarrow> answers t i \<longleftrightarrow> to_loopback t"
  by (auto simp: answers_def to_loopback_def show_own_ips simp del: show_ipv4.simps)

lemma answers_eth0: "ip i = Ipv4 [192, 168, 1, 100] \<Longrightarrow> \<not> to_loopback t \<Longrightarrow> answers t i \<longleftrightarrow> to_eth0 t"
  by (auto simp: answers_def to_loopback_def to_eth0_def show_own_ips simp del: show_ipv4.simps)

lemma small_sum: "unat a + k < 2 ^ 64 \<Longrightarrow> unat (a + of_nat k) = unat a + k" for a :: u64
proof -
  assume k: "unat a + k < 2 ^ 64"
  then have "unat (of_nat k :: u64) = k" by (subst unat_of_nat) simp
  with k show ?thesis by (simp only: unat_word_ariths(1)) simp
qed

lemma count_counted:
  assumes "n < 2 ^ 50" "unat (tx_packets i) < 2 ^ 50" "unat (rx_packets i) < 2 ^ 50"
    "unat (tx_bytes i) < 2 ^ 50" "unat (rx_bytes i) < 2 ^ 50"
  shows "count_ping (counted n i) = Inr (counted (Suc n) i)"
proof -
  have add: "checked_add (a + of_nat (k * n)) (of_nat k) = Inr (a + of_nat (k * Suc n) :: u64)"
    if "unat a < 2 ^ 50" "k \<le> 256" for a k
  proof -
    have "k * n \<le> 256 * n" by (rule mult_le_mono1) (rule that(2))
    then have kn: "k * n < 2 ^ 58" by (rule le_less_trans) (use assms(1) in simp)
    then have "unat (a + of_nat (k * n)) = unat a + k * n" using that(1) by (intro small_sum) simp
    moreover have "unat (of_nat k :: u64) = k" using that(2) by (subst unat_of_nat) simp
    moreover have "unat a + k * n + k < 2 ^ 64" using kn that by simp
    ultimately have "checked_add (a + of_nat (k * n)) (of_nat k) = Inr (a + of_nat (k * n) + of_nat k)"
      by (simp add: checked_add_Inr_iff)
    moreover have "a + of_nat (k * n) + of_nat k = a + of_nat (k * Suc n)"
      by (simp only: mult_Suc_right of_nat_add add.assoc add.commute [of "of_nat k"])
    ultimately show ?thesis by simp
  qed
  show ?thesis
    using assms(2-5) add [of _ 4] add [of _ 256] by (simp add: count_ping_def counted_def)
qed

subsection \<open>Properties\<close>

text \<open>Pings are answered for the stack's own addresses only and counted where they should be:
  after any run of pings (fewer than \<open>2 ^ 50\<close>) nothing has panicked, the loopback counters
  have grown by four packets of 64 bytes for each ping to 127.0.0.1 or localhost, those of
  eth0 for each ping to 192.168.1.100, and nothing else has changed.\<close>

theorem pings_counted:
  assumes "length ts < 2 ^ 50"
  shows "pings ts new_stack = Inr \<lparr>interfaces =
      [counted (length (filter to_loopback ts)) loopback, counted (length (filter to_eth0 ts)) eth0]\<rparr>"
proof -
  let ?st = "\<lambda>m n. \<lparr>interfaces = [counted m loopback, counted n eth0]\<rparr>"
  have ips: "ip (counted m loopback) = Ipv4 [127, 0, 0, 1]" "ip (counted n eth0) = Ipv4 [192, 168, 1, 100]" for m n
    by (simp_all add: counted_def loopback_def eth0_def)
  have lo: "count_ping (counted m loopback) = Inr (counted (Suc m) loopback)" if "m < 2 ^ 50" for m
    using that by (rule count_counted) (simp_all add: loopback_def)
  have eth: "count_ping (counted m eth0) = Inr (counted (Suc m) eth0)" if "m < 2 ^ 50" for m
    using that by (rule count_counted) (simp_all add: eth0_def)
  have "pings ts (?st m n) = Inr (?st (m + length (filter to_loopback ts)) (n + length (filter to_eth0 ts)))"
    if "m + length ts < 2 ^ 50" "n + length ts < 2 ^ 50" for m n
    using that
  proof (induction ts arbitrary: m n)
    case Nil
    then show ?case by simp
  next
    case (Cons t ts)
    have nb: "to_loopback t \<Longrightarrow> \<not> to_eth0 t" by (auto simp: to_loopback_def to_eth0_def)
    show ?case
      using Cons.prems Cons.IH [of "Suc m" n] Cons.IH [of m "Suc n"] Cons.IH [of m n] lo [of m] eth [of n] nb
      by (cases "to_loopback t"; cases "to_eth0 t")
        (simp_all add: ping_def stack_ping_def Let_def answers_lo answers_eth0 ips)
  qed
  from this [of 0 0] assms show ?thesis by (simp add: new_stack_def counted_def)
qed

theorem pings_counted_witness:
  "pings [''localhost'', ''10.0.0.1'', ''192.168.1.100'', ''127.0.0.1''] new_stack
     = Inr \<lparr>interfaces = [counted 2 loopback, counted 1 eth0]\<rparr>"
proof -
  let ?ts = "[''localhost'', ''10.0.0.1'', ''192.168.1.100'', ''127.0.0.1'']"
  have "length (filter to_loopback ?ts) = 2" "length (filter to_eth0 ?ts) = 1"
    by (simp_all add: to_loopback_def to_eth0_def)
  moreover have "length ?ts < 2 ^ 50" by simp
  ultimately show ?thesis using pings_counted [of ?ts] by (simp only:)
qed

text \<open>The text of an IPv4 address determines it, so an address typed at \<^verbatim>\<open>ping\<close> that the stack
  recognises is an interface's own; and a ping reports four replies when some interface
  answers, else one timeout and no change, on both consoles alike.\<close>

theorem ping_replies:
  assumes "ping st target = Inr (os, st')"
  shows "mirrored os
    \<and> (if \<exists>i\<in>set (interfaces st). answers target i
       then \<exists>header summary. os = header @ concat (map (ping_reply target) [1, 2, 3, 4]) @ summary
       else \<exists>header. os = header @ both_ln (''Request timeout for icmp_seq 1 to '' @ target) \<and> st' = st)
    \<and> (\<forall>i\<in>set (interfaces st). \<forall>xs ys. ip i = Ipv4 xs \<and> xs \<noteq> [] \<and> ys \<noteq> [] \<and> target = show_ipv4 (Ipv4 ys)
         \<and> \<not> to_loopback target \<longrightarrow> (answers target i \<longleftrightarrow> xs = ys))"
proof (intro conjI)
  from assms obtain r st1 where r: "stack_ping st target = Inr (r, st1)"
    by (cases "stack_ping st target") (auto simp: ping_def Let_def)
  then obtain "is" where "is": "ping_interfaces target (interfaces st) = Inr (r, is)" "st1 = st\<lparr>interfaces := is\<rparr>"
    by (auto simp: stack_ping_def bind_res_eq_Inr)
  note pi = ping_interfaces_Inr [OF "is"(1)]
  have same: "st1 = st" if "\<not> r"
  proof -
    have "position (answers target) (interfaces st) = None" using pi that by (auto simp: position_None)
    with pi "is"(2) show ?thesis by simp
  qed
  show "mirrored os"
    using assms r by (auto simp: ping_def ping_reply_def Let_def mirrored_def both_ln_def both_def split: if_splits)
  show "if \<exists>i\<in>set (interfaces st). answers target i
       then \<exists>header summary. os = header @ concat (map (ping_reply target) [1, 2, 3, 4]) @ summary
       else \<exists>header. os = header @ both_ln (''Request timeout for icmp_seq 1 to '' @ target) \<and> st' = st"
    using assms r pi same by (auto simp: ping_def Let_def split: if_splits)
  show "\<forall>i\<in>set (interfaces st). \<forall>xs ys. ip i = Ipv4 xs \<and> xs \<noteq> [] \<and> ys \<noteq> [] \<and> target = show_ipv4 (Ipv4 ys)
         \<and> \<not> to_loopback target \<longrightarrow> (answers target i \<longleftrightarrow> xs = ys)"
    using show_ipv4_inj by (auto simp: answers_def to_loopback_def simp del: show_ipv4.simps)
qed

theorem ping_replies_witness:
  "\<exists>os. ping new_stack ''10.0.0.1'' = Inr (os, new_stack)
     \<and> (\<exists>header. os = header @ both_ln (''Request timeout for icmp_seq 1 to '' @ ''10.0.0.1''))"
proof -
  have no: "\<not> (\<exists>i\<in>set (interfaces new_stack). answers ''10.0.0.1'' i)"
    by (auto simp: new_stack_def answers_lo answers_eth0 loopback_def eth0_def to_loopback_def to_eth0_def)
  then have "is_ok (ping new_stack ''10.0.0.1'')"
    by (simp add: ping_def stack_ping_def new_stack_def Let_def)
  then obtain os st' where "ping new_stack ''10.0.0.1'' = Inr (os, st')" by (auto simp: is_ok_iff)
  with ping_replies [OF this] no show ?thesis by auto
qed

end
