(* ===== verification/Driver.thy ===== *)
theory Driver
  imports Console
begin

text \<open>
  The driver model of \<^verbatim>\<open>src/src/driver.rs\<close>. The traits \<^verbatim>\<open>Driver\<close> and \<^verbatim>\<open>BlockDevice\<close> are locales,
  the second extending the first; what their users rely on is proved in them, and the RAM
  disk and the display driver interpret them. A boxed driver is a value of the datatype
  \<open>driver\<close>, with the method calls dispatched by its constructor.
\<close>

subsection \<open>The two drivers\<close>

record ram_disk_driver =
  rd_name :: string
  blocks :: "u8 list list"
  rd_block_size :: nat
  rd_status :: string

definition ram_disk_new :: "nat \<Rightarrow> nat \<Rightarrow> ram_disk_driver" where
  "ram_disk_new count sz =
     \<lparr>rd_name = ''ramdisk0'', blocks = replicate count (replicate sz 0), rd_block_size = sz,
      rd_status = ''active''\<rparr>"

definition rd_device_type :: "ram_disk_driver \<Rightarrow> string" where
  "rd_device_type d = ''Storage (Block Device)''"

definition rd_init :: "ram_disk_driver \<Rightarrow> bool \<times> ram_disk_driver" where
  "rd_init d = (True, d\<lparr>rd_status := ''ready''\<rparr>)"

definition rd_block_count :: "ram_disk_driver \<Rightarrow> nat" where
  "rd_block_count d = length (blocks d)"

text \<open>\<^verbatim>\<open>copy_from_slice\<close> panics when the lengths differ.\<close>

definition copy_from_slice :: "'a list \<Rightarrow> 'a list \<Rightarrow> 'a list res" where
  "copy_from_slice dst src =
     (if length dst = length src then Inr src
      else Inl (Panic ''copy_from_slice: source slice length does not match destination slice length''))"

text \<open>\<open>read_block\<close> returns the result with the caller's buffer, \<open>write_block\<close> with the driver.\<close>

definition rd_read_block :: "ram_disk_driver \<Rightarrow> nat \<Rightarrow> u8 list \<Rightarrow> (bool \<times> u8 list) res" where
  "rd_read_block d block_id buf =
     (if block_id < length (blocks d) \<and> length buf \<ge> rd_block_size d then
        bind_res (copy_from_slice (take (rd_block_size d) buf) (blocks d ! block_id)) (\<lambda>front.
          Inr (True, front @ drop (rd_block_size d) buf))
      else Inr (False, buf))"

definition rd_write_block :: "ram_disk_driver \<Rightarrow> nat \<Rightarrow> u8 list \<Rightarrow> (bool \<times> ram_disk_driver) res" where
  "rd_write_block d block_id buf =
     (if block_id < length (blocks d) \<and> length buf \<ge> rd_block_size d then
        bind_res (copy_from_slice (blocks d ! block_id) (take (rd_block_size d) buf)) (\<lambda>block.
          Inr (True, d\<lparr>blocks := (blocks d)[block_id := block]\<rparr>))
      else Inr (False, d))"

record framebuffer_display_driver =
  fd_name :: string
  fd_status :: string

definition framebuffer_new :: framebuffer_display_driver where
  "framebuffer_new = \<lparr>fd_name = ''gop-graphics'', fd_status = ''ready''\<rparr>"

definition fd_device_type :: "framebuffer_display_driver \<Rightarrow> string" where
  "fd_device_type d = ''Graphics (GOP Framebuffer)''"

definition fd_init :: "framebuffer_display_driver \<Rightarrow> bool \<times> framebuffer_display_driver" where
  "fd_init d = (True, d\<lparr>fd_status := ''active''\<rparr>)"

definition fd_width :: "framebuffer_display_driver \<Rightarrow> nat" where "fd_width d = 1024"
definition fd_height :: "framebuffer_display_driver \<Rightarrow> nat" where "fd_height d = 768"

subsection \<open>The manager\<close>

datatype driver = Ram_Disk ram_disk_driver | Framebuffer_Display framebuffer_display_driver

fun driver_name :: "driver \<Rightarrow> string" where
  "driver_name (Ram_Disk d) = rd_name d"
| "driver_name (Framebuffer_Display d) = fd_name d"

fun driver_type :: "driver \<Rightarrow> string" where
  "driver_type (Ram_Disk d) = rd_device_type d"
| "driver_type (Framebuffer_Display d) = fd_device_type d"

fun driver_init :: "driver \<Rightarrow> bool \<times> driver" where
  "driver_init (Ram_Disk d) = map_prod id Ram_Disk (rd_init d)"
| "driver_init (Framebuffer_Display d) = map_prod id Framebuffer_Display (fd_init d)"

fun driver_status :: "driver \<Rightarrow> string" where
  "driver_status (Ram_Disk d) = rd_status d"
| "driver_status (Framebuffer_Display d) = fd_status d"

record driver_manager =
  drivers :: "driver list"

definition register :: "driver \<Rightarrow> driver_manager \<Rightarrow> driver_manager" where
  "register d mgr = mgr\<lparr>drivers := drivers mgr @ [d]\<rparr>"

definition new_manager :: driver_manager where
  "new_manager =
     register (Framebuffer_Display framebuffer_new)
       (register (Ram_Disk (ram_disk_new 128 512)) \<lparr>drivers = []\<rparr>)"

definition list_drivers :: "driver_manager \<Rightarrow> (string \<times> string \<times> string) list" where
  "list_drivers mgr = map (\<lambda>d. (driver_name d, driver_type d, driver_status d)) (drivers mgr)"

definition print_drivers :: "driver_manager \<Rightarrow> out list" where
  "print_drivers mgr =
     (let entries = list_drivers mgr in
      both_ln (''Registered Drivers ('' @ show_nat (length entries) @ ''):'')
      @ concat (map (\<lambda>(name, dev_type, status).
          both_ln (''  '' @ pad_right (CHR '' '') 14 name @ '' ['' @ pad_right (CHR '' '') 24 dev_type
            @ ''] Status: '' @ status)) entries))"

subsection \<open>The traits\<close>

locale driver_trait =
  fixes name :: "'d \<Rightarrow> string"
    and device_type :: "'d \<Rightarrow> string"
    and init :: "'d \<Rightarrow> bool \<times> 'd"
    and status :: "'d \<Rightarrow> string"
  assumes init_name: "name (snd (init d)) = name d"
    and init_type: "device_type (snd (init d)) = device_type d"
    and init_succeeds: "fst (init d)"
    and init_again: "snd (init (snd (init d))) = snd (init d)"
begin

lemma init_status_stable: "status (snd (init (snd (init d)))) = status (snd (init d))"
  by (simp add: init_again)

end

text \<open>A run of write requests, and the last one of a run that a block accepts, for blocks of size
  \<open>sz\<close> on a device with \<open>cnt\<close> of them.\<close>

primrec write_all :: "('d \<Rightarrow> nat \<Rightarrow> u8 list \<Rightarrow> (bool \<times> 'd) res) \<Rightarrow> (nat \<times> u8 list) list \<Rightarrow> 'd \<Rightarrow> 'd res" where
  "write_all write [] d = Inr d"
| "write_all write (w # ws) d = bind_res (write d (fst w) (snd w)) (\<lambda>(_, d). write_all write ws d)"

fun last_write :: "nat \<Rightarrow> nat \<Rightarrow> nat \<Rightarrow> (nat \<times> u8 list) list \<Rightarrow> u8 list option" where
  "last_write sz cnt i [] = None"
| "last_write sz cnt i (w # ws) =
     (case last_write sz cnt i ws of
        Some b \<Rightarrow> Some b
      | None \<Rightarrow> if fst w = i \<and> i < cnt \<and> sz \<le> length (snd w) then Some (take sz (snd w)) else None)"

text \<open>A block device: what a successful write stores is what a read returns, until the same block
  is written again; a request out of range or with a short buffer changes nothing.\<close>

locale block_device = driver_trait name device_type init status
  for name :: "'d \<Rightarrow> string" and device_type :: "'d \<Rightarrow> string"
    and init :: "'d \<Rightarrow> bool \<times> 'd" and status :: "'d \<Rightarrow> string" +
  fixes block_size :: "'d \<Rightarrow> nat"
    and block_count :: "'d \<Rightarrow> nat"
    and read_block :: "'d \<Rightarrow> nat \<Rightarrow> u8 list \<Rightarrow> (bool \<times> u8 list) res"
    and write_block :: "'d \<Rightarrow> nat \<Rightarrow> u8 list \<Rightarrow> (bool \<times> 'd) res"
    and ok :: "'d \<Rightarrow> bool"
    and content :: "'d \<Rightarrow> nat \<Rightarrow> u8 list"
  assumes content_size: "ok d \<Longrightarrow> i < block_count d \<Longrightarrow> length (content d i) = block_size d"
    and read_spec: "ok d \<Longrightarrow> read_block d i buf =
      Inr (if i < block_count d \<and> block_size d \<le> length buf
           then (True, content d i @ drop (block_size d) buf) else (False, buf))"
    and write_spec: "ok d \<Longrightarrow> \<exists>d'. write_block d i buf = Inr (i < block_count d \<and> block_size d \<le> length buf, d')
      \<and> ok d' \<and> block_size d' = block_size d \<and> block_count d' = block_count d
      \<and> (\<forall>j. content d' j = (if j = i \<and> i < block_count d \<and> block_size d \<le> length buf
                              then take (block_size d) buf else content d j))"
begin

lemma writes_content:
  assumes "ok d"
  shows "\<exists>d'. write_all write_block ws d = Inr d' \<and> ok d' \<and> block_size d' = block_size d \<and> block_count d' = block_count d
    \<and> (\<forall>i. content d' i = (case last_write (block_size d) (block_count d) i ws of
                             Some b \<Rightarrow> b | None \<Rightarrow> content d i))"
  using assms
proof (induction ws arbitrary: d)
  case Nil
  then show ?case by simp
next
  case (Cons w ws)
  from write_spec [OF Cons.prems, of "fst w" "snd w"] obtain r d1 where
    d1: "write_block d (fst w) (snd w) = Inr (r, d1)" "ok d1" "block_size d1 = block_size d"
      "block_count d1 = block_count d"
      "\<And>j. content d1 j = (if j = fst w \<and> fst w < block_count d \<and> block_size d \<le> length (snd w)
                            then take (block_size d) (snd w) else content d j)"
    by blast
  from Cons.IH [OF d1(2)] obtain d' where
    d': "write_all write_block ws d1 = Inr d'" "ok d'" "block_size d' = block_size d" "block_count d' = block_count d"
      "\<And>i. content d' i = (case last_write (block_size d) (block_count d) i ws of
                             Some b \<Rightarrow> b | None \<Rightarrow> content d1 i)"
    by (auto simp: d1(3,4))
  have "content d' i = (case last_write (block_size d) (block_count d) i (w # ws) of
      Some b \<Rightarrow> b | None \<Rightarrow> content d i)" for i
    by (simp add: d'(5) d1(5) split: option.split)
  with d' d1(1) show ?case by simp
qed

lemma read_after_writes:
  assumes "ok d" "i < block_count d" "length buf = block_size d"
  shows "\<exists>d'. write_all write_block ws d = Inr d' \<and> read_block d' i buf =
    Inr (True, case last_write (block_size d) (block_count d) i ws of Some b \<Rightarrow> b | None \<Rightarrow> content d i)"
proof -
  from writes_content [OF assms(1), of ws] obtain d' where d': "write_all write_block ws d = Inr d'" "ok d'"
      "block_size d' = block_size d" "block_count d' = block_count d"
      "\<And>i. content d' i = (case last_write (block_size d) (block_count d) i ws of
                             Some b \<Rightarrow> b | None \<Rightarrow> content d i)"
    by blast
  have "read_block d' i buf = Inr (True, content d' i)"
    using read_spec [OF d'(2), of i buf] assms(2,3) by (simp add: d'(3,4))
  with d'(1,5) show ?thesis by simp
qed

end

subsection \<open>The drivers implement them\<close>

definition ram_disk_ok :: "ram_disk_driver \<Rightarrow> bool" where
  "ram_disk_ok d = (\<forall>b\<in>set (blocks d). length b = rd_block_size d)"

lemma ram_disk_ok_new: "ram_disk_ok (ram_disk_new count sz)"
  by (simp add: ram_disk_ok_def ram_disk_new_def)

interpretation ram_disk: block_device rd_name rd_device_type rd_init rd_status
  rd_block_size rd_block_count rd_read_block rd_write_block ram_disk_ok "\<lambda>d i. blocks d ! i"
proof
  fix d :: ram_disk_driver and i and buf :: "u8 list"
  show "rd_name (snd (rd_init d)) = rd_name d" "rd_device_type (snd (rd_init d)) = rd_device_type d"
    "fst (rd_init d)" "snd (rd_init (snd (rd_init d))) = snd (rd_init d)"
    by (simp_all add: rd_init_def rd_device_type_def)
  assume ok: "ram_disk_ok d"
  show "length (blocks d ! i) = rd_block_size d" if "i < rd_block_count d"
    using ok that by (simp add: ram_disk_ok_def rd_block_count_def)
  show "rd_read_block d i buf =
      Inr (if i < rd_block_count d \<and> rd_block_size d \<le> length buf
           then (True, blocks d ! i @ drop (rd_block_size d) buf) else (False, buf))"
    using ok by (simp add: rd_read_block_def rd_block_count_def copy_from_slice_def ram_disk_ok_def)
  show "\<exists>d'. rd_write_block d i buf = Inr (i < rd_block_count d \<and> rd_block_size d \<le> length buf, d')
      \<and> ram_disk_ok d' \<and> rd_block_size d' = rd_block_size d \<and> rd_block_count d' = rd_block_count d
      \<and> (\<forall>j. blocks d' ! j = (if j = i \<and> i < rd_block_count d \<and> rd_block_size d \<le> length buf
                              then take (rd_block_size d) buf else blocks d ! j))"
    using ok set_update_subset_insert [of "blocks d" i "take (rd_block_size d) buf"]
    by (auto simp: rd_write_block_def rd_block_count_def copy_from_slice_def ram_disk_ok_def)
qed

interpretation display: driver_trait fd_name fd_device_type fd_init fd_status
  by unfold_locales (simp_all add: fd_init_def fd_device_type_def)

interpretation any_driver: driver_trait driver_name driver_type driver_init driver_status
proof
  fix d
  show "driver_name (snd (driver_init d)) = driver_name d" "driver_type (snd (driver_init d)) = driver_type d"
    "fst (driver_init d)" "snd (driver_init (snd (driver_init d))) = snd (driver_init d)"
    by (cases d; simp add: rd_init_def fd_init_def rd_device_type_def fd_device_type_def)+
qed

subsection \<open>Properties\<close>

text \<open>C29. The RAM disk stores: after any run of write requests, none of which panics, reading a block
  gives the front of the last buffer it accepted, or the zeros it started with; requests out
  of range or with short buffers change nothing, and a larger read buffer keeps its tail.\<close>

theorem ram_disk_stores:
  assumes "i < count" "sz \<le> length buf"
  shows "\<exists>d. write_all rd_write_block ws (ram_disk_new count sz) = Inr d
    \<and> rd_read_block d i buf =
        Inr (True, (case last_write sz count i ws of Some b \<Rightarrow> b | None \<Rightarrow> replicate sz 0) @ drop sz buf)"
proof -
  let ?new = "ram_disk_new count sz"
  have new: "rd_block_size ?new = sz" "rd_block_count ?new = count" "blocks ?new ! i = replicate sz 0"
    using assms(1) by (simp_all add: ram_disk_new_def rd_block_count_def)
  from ram_disk.writes_content [OF ram_disk_ok_new [of count sz], of ws] obtain d where
    d: "write_all rd_write_block ws ?new = Inr d" "ram_disk_ok d" "rd_block_size d = sz" "rd_block_count d = count"
      "blocks d ! i = (case last_write sz count i ws of Some b \<Rightarrow> b | None \<Rightarrow> blocks ?new ! i)"
    unfolding new(1,2) by blast
  with ram_disk.read_spec [OF d(2), of i buf] assms show ?thesis by (simp add: new(3) split: option.split)
qed

theorem ram_disk_stores_witness:
  "\<exists>d. write_all rd_write_block [(1, [7, 8, 9]), (5, [1, 1]), (1, [2])] (ram_disk_new 4 2) = Inr d
     \<and> rd_read_block d 1 [0, 0, 5] = Inr (True, [7, 8, 5])"
  using ram_disk_stores [of 1 4 2 "[0, 0, 5]" "[(1, [7, 8, 9]), (5, [1, 1]), (1, [2])]"] by simp

text \<open>The manager lists every registered driver, in order of registration, with its type and
  status; initialising a driver changes neither its name nor its type, always succeeds, and
  a second time changes nothing.\<close>

theorem drivers_listed:
  "list_drivers (fold register ds new_manager) =
     (''ramdisk0'', ''Storage (Block Device)'', ''active'')
     # (''gop-graphics'', ''Graphics (GOP Framebuffer)'', ''ready'')
     # map (\<lambda>d. (driver_name d, driver_type d, driver_status d)) ds
   \<and> fst (driver_init d) \<and> driver_name (snd (driver_init d)) = driver_name d
   \<and> driver_type (snd (driver_init d)) = driver_type d
   \<and> driver_init (snd (driver_init d)) = driver_init d"
proof -
  have "drivers (fold register ds mgr) = drivers mgr @ ds" for mgr
    by (induction ds arbitrary: mgr) (simp_all add: register_def)
  then have "list_drivers (fold register ds new_manager) =
     (''ramdisk0'', ''Storage (Block Device)'', ''active'')
     # (''gop-graphics'', ''Graphics (GOP Framebuffer)'', ''ready'')
     # map (\<lambda>d. (driver_name d, driver_type d, driver_status d)) ds"
    by (simp add: list_drivers_def new_manager_def register_def ram_disk_new_def framebuffer_new_def
        rd_device_type_def fd_device_type_def)
  moreover have "driver_init (snd (driver_init d)) = driver_init d"
    by (rule prod_eqI) (simp_all add: any_driver.init_succeeds any_driver.init_again)
  ultimately show ?thesis
    by (simp add: any_driver.init_succeeds any_driver.init_name any_driver.init_type)
qed

end
