(* ===== verification/Process_Memory.thy ===== *)
theory Process_Memory
  imports Console
begin

text \<open>
  The address spaces of \<^verbatim>\<open>src/src/process_memory.rs\<close>. The address types of the \<^verbatim>\<open>x86_64\<close> crate
  are parameters: \<open>virt_addr\<close> and \<open>frame_of\<close> construct a virtual address and the frame
  containing a physical one (panicking on an address that is not canonical, or beyond the
  physical range), \<open>virt_u64\<close> and \<open>frame_start\<close> read them back. What the code relies on is
  the locale \<open>address_types\<close>.
\<close>

record ('v, 'f) address_space =
  pid :: nat
  space_name :: string
  cr3_frame :: 'f
  code_range :: "'v \<times> 'v"
  stack_range :: "'v \<times> 'v"
  heap_range :: "'v \<times> 'v"
  isolated :: bool

definition virt_range :: "(u64 \<Rightarrow> 'v res) \<Rightarrow> u64 \<Rightarrow> u64 \<Rightarrow> ('v \<times> 'v) res" where
  "virt_range virt_addr a b =
     bind_res (virt_addr a) (\<lambda>x. bind_res (virt_addr b) (\<lambda>y. Inr (x, y)))"

definition create_kernel_space ::
  "(u64 \<Rightarrow> 'v res) \<Rightarrow> (u64 \<Rightarrow> 'f res) \<Rightarrow> ('v, 'f) address_space res" where
  "create_kernel_space virt_addr frame_of =
     bind_res (frame_of 0x1000) (\<lambda>cr3.
     bind_res (virt_range virt_addr 0x200000 0x400000) (\<lambda>code.
     bind_res (virt_range virt_addr 0x800000 0x900000) (\<lambda>stack.
     bind_res (virt_range virt_addr 0x444444440000 0x444444480000) (\<lambda>heap.
       Inr \<lparr>pid = 0, space_name = ''kernel'', cr3_frame = cr3, code_range = code, stack_range = stack,
            heap_range = heap, isolated = False\<rparr>))))"

text \<open>\<^verbatim>\<open>pid as u64\<close> is \<open>of_nat\<close>; the sums and products are checked.\<close>

definition create_user_space ::
  "(u64 \<Rightarrow> 'v res) \<Rightarrow> (u64 \<Rightarrow> 'f res) \<Rightarrow> nat \<Rightarrow> string \<Rightarrow> ('v, 'f) address_space res" where
  "create_user_space virt_addr frame_of p name =
     bind_res (checked_mul (of_nat p) 0x10000000) (\<lambda>off.
     bind_res (checked_add 0x100000000 off) (\<lambda>base.
     bind_res (checked_mul (of_nat p) 0x1000) (\<lambda>page.
     bind_res (checked_add 0x2000 page) (\<lambda>table.
     bind_res (frame_of table) (\<lambda>cr3.
     bind_res (checked_add base 0x200000) (\<lambda>code_end.
     bind_res (virt_range virt_addr base code_end) (\<lambda>code.
     bind_res (checked_add base 0x7FF00000) (\<lambda>stack_start.
     bind_res (checked_add base 0x80000000) (\<lambda>stack_end.
     bind_res (virt_range virt_addr stack_start stack_end) (\<lambda>stack.
     bind_res (checked_add base 0x400000) (\<lambda>heap_start.
     bind_res (checked_add base 0x800000) (\<lambda>heap_end.
     bind_res (virt_range virt_addr heap_start heap_end) (\<lambda>heap.
       Inr \<lparr>pid = p, space_name = name, cr3_frame = cr3, code_range = code, stack_range = stack,
            heap_range = heap, isolated = True\<rparr>)))))))))))))"

record ('v, 'f) memory_manager =
  spaces :: "('v, 'f) address_space list"

definition new_memory_manager ::
  "(u64 \<Rightarrow> 'v res) \<Rightarrow> (u64 \<Rightarrow> 'f res) \<Rightarrow> ('v, 'f) memory_manager res" where
  "new_memory_manager virt_addr frame_of =
     bind_res (create_kernel_space virt_addr frame_of) (\<lambda>kernel.
     bind_res (create_user_space virt_addr frame_of 1 ''init'') (\<lambda>proc.
     bind_res (create_user_space virt_addr frame_of 2 ''shell'') (\<lambda>shell.
       Inr \<lparr>spaces = [kernel, proc, shell]\<rparr>)))"

definition print_vmap :: "('v \<Rightarrow> u64) \<Rightarrow> ('f \<Rightarrow> u64) \<Rightarrow> ('v, 'f) memory_manager \<Rightarrow> out list" where
  "print_vmap virt_u64 frame_start mm =
     both_ln ''PID NAME      CR3 FRAME          VIRTUAL MEMORY RANGES                    ISOLATION''
     @ concat (map (\<lambda>space.
         both_ln (pad_left (CHR '' '') 3 (show_nat (pid space)) @ '' ''
           @ pad_right (CHR '' '') 9 (space_name space) @ '' ''
           @ show_hex_alt0 14 (unat (frame_start (cr3_frame space)))
           @ '' Code: '' @ show_hex_alt (unat (virt_u64 (fst (code_range space))))
           @ '' Stack: '' @ show_hex_alt (unat (virt_u64 (fst (stack_range space)))) @ '' ''
           @ (if isolated space then ''[ISOLATED USER MAPPING]'' else ''[SHARED KERNEL MAPPING]'')))
       (spaces mm))"

subsection \<open>The address types\<close>

definition range_nats :: "('v \<Rightarrow> u64) \<Rightarrow> 'v \<times> 'v \<Rightarrow> nat \<times> nat" where
  "range_nats virt_u64 r = (unat (virt_u64 (fst r)), unat (virt_u64 (snd r)))"

text \<open>The layout of a space, as numbers: its three ranges and its page-table frame.\<close>

definition layout :: "('v \<Rightarrow> u64) \<Rightarrow> ('f \<Rightarrow> u64) \<Rightarrow> ('v, 'f) address_space \<Rightarrow> (nat \<times> nat) list \<times> nat" where
  "layout virt_u64 frame_start s =
     (map (range_nats virt_u64) [code_range s, stack_range s, heap_range s], unat (frame_start (cr3_frame s)))"

definition user_base :: "nat \<Rightarrow> nat" where
  "user_base p = 0x100000000 + p * 0x10000000"

definition user_layout :: "nat \<Rightarrow> (nat \<times> nat) list \<times> nat" where
  "user_layout p = (let b = user_base p in
     ([(b, b + 0x200000), (b + 0x7FF00000, b + 0x80000000), (b + 0x400000, b + 0x800000)], 0x2000 + p * 0x1000))"

definition kernel_layout :: "(nat \<times> nat) list \<times> nat" where
  "kernel_layout =
     ([(0x200000, 0x400000), (0x800000, 0x900000), (0x444444440000, 0x444444480000)], 0x1000)"

locale address_types =
  fixes virt_addr :: "u64 \<Rightarrow> 'v res" and virt_u64 :: "'v \<Rightarrow> u64"
    and frame_of :: "u64 \<Rightarrow> 'f res" and frame_start :: "'f \<Rightarrow> u64"
  assumes virt_canonical: "unat a < 2 ^ 47 \<Longrightarrow> \<exists>v. virt_addr a = Inr v \<and> virt_u64 v = a"
    and frame_physical: "unat a < 2 ^ 52 \<Longrightarrow>
      \<exists>f. frame_of a = Inr f \<and> unat (frame_start f) = unat a div 4096 * 4096"
begin

lemma virt_range_ok:
  "unat a < 2 ^ 47 \<Longrightarrow> unat b < 2 ^ 47 \<Longrightarrow>
    \<exists>r. virt_range virt_addr a b = Inr r \<and> range_nats virt_u64 r = (unat a, unat b)"
  using virt_canonical [of a] virt_canonical [of b] by (auto simp: virt_range_def range_nats_def)

lemma kernel_space_ok:
  "\<exists>s. create_kernel_space virt_addr frame_of = Inr s \<and> layout virt_u64 frame_start s = kernel_layout
     \<and> pid s = 0 \<and> space_name s = ''kernel'' \<and> \<not> isolated s"
proof -
  obtain f where f: "frame_of 0x1000 = Inr f" "unat (frame_start f) = 0x1000"
    using frame_physical [of "0x1000"] by auto
  obtain c where c: "virt_range virt_addr 0x200000 0x400000 = Inr c" "range_nats virt_u64 c = (0x200000, 0x400000)"
    using virt_range_ok [of "0x200000" "0x400000"] by auto
  obtain t where t: "virt_range virt_addr 0x800000 0x900000 = Inr t" "range_nats virt_u64 t = (0x800000, 0x900000)"
    using virt_range_ok [of "0x800000" "0x900000"] by auto
  obtain h where h: "virt_range virt_addr 0x444444440000 0x444444480000 = Inr h"
      "range_nats virt_u64 h = (0x444444440000, 0x444444480000)"
    using virt_range_ok [of "0x444444440000" "0x444444480000"] by auto
  show ?thesis by (simp add: create_kernel_space_def f c t h layout_def kernel_layout_def)
qed

lemma user_space_ok:
  assumes "p < 2 ^ 18"
  shows "\<exists>s. create_user_space virt_addr frame_of p nm = Inr s \<and> layout virt_u64 frame_start s = user_layout p
     \<and> pid s = p \<and> space_name s = nm \<and> isolated s"
proof -
  have p: "unat (of_nat p :: u64) = p" using assms by (subst unat_of_nat) simp
  have ck: "checked_mul (of_nat p) k = Inr (of_nat p * k)" "unat (of_nat p * k) = p * unat k"
    if "unat k \<le> 0x10000000" for k :: u64
  proof -
    have "p * unat k \<le> 2 ^ 18 * 0x10000000" using assms that by (intro mult_le_mono) simp_all
    then show *: "checked_mul (of_nat p) k = Inr (of_nat p * k)" by (simp add: checked_mul_Inr_iff p)
    show "unat (of_nat p * k) = p * unat k" using checked_mul_InrD [OF *] p by simp
  qed
  obtain off :: u64 where off: "checked_mul (of_nat p) 0x10000000 = Inr off" "unat off = p * 0x10000000"
    using ck [of "0x10000000"] by auto
  obtain page :: u64 where page: "checked_mul (of_nat p) 0x1000 = Inr page" "unat page = p * 0x1000"
    using ck [of "0x1000"] by auto
  obtain b :: u64 where base: "checked_add 0x100000000 off = Inr b" and b: "unat b = user_base p"
  proof -
    have *: "checked_add 0x100000000 off = Inr (0x100000000 + off)"
      using assms off(2) by (simp add: checked_add_Inr_iff)
    with checked_add_InrD [OF *] off(2) that show thesis by (simp add: user_base_def)
  qed
  obtain table :: u64 where table: "checked_add 0x2000 page = Inr table" and table_n: "unat table = 0x2000 + p * 0x1000"
  proof -
    have *: "checked_add 0x2000 page = Inr (0x2000 + page)"
      using assms page(2) by (simp add: checked_add_Inr_iff)
    with checked_add_InrD [OF *] page(2) that show thesis by simp
  qed
  have b_lt: "user_base p < 2 ^ 46 + 2 ^ 33" using assms by (simp add: user_base_def)
  have plus: "checked_add b k = Inr (b + k)" "unat (b + k) = user_base p + unat k" if "unat k \<le> 0x80000000" for k
  proof -
    show *: "checked_add b k = Inr (b + k)" using that b b_lt by (simp add: checked_add_Inr_iff)
    show "unat (b + k) = user_base p + unat k" using checked_add_InrD [OF *] b by simp
  qed
  have rng: "\<exists>r. virt_range virt_addr (b + j) (b + k) = Inr r
      \<and> range_nats virt_u64 r = (user_base p + unat j, user_base p + unat k)"
    if "unat j \<le> 0x80000000" "unat k \<le> 0x80000000" for j k
    using virt_range_ok [of "b + j" "b + k"] plus(2) [OF that(1)] plus(2) [OF that(2)] b_lt that by simp
  obtain f where f: "frame_of table = Inr f" "unat (frame_start f) = 0x2000 + p * 0x1000"
    using frame_physical [of table] assms table_n by auto
  obtain c where c: "virt_range virt_addr b (b + 0x200000) = Inr c"
      "range_nats virt_u64 c = (user_base p, user_base p + 0x200000)"
    using rng [of 0 "0x200000"] by auto
  obtain t where t: "virt_range virt_addr (b + 0x7FF00000) (b + 0x80000000) = Inr t"
      "range_nats virt_u64 t = (user_base p + 0x7FF00000, user_base p + 0x80000000)"
    using rng [of "0x7FF00000" "0x80000000"] by auto
  obtain h where h: "virt_range virt_addr (b + 0x400000) (b + 0x800000) = Inr h"
      "range_nats virt_u64 h = (user_base p + 0x400000, user_base p + 0x800000)"
    using rng [of "0x400000" "0x800000"] by auto
  show ?thesis
    by (simp add: create_user_space_def off(1) base page(1) table f c t h plus(1) layout_def user_layout_def Let_def)
qed

end

text \<open>Ranges of different spaces do not meet.\<close>

definition apart :: "nat \<times> nat \<Rightarrow> nat \<times> nat \<Rightarrow> bool" where
  "apart r q = (snd r \<le> fst q \<or> snd q \<le> fst r)"

lemma user_layouts_apart:
  assumes "p < q"
  shows "\<forall>r\<in>set (fst (user_layout p)). \<forall>s\<in>set (fst (user_layout q)). apart r s"
proof -
  obtain k where k: "q = p + Suc k" using assms less_iff_Suc_add by auto
  have q: "user_base q = user_base p + 0x10000000 + k * 0x10000000" by (simp add: user_base_def k)
  have "k = 0 \<or> k = 1 \<or> k = 2 \<or> k = 3 \<or> k = 4 \<or> k = 5 \<or> k = 6 \<or> 7 \<le> k" by arith
  then show ?thesis
    by (elim disjE) (auto simp: user_layout_def apart_def q Let_def)
qed

lemma kernel_user_apart:
  "\<forall>r\<in>set (fst kernel_layout). \<forall>s\<in>set (fst (user_layout p)). apart r s"
proof -
  consider (below) k where "0x44434 = p + Suc k" | (at) "p = 0x44434" | (above) k where "p = 0x44434 + Suc k"
    by (metis less_iff_Suc_add linorder_neqE_nat add_Suc_right)
  then show ?thesis
  proof cases
    case below
    then have h: "user_base p + 0x10000000 + k * 0x10000000 = 0x444440000000" by (simp add: user_base_def)
    have "k = 0 \<or> k = 1 \<or> k = 2 \<or> k = 3 \<or> k = 4 \<or> k = 5 \<or> k = 6 \<or> 7 \<le> k" by arith
    then show ?thesis
      using h by (elim disjE) (auto simp: kernel_layout_def user_layout_def apart_def Let_def, (simp add: user_base_def)+)
  next
    case at
    then show ?thesis by (simp add: kernel_layout_def user_layout_def apart_def Let_def user_base_def)
  next
    case above
    then show ?thesis by (simp add: kernel_layout_def user_layout_def apart_def Let_def user_base_def)
  qed
qed

lemma overflow_pid:
  assumes "2 ^ 36 \<le> p" "p < 2 ^ 64"
  shows "create_user_space virt_addr frame_of p nm = Inl (Panic ''attempt to multiply with overflow'')"
proof -
  have "unat (of_nat p :: u64) = p" using assms(2) by (subst unat_of_nat) simp
  moreover have "\<not> p * 0x10000000 < 2 ^ 64" using assms(1) by simp
  ultimately have "\<not> uint (of_nat p :: u64) * uint (0x10000000 :: u64) < 2 ^ LENGTH(64)"
    by (subst uint_fits_mul) simp
  then show ?thesis by (simp add: create_user_space_def checked_mul_def)
qed

text \<open>The crate's types as numbers: canonical addresses of the lower half, frames as page
  numbers.\<close>

definition lower_half :: "u64 \<Rightarrow> u64 res" where
  "lower_half a = (if a < 0x800000000000 then Inr a else Inl (Panic ''address passed to VirtAddr::new must be canonical''))"

definition frame_number :: "u64 \<Rightarrow> u64 res" where
  "frame_number a = (if a < 0x10000000000000 then Inr (a div 4096) else Inl (Panic ''invalid physical address''))"

interpretation numbers: address_types lower_half "\<lambda>v. v" frame_number "\<lambda>f. f * 4096"
proof
  fix a :: u64
  show "\<exists>v. lower_half a = Inr v \<and> v = a" if "unat a < 2 ^ 47"
    using that by (simp add: lower_half_def word_less_nat_alt)
  show "\<exists>f. frame_number a = Inr f \<and> unat (f * 4096) = unat a div 4096 * 4096" if "unat a < 2 ^ 52"
  proof -
    have "unat a div 4096 * 4096 < 2 ^ 64"
      by (rule le_less_trans [of _ "unat a"]) (use that in simp_all)
    with that show ?thesis
      by (simp add: frame_number_def word_less_nat_alt unat_word_ariths unat_div)
  qed
qed

subsection \<open>Properties\<close>

text \<open>C31. Address spaces are isolated: for any two process ids below \<open>2 ^ 18\<close> both spaces are built
  without a panic, no code, stack or heap range of one meets a range of the other or of the
  kernel, and the three page-table frames differ; a process id of \<open>2 ^ 36\<close> or more
  overflows the base address and panics.\<close>

theorem spaces_isolated:
  assumes "address_types virt_addr virt_u64 frame_of frame_start" "p < 2 ^ 18" "q < 2 ^ 18" "p \<noteq> q"
    and "2 ^ 36 \<le> big" "big < 2 ^ 64"
  shows "\<exists>k s t. create_kernel_space virt_addr frame_of = Inr k
    \<and> create_user_space virt_addr frame_of p nm = Inr s \<and> create_user_space virt_addr frame_of q nm' = Inr t
    \<and> (let (k_ranges, k_frame) = layout virt_u64 frame_start k;
           (s_ranges, s_frame) = layout virt_u64 frame_start s;
           (t_ranges, t_frame) = layout virt_u64 frame_start t
       in (\<forall>r\<in>set s_ranges. \<forall>r'\<in>set t_ranges. apart r r') \<and> (\<forall>r\<in>set k_ranges. \<forall>r'\<in>set s_ranges. apart r r')
          \<and> distinct [k_frame, s_frame, t_frame])
    \<and> create_user_space virt_addr frame_of big nm = Inl (Panic ''attempt to multiply with overflow'')"
proof -
  obtain k where k: "create_kernel_space virt_addr frame_of = Inr k" "layout virt_u64 frame_start k = kernel_layout"
    using address_types.kernel_space_ok [OF assms(1)] by blast
  obtain s where s: "create_user_space virt_addr frame_of p nm = Inr s" "layout virt_u64 frame_start s = user_layout p"
    using address_types.user_space_ok [OF assms(1,2)] by blast
  obtain t where t: "create_user_space virt_addr frame_of q nm' = Inr t" "layout virt_u64 frame_start t = user_layout q"
    using address_types.user_space_ok [OF assms(1,3)] by blast
  have sym: "apart r r' \<longleftrightarrow> apart r' r" for r r' by (auto simp: apart_def)
  have st: "\<forall>r\<in>set (fst (user_layout p)). \<forall>r'\<in>set (fst (user_layout q)). apart r r'"
    using user_layouts_apart [of p q] user_layouts_apart [of q p] assms(4) sym by (meson linorder_neqE_nat)
  have frames: "distinct [snd kernel_layout, snd (user_layout p), snd (user_layout q)]"
    using assms(4) by (simp add: kernel_layout_def user_layout_def Let_def)
  from st kernel_user_apart [of p] frames
  have all: "let (k_ranges, k_frame) = layout virt_u64 frame_start k;
         (s_ranges, s_frame) = layout virt_u64 frame_start s;
         (t_ranges, t_frame) = layout virt_u64 frame_start t
     in (\<forall>r\<in>set s_ranges. \<forall>r'\<in>set t_ranges. apart r r') \<and> (\<forall>r\<in>set k_ranges. \<forall>r'\<in>set s_ranges. apart r r')
        \<and> distinct [k_frame, s_frame, t_frame]"
    unfolding k(2) s(2) t(2) Let_def case_prod_unfold by blast
  show ?thesis
    by (intro exI conjI, rule k(1), rule s(1), rule t(1), rule all, rule overflow_pid [OF assms(5,6)])
qed

theorem spaces_isolated_witness:
  "\<exists>s t. create_user_space lower_half frame_number 1 ''init'' = Inr s
     \<and> create_user_space lower_half frame_number 2 ''shell'' = Inr t
     \<and> create_user_space lower_half frame_number 0x1000000000 ''init''
        = Inl (Panic ''attempt to multiply with overflow'')"
proof -
  have "(1::nat) < 2 ^ 18" "(2::nat) < 2 ^ 18" "(1::nat) \<noteq> 2" "(2::nat) ^ 36 \<le> 0x1000000000" "(0x1000000000::nat) < 2 ^ 64"
    by simp_all
  from spaces_isolated [OF numbers.address_types_axioms this, of "''init''" "''shell''"]
  show ?thesis by blast
qed

end
