(* ===== verification/Shell.thy ===== *)
theory Shell
  imports Vfs Typing Rtc Net Driver Process_Memory "HOL-Library.Signed_Division"
begin

text \<open>
  The shell, \<^verbatim>\<open>src/src/shell.rs\<close>: one round reads what the devices hold, takes a committed line
  and runs it as a command. A command's result is what it prints and the kernel state after
  it, or the panic that stops the kernel. The state is that of the components the commands
  act on; what a command only reads from the machine (the clock's reading, the heap
  counters, the processor's identification) is the environment \<open>env\<close>.
\<close>

unbundle bit_operations_syntax

subsection \<open>State and environment\<close>

record kernel =
  k_input :: input_buffer
  k_vfs :: vfs_state
  k_sched :: scheduler
  k_ticks :: u64
  k_net :: network_stack
  k_prompt :: string

text \<open>\<open>heap_used\<close> and \<open>heap_free\<close> are the allocator's counters, \<open>show_percent\<close> the text of
  \<^verbatim>\<open>used as f32 / total as f32 * 100.0\<close> with one decimal, \<open>cpuid\<close> the registers ebx, edx and
  ecx of leaf 0; \<open>vm_manager\<close> holds the address spaces built at boot, with the readings of their
  addresses and frames.\<close>

record ('v, 'f) env =
  clock :: rtc_time
  heap_used :: nat
  heap_free :: nat
  show_percent :: "nat \<Rightarrow> nat \<Rightarrow> string"
  cpuid :: "u32 \<times> u32 \<times> u32"
  manager :: driver_manager
  vm_manager :: "('v, 'f) memory_manager"
  env_virt_u64 :: "'v \<Rightarrow> u64"
  env_frame_start :: "'f \<Rightarrow> u64"

definition heap_stats :: "('v, 'f) env \<Rightarrow> nat \<times> nat" where
  "heap_stats e = (heap_used e, heap_free e)"

definition heap_total :: nat where
  "heap_total = 256 * 1024"

text \<open>The globals when interrupts are enabled: \<^verbatim>\<open>kernel_main\<close> fills the task table, everything
  else has its initial value.\<close>

definition booted_kernel :: "kernel res" where
  "booted_kernel = bind_res init_scheduler (\<lambda>s.
     Inr \<lparr>k_input = new_input, k_vfs = init_vfs, k_sched = s, k_ticks = 0, k_net = new_stack,
          k_prompt = ''root''\<rparr>)"

subsection \<open>Texts\<close>

definition lines :: "string list \<Rightarrow> string" where
  "lines = join [lf]"

definition help_text :: string where
  "help_text = lines
     [''uname       : prints system information'',
      ''sysinfo     : shows detailed system info'',
      ''meminfo     : displays heap memory stats'',
      ''cpuid       : displays CPU hardware info'',
      ''vmap        : displays per-process virtual memory spaces & page tables'',
      ''drivers     : lists storage & graphics drivers in driver model'',
      ''ifconfig    : displays network stack interface configuration'',
      ''ping <ip>   : sends ICMP echo requests over network stack'',
      ''netstat     : displays active network sockets'',
      ''modifiers   : displays keyboard modifier states (Shift/Ctrl/Alt)'',
      ''uptime      : shows system uptime (HH:MM:SS)'',
      ''time        : shows current time'',
      ''date        : shows current date'',
      ''cd <dir>    : changes current working directory'',
      ''pwd         : prints current working directory'',
      ''ls [path]   : lists files and directories'',
      ''tree        : displays directory tree'',
      ''cat <file>  : displays content of a file'',
      ''touch <file>: creates empty file'',
      ''write f txt : writes text content to file'',
      ''mkdir <dir> : creates directory'',
      ''rm <path>   : removes file or directory'',
      ''echo <msg>  : prints argument text'',
      ''color <thm> : sets VGA color theme (default|matrix|amber|cyberpunk)'',
      ''prompt <str>: changes shell prompt string'',
      ''matrix      : displays green ASCII matrix digital rain'',
      ''guess <num> : number guessing game (1-10)'',
      ''calc <expr> : evaluates basic arithmetic (e.g. calc 12 + 34)'',
      ''ps/tasks    : list running tasks'',
      ''spawn [name]: creates new background task'',
      ''kill <pid>  : terminates running task by PID'',
      ''clear       : clears the screen'',
      ''panic       : triggers kernel panic test'',
      ''reboot      : restarts the system'',
      ''shutdown    : powers off the system'']"

abbreviation backslash :: char where
  "backslash \<equiv> CHR 0x5C"

definition sysinfo_text :: "nat \<Rightarrow> nat \<Rightarrow> nat \<Rightarrow> string" where
  "sysinfo_text tick_count used free = lines
     [''___   _  __   root@open_kernel'',
      ''   / _ '' @ backslash # '' | |/ /   ----------------'',
      ''  | | | || '' @ CHR 0x27 # '' /    OS: open_kernel 0.1.0 x86_64'',
      ''  | |_| || . '' @ backslash # ''    Kernel: 0.1.0-baremetal'',
      ''   '' @ backslash # ''___/ |_|'' @ backslash # ''_'' @ backslash # ''   Uptime: '' @ show_nat tick_count @ '' ticks'',
      ''                  Heap: '' @ show_nat used @ '' / '' @ show_nat heap_total @ '' B ('' @ show_nat free @ '' free)'',
      ''                  Shell: custom (vfs enabled)'']"

definition matrix_art :: string where
  "matrix_art = lines
     [''0 1 0 1 1 0 1 0 0 1 0 1 1 0 1'',
      '' 1 0 1 0 0 1 0 1 1 0 1 0 0 1 0'',
      '' 0 1 1 0 1 0 1 0 0 1 0 1 1 0 1'',
      '' MATRIX DIGITAL RAIN INITIALIZED'']"

definition show_bool :: "bool \<Rightarrow> string" where
  "show_bool b = (if b then ''true'' else ''false'')"

text \<open>The derived \<^verbatim>\<open>Debug\<close> of a variant without fields writes its name as it is; the width of
  \<open>{:<8?}\<close> has no effect on it.\<close>

fun show_state :: "task_state \<Rightarrow> string" where
  "show_state Ready = ''Ready''"
| "show_state Running = ''Running''"
| "show_state Finished = ''Finished''"

definition show_time :: "nat \<Rightarrow> nat \<Rightarrow> nat \<Rightarrow> string" where
  "show_time h m s = show_0pad 2 h @ '':'' @ show_0pad 2 m @ '':'' @ show_0pad 2 s"

definition show_date :: "nat \<Rightarrow> nat \<Rightarrow> nat \<Rightarrow> string" where
  "show_date y m d = show_0pad 4 y @ ''-'' @ show_0pad 2 m @ ''-'' @ show_0pad 2 d"

text \<open>\<^verbatim>\<open>u32::to_le_bytes\<close>, as characters.\<close>

definition le_bytes :: "u32 \<Rightarrow> string" where
  "le_bytes v = map (\<lambda>k. char_of (unat (drop_bit (8 * k) v AND 0xFF))) [0..<4]"

definition get_cpuid_vendor :: "u32 \<times> u32 \<times> u32 \<Rightarrow> string" where
  "get_cpuid_vendor = (\<lambda>(ebx, edx, ecx).
     let b = le_bytes ebx @ le_bytes edx @ le_bytes ecx in
     if b = ''GenuineIntel'' then ''GenuineIntel (Intel CPU)''
     else if b = ''AuthenticAMD'' then ''AuthenticAMD (AMD CPU)''
     else if b = ''TCGTCGTCGTCG'' then ''TCG (QEMU Virtual CPU)''
     else ''x86_64 Compatible CPU'')"

subsection \<open>Arithmetic of \<open>calc\<close>\<close>

definition i64_result :: "string \<Rightarrow> int \<Rightarrow> int option res" where
  "i64_result msg i = (if in_i64 i then Inr (Some i) else Inl (Panic msg))"

text \<open>The match on the operator: checked operations on \<^verbatim>\<open>i64\<close>, \<open>None\<close> for an unknown operator and
  for a zero divisor.\<close>

definition calc_op :: "string \<Rightarrow> int \<Rightarrow> int \<Rightarrow> int option res" where
  "calc_op operator a b =
     (if operator = ''+'' then i64_result ''attempt to add with overflow'' (a + b)
      else if operator = ''-'' then i64_result ''attempt to subtract with overflow'' (a - b)
      else if operator = ''*'' then i64_result ''attempt to multiply with overflow'' (a * b)
      else if operator = ''/'' \<and> b \<noteq> 0 then i64_result ''attempt to divide with overflow'' (a sdiv b)
      else if operator = ''%'' \<and> b \<noteq> 0 then
        (if a = i64_min \<and> b = -1 then Inl (Panic ''attempt to calculate the remainder with overflow'')
         else Inr (Some (a smod b)))
      else Inr None)"

definition calc_usage :: string where
  "calc_usage = ''usage: calc <num1> <+|-|*|/|%> <num2>''"

definition calc :: "string \<Rightarrow> string res" where
  "calc args =
     (case split_whitespace args of
        [p0, operator, p2] \<Rightarrow>
          (case (parse_i64 p0, parse_i64 p2) of
             (Some num1, Some num2) \<Rightarrow>
               bind_res (calc_op operator num1 num2) (\<lambda>r. Inr
                 (case r of
                    Some v \<Rightarrow> show_int num1 @ '' '' @ operator @ '' '' @ show_int num2 @ '' = '' @ show_int v
                  | None \<Rightarrow> ''calc error: invalid operator or division by zero''))
           | _ \<Rightarrow> Inr calc_usage)
      | _ \<Rightarrow> Inr calc_usage)"

definition guess :: "rtc_time \<Rightarrow> string \<Rightarrow> string" where
  "guess time args =
     (let target = int (unat (second time) mod 10 + 1) in
      case parse_i64 args of
        Some v \<Rightarrow>
          if v = target then ''Correct! You guessed the secret number '' @ show_int target @ ''!''
          else if v < target then ''Too low! Try again.''
          else ''Too high! Try again.''
      | None \<Rightarrow> ''Guess a number between 1 and 10! usage: guess <number>'')"

definition uptime :: "u64 \<Rightarrow> string" where
  "uptime tick_count =
     (let t = unat tick_count; total_secs = t div 20; hours = total_secs div 3600;
          mins = total_secs mod 3600 div 60; secs = total_secs mod 60
      in ''uptime: '' @ show_time hours mins secs @ '' ('' @ show_nat t @ '' ticks)'')"

definition color_theme :: "string \<Rightarrow> color \<times> string" where
  "color_theme args =
     (if args = ''matrix'' \<or> args = ''green'' then (LightGreen, ''Theme set to Matrix Green'')
      else if args = ''amber'' then (Amber, ''Theme set to Amber'')
      else if args = ''cyberpunk'' \<or> args = ''cyan'' then (Cyan, ''Theme set to Cyberpunk Cyan'')
      else (White, ''Theme set to Default White''))"

definition ps_row :: "task_info \<Rightarrow> out list" where
  "ps_row t = both_ln (pad_left (CHR '' '') 3 (show_nat (ti_id t)) @ '' '' @ show_state (ti_state t) @ '' ''
     @ pad_left (CHR '' '') 4 (show_nat (unat (ti_runs t))) @ '' '' @ ti_name t)"

subsection \<open>Commands\<close>

definition split_command :: "string \<Rightarrow> string \<times> string" where
  "split_command cmd =
     (case str_find (CHR '' '') cmd of
        Some idx \<Rightarrow> (take idx cmd, trim (drop (idx + 1) cmd))
      | None \<Rightarrow> (cmd, ''''))"

text \<open>The commands on the file system, with the message for each outcome.\<close>

definition cd_command :: "string \<Rightarrow> vfs_state \<Rightarrow> out list \<times> vfs_state" where
  "cd_command args fs =
     (let (ok, fs) = change_directory fs (if args = [] then ''/'' else args)
      in (both_ln (if ok then ''changed directory to '' @ get_current_directory fs
                   else ''cd: no such directory: '' @ args), fs))"

definition file_command :: "string \<Rightarrow> string \<Rightarrow> vfs_state \<Rightarrow> out list \<times> vfs_state" where
  "file_command cmd_name args fs =
     (if cmd_name = ''cd'' then cd_command args fs
      else if cmd_name = ''cat'' then
        (both_ln (if args = [] then ''usage: cat <filename>''
                  else case read_file_string fs args of
                    Some content \<Rightarrow> content
                  | None \<Rightarrow> ''cat: file not found: '' @ args), fs)
      else if cmd_name = ''touch'' then
        (if args = [] then (both_ln ''usage: touch <filename>'', fs)
         else let (ok, fs) = write_file_string fs args ''''
              in (both_ln (if ok then ''created empty file '' @ [CHR 0x27] @ args @ [CHR 0x27]
                           else ''touch: failed to create file: '' @ args), fs))
      else if cmd_name = ''write'' then
        (let (path, content) = split_command args in
         if path = [] then (both_ln ''usage: write <filename> <text>'', fs)
         else let (ok, fs) = write_file_string fs path content
              in (both_ln (if ok then ''wrote to file '' @ [CHR 0x27] @ path @ [CHR 0x27]
                           else ''write: failed to write file: '' @ path), fs))
      else if cmd_name = ''mkdir'' then
        (if args = [] then (both_ln ''usage: mkdir <dirname>'', fs)
         else let (ok, fs) = create_dir fs args
              in (both_ln (if ok then ''created directory '' @ [CHR 0x27] @ args @ [CHR 0x27]
                           else ''mkdir: failed to create directory: '' @ args), fs))
      else
        (if args = [] then (both_ln ''usage: rm <path>'', fs)
         else let (ok, fs) = remove_node fs args
              in (both_ln (if ok then ''removed '' @ [CHR 0x27] @ args @ [CHR 0x27]
                           else ''rm: failed to remove: '' @ args), fs)))"

definition is_file_command :: "string \<Rightarrow> bool" where
  "is_file_command c = (c \<in> {''cd'', ''cat'', ''touch'', ''write'', ''mkdir'', ''rm''})"

text \<open>The commands that only print; \<open>None\<close> for a name that is not among them.\<close>

definition system_command :: "('v, 'f) env \<Rightarrow> string \<Rightarrow> kernel \<Rightarrow> out list option" where
  "system_command e cmd_name k =
     (if cmd_name = '''' then Some []
      else if cmd_name = ''help'' then Some (both_ln help_text)
      else if cmd_name = ''drivers'' then Some (print_drivers (manager e))
      else if cmd_name = ''ifconfig'' then Some (print_ifconfig (k_net k))
      else if cmd_name = ''netstat'' then Some print_netstat
      else if cmd_name = ''vmap'' then
        Some (print_vmap (env_virt_u64 e) (env_frame_start e) (vm_manager e))
      else if cmd_name = ''modifiers'' then
        (let mods = get_modifiers (k_input k) in
         Some (both_ln (''Shift: '' @ show_bool (shift mods) @ '' | Ctrl: '' @ show_bool (ctrl mods)
           @ '' | Alt: '' @ show_bool (alt mods) @ '' | CapsLock: '' @ show_bool (caps_lock mods))))
      else if cmd_name = ''uname'' then Some (both_ln ''open_kernel 0.1.0 x86_64 bare-metal'')
      else if cmd_name = ''sysinfo'' then
        (let (used, free) = heap_stats e in Some (both_ln (sysinfo_text (unat (k_ticks k)) used free)))
      else if cmd_name = ''meminfo'' then
        (let (used, free) = heap_stats e in
         Some (both_ln (''Heap Usage: '' @ show_nat used @ '' / '' @ show_nat heap_total @ '' bytes (''
           @ show_percent e used heap_total @ ''% used, '' @ show_nat free @ '' bytes free)'')))
      else if cmd_name = ''uptime'' then Some (both_ln (uptime (k_ticks k)))
      else None)"

definition listing_command :: "('v, 'f) env \<Rightarrow> string \<Rightarrow> string \<Rightarrow> kernel \<Rightarrow> out list option" where
  "listing_command e cmd_name args k =
     (if cmd_name = ''pwd'' then Some (both_ln (get_current_directory (k_vfs k)))
      else if cmd_name = ''matrix'' then Some (Set_Colors LightGreen Black # both_ln matrix_art)
      else if cmd_name = ''guess'' then Some (both_ln (guess (clock e) args))
      else if cmd_name = ''time'' then
        Some (both_ln (''time: '' @ show_time (unat (hour (clock e))) (unat (minute (clock e))) (unat (second (clock e)))))
      else if cmd_name = ''date'' then
        Some (both_ln (''date: '' @ show_date (unat (year (clock e))) (unat (month (clock e))) (unat (day (clock e)))))
      else if cmd_name = ''ls'' then Some (list_directory_cmd (k_vfs k) args)
      else if cmd_name = ''tree'' then Some (print_tree (k_vfs k))
      else None)"

definition console_command :: "('v, 'f) env \<Rightarrow> string \<Rightarrow> string \<Rightarrow> kernel \<Rightarrow> out list option" where
  "console_command e cmd_name args k =
     (if cmd_name = ''echo'' then Some (both_ln args)
      else if cmd_name = ''ps'' \<or> cmd_name = ''tasks'' then
        Some (both_ln ''pid state     runs name'' @ concat (map ps_row (snapshot_tasks (k_sched k))))
      else if cmd_name = ''clear'' then Some [Clear_Screen, Serial (CHR 0x1B # ''[2J'' @ CHR 0x1B # ''[H'')]
      else if cmd_name = ''cpuid'' then
        Some (both_ln (lines [''CPU Vendor: '' @ get_cpuid_vendor (cpuid e), ''Arch: x86_64 64-bit Mode'',
          ''Features: FPU PSE APIC MSR PAE PGE'']))
      else if cmd_name = ''color'' then
        (let (fg, msg) = color_theme args in Some (Set_Colors fg Black # both_ln msg))
      else None)"

definition power_command :: "string \<Rightarrow> out list option" where
  "power_command cmd_name =
     (if cmd_name = ''reboot'' then Some (both_ln ''rebooting system...'' @ [Port_Write_U8 0x64 0xFE])
      else if cmd_name = ''shutdown'' then
        Some (both_ln ''shutting down system...''
          @ [Port_Write_U16 0x604 0x2000, Port_Write_U16 0x4004 0x3400, Port_Write_U16 0x600 0x3400])
      else None)"

definition info_command :: "('v, 'f) env \<Rightarrow> string \<Rightarrow> string \<Rightarrow> kernel \<Rightarrow> out list option" where
  "info_command e cmd_name args k =
     (case system_command e cmd_name k of
        Some os \<Rightarrow> Some os
      | None \<Rightarrow>
          (case listing_command e cmd_name args k of
             Some os \<Rightarrow> Some os
           | None \<Rightarrow>
               (case console_command e cmd_name args k of
                  Some os \<Rightarrow> Some os
                | None \<Rightarrow> power_command cmd_name)))"

definition prompt_command :: "string \<Rightarrow> kernel \<Rightarrow> out list \<times> kernel" where
  "prompt_command args k =
     (if args \<noteq> [] then
        (let p = args @ (if \<not> ends_with (CHR '' '') args \<and> \<not> ends_with (CHR ''>'') args then ''> '' else '''')
         in (both_ln (''Prompt updated to '' @ CHR 0x27 # p @ [CHR 0x27]), k\<lparr>k_prompt := p\<rparr>))
      else (both_ln ''usage: prompt <new_prompt>'', k))"

definition spawn_command :: "string \<Rightarrow> kernel \<Rightarrow> out list \<times> kernel" where
  "spawn_command args k =
     (let name = (if args = [] then ''user-task'' else args);
          (r, s) = spawn_task (k_sched k) ''user-worker''
      in (both_ln (case r of
             Some ident \<Rightarrow> ''Spawned task '' @ CHR 0x27 # name @ CHR 0x27 # '' with pid '' @ show_nat ident
           | None \<Rightarrow> ''Failed to spawn task: scheduler full''), k\<lparr>k_sched := s\<rparr>))"

definition kill_command :: "string \<Rightarrow> kernel \<Rightarrow> out list \<times> kernel" where
  "kill_command args k =
     (case parse_usize args of
        Some p \<Rightarrow>
          (let (ok, s) = kill_task (k_sched k) p
           in (both_ln (if ok then ''Killed task pid '' @ show_nat p
                        else ''Failed to kill pid '' @ show_nat p @ '': invalid pid or finished''),
               k\<lparr>k_sched := s\<rparr>))
      | None \<Rightarrow> (both_ln ''usage: kill <pid>'', k))"

definition ping_command :: "string \<Rightarrow> kernel \<Rightarrow> (out list \<times> kernel) res" where
  "ping_command args k =
     bind_res (ping (k_net k) (if args = [] then ''127.0.0.1'' else args)) (\<lambda>(os, st).
       Inr (os, k\<lparr>k_net := st\<rparr>))"

text \<open>The arms that act on the shell's own state or on another component, and the last one.\<close>

definition other_command :: "string \<Rightarrow> string \<Rightarrow> kernel \<Rightarrow> (out list \<times> kernel) res" where
  "other_command cmd_name args k =
     (if cmd_name = ''prompt'' then Inr (prompt_command args k)
      else if cmd_name = ''spawn'' then Inr (spawn_command args k)
      else if cmd_name = ''kill'' then Inr (kill_command args k)
      else if cmd_name = ''ping'' then ping_command args k
      else if cmd_name = ''calc'' then bind_res (calc args) (\<lambda>msg. Inr (both_ln msg, k))
      else if cmd_name = ''panic'' then Inl (Panic ''Kernel panic triggered via shell'')
      else Inr (both_ln (''unknown command: '' @ cmd_name), k))"

text \<open>The match of \<^verbatim>\<open>handle_command\<close>, its arms grouped by what they change.\<close>

definition handle_command :: "('v, 'f) env \<Rightarrow> string \<Rightarrow> kernel \<Rightarrow> (out list \<times> kernel) res" where
  "handle_command e cmd k =
     (let (cmd_name, args) = split_command cmd in
      case info_command e cmd_name args k of
        Some os \<Rightarrow> Inr (os, k)
      | None \<Rightarrow>
          if is_file_command cmd_name then
            (let (os, fs) = file_command cmd_name args (k_vfs k) in Inr (os, k\<lparr>k_vfs := fs\<rparr>))
          else other_command cmd_name args k)"

subsection \<open>One round\<close>

definition print_prompt :: "kernel \<Rightarrow> out list" where
  "print_prompt k = both (k_prompt k @ '':'' @ get_current_directory (k_vfs k) @ ''> '')"

definition shell_init :: "kernel \<Rightarrow> out list" where
  "shell_init k =
     [Serial (''[OK] shell ready'' @ [lf]), Screen (''open_kernel shell ready'' @ [lf])] @ print_prompt k"

text \<open>What happens after the devices are polled.\<close>

definition run_line :: "('v, 'f) env \<Rightarrow> kernel \<Rightarrow> (out list \<times> kernel) res" where
  "run_line e k =
     (let (line, b) = pop_line (k_input k); k = k\<lparr>k_input := b\<rparr> in
      case line of
        None \<Rightarrow> Inr ([], k)
      | Some l \<Rightarrow> bind_res (handle_command e (trim l) k) (\<lambda>(os, k). Inr (os @ print_prompt k, k)))"

text \<open>\<open>run_once\<close>, with the keyboard controller and the UART as devices; \<open>None\<close> when a poll does
  not return.\<close>

definition run_once ::
  "'kb port_read \<Rightarrow> 'kb port_read \<Rightarrow> 'ua port_read \<Rightarrow> 'ua port_read \<Rightarrow> ('v, 'f) env \<Rightarrow> 'kb \<Rightarrow> 'ua \<Rightarrow> kernel
    \<Rightarrow> ((out list \<times> kernel) res \<times> 'kb \<times> 'ua) option" where
  "run_once kb_status kb_data ua_status ua_data e kb ua k =
     Option.bind (poll_keyboard kb_status kb_data kb (k_input k)) (\<lambda>(os, b, kb).
     Option.bind (poll_serial_input ua_status ua_data ua b) (\<lambda>(os', b, ua).
       Some (bind_res (run_line e (k\<lparr>k_input := b\<rparr>)) (\<lambda>(os'', k). Inr (os @ os' @ os'', k)), kb, ua)))"

end
