(* ===== verification/Shell_Facts.thy ===== *)
theory Shell_Facts
  imports Shell
begin

text \<open>
  What the shell's commands guarantee: how a line is taken apart, that every command keeps
  the invariants of the components it acts on, when a command can stop the kernel, that both
  consoles show the same, what \<^verbatim>\<open>calc\<close> computes, and the way of a typed line to its effect.
\<close>

subsection \<open>Taking a line apart\<close>

lemma set_trim: "set (trim s) \<subseteq> set s"
  unfolding trim_def trim_by_def by (fastforce dest: set_dropWhileD)

lemma trim_by_id: "s = [] \<or> (\<not> P (hd s) \<and> \<not> P (last s)) \<Longrightarrow> trim_by P s = s"
proof (elim disjE conjE)
  assume h: "\<not> P (hd s)" and l: "\<not> P (last s)"
  have "dropWhile P s = s" using h by (cases s) auto
  moreover have "dropWhile P (rev s) = rev s" using l by (cases s rule: rev_cases) auto
  ultimately show ?thesis by (simp add: trim_by_def)
qed (simp add: trim_by_def)

text \<open>A word: what a command name, an operator or a file name without blanks is.\<close>

definition is_word :: "string \<Rightarrow> bool" where
  "is_word w = (w \<noteq> [] \<and> (\<forall>c\<in>set w. \<not> is_whitespace c))"

lemma blank_is_whitespace [simp]: "is_whitespace (CHR '' '')"
  by (simp add: is_whitespace_def)

lemma is_word_blank: "is_word w \<Longrightarrow> CHR '' '' \<notin> set w"
  by (auto simp: is_word_def)

lemma trim_word_ends: "is_word v \<Longrightarrow> is_word w \<Longrightarrow> trim (v @ m @ w) = v @ m @ w"
  unfolding trim_def by (rule trim_by_id) (auto simp: is_word_def)

lemma trim_word: "is_word w \<Longrightarrow> trim w = w"
  unfolding trim_def by (rule trim_by_id) (auto simp: is_word_def)

lemma str_find_append: "c \<notin> set w \<Longrightarrow> str_find c (w @ c # r) = Some (length w)"
  unfolding str_find_def by (rule position_eq_SomeI) (auto simp: nth_append)

lemma str_find_absent: "str_find c w = None \<longleftrightarrow> c \<notin> set w"
  by (auto simp: str_find_def position_None)

lemma split_command_space: "CHR '' '' \<notin> set w \<Longrightarrow> split_command (w @ CHR '' '' # r) = (w, trim r)"
  by (simp add: split_command_def str_find_append)

lemma split_command_word: "CHR '' '' \<notin> set w \<Longrightarrow> split_command w = (w, [])"
  by (simp add: split_command_def str_find_absent [THEN iffD2])

lemma split_command_set:
  "set (fst (split_command cmd)) \<subseteq> set cmd" "set (snd (split_command cmd)) \<subseteq> set cmd"
proof -
  show "set (fst (split_command cmd)) \<subseteq> set cmd"
    by (auto simp: split_command_def dest: in_set_takeD split: option.splits)
  show "set (snd (split_command cmd)) \<subseteq> set cmd"
    using set_trim by (auto simp: split_command_def dest!: subsetD [OF set_trim] in_set_dropD split: option.splits)
qed

lemma split_command_printable:
  "list_all is_printable cmd \<Longrightarrow> list_all is_printable (snd (split_command cmd))"
  using split_command_set(2) by (auto simp: list_all_iff)

lemma split_whitespace_words:
  assumes "\<forall>w\<in>set ws. is_word w"
  shows "split_whitespace (join [CHR '' ''] ws) = ws"
proof (cases "ws = []")
  case True
  then show ?thesis by (simp add: split_whitespace_def)
next
  case False
  have "split_by is_whitespace (join [CHR '' ''] ws) = ws"
    using assms by (intro split_join False) (auto simp: is_word_def)
  then show ?thesis using assms by (auto simp: split_whitespace_def is_word_def filter_id_conv)
qed

lemma show_nat_word: "is_word (show_nat n)"
  using show_nat_digits [of n] by (auto simp: is_word_def is_digit_def is_whitespace_def)

lemma show_int_word: "is_word (show_int i)"
  using show_nat_word by (auto simp: show_int_def is_word_def is_whitespace_def)

subsection \<open>What \<open>calc\<close> computes\<close>

text \<open>The result a reader of the manual expects: division rounds toward zero and the remainder
  has the sign of the dividend.\<close>

definition truncating :: "int \<Rightarrow> int \<Rightarrow> int \<Rightarrow> int \<Rightarrow> bool" where
  "truncating a b q r = (a = q * b + r \<and> \<bar>r\<bar> < \<bar>b\<bar> \<and> (r = 0 \<or> sgn r = sgn a))"

definition exact_result :: "string \<Rightarrow> int \<Rightarrow> int \<Rightarrow> int \<Rightarrow> bool" where
  "exact_result operator a b v =
     (operator = ''+'' \<and> v = a + b \<or> operator = ''-'' \<and> v = a - b \<or> operator = ''*'' \<and> v = a * b
      \<or> operator = ''/'' \<and> (\<exists>r. truncating a b v r) \<or> operator = ''%'' \<and> (\<exists>q. truncating a b q v))"

lemma truncating_sdiv: "b \<noteq> 0 \<Longrightarrow> truncating a b (a sdiv b) (a smod b)"
proof -
  assume b: "b \<noteq> 0"
  have "\<bar>a smod b\<bar> < \<bar>b\<bar>" using b smod_int_range [of b a] by auto
  moreover have "a smod b = 0 \<or> sgn (a smod b) = sgn a"
  proof (cases "\<bar>a\<bar> mod \<bar>b\<bar> = 0")
    case False
    moreover have "0 \<le> \<bar>a\<bar> mod \<bar>b\<bar>" using b by simp
    ultimately have "sgn (\<bar>a\<bar> mod \<bar>b\<bar>) = 1" by simp
    then show ?thesis by (simp add: smod_int_alt_def sgn_mult)
  qed (simp add: smod_int_alt_def)
  ultimately show ?thesis by (simp add: truncating_def sdiv_mult_smod_eq)
qed

lemma truncating_unique:
  assumes "truncating a b q r" "truncating a b q' r'"
  shows "q = q' \<and> r = r'"
proof -
  from assms have r: "\<bar>r\<bar> < \<bar>b\<bar>" "\<bar>r'\<bar> < \<bar>b\<bar>" "r = 0 \<or> sgn r = sgn a" "r' = 0 \<or> sgn r' = sgn a"
    and eq: "q * b + r = q' * b + r'"
    by (auto simp: truncating_def)
  then have "\<bar>r' - r\<bar> < \<bar>b\<bar>" by (auto simp: sgn_if split: if_splits)
  moreover from eq have "r' - r = (q - q') * b" by (simp add: algebra_simps)
  ultimately have "\<bar>q - q'\<bar> * \<bar>b\<bar> < 1 * \<bar>b\<bar>" by (simp add: abs_mult)
  then have "\<bar>q - q'\<bar> < 1" by (rule mult_right_less_imp_less) simp
  with eq show ?thesis by simp
qed

lemma truncating_iff: "b \<noteq> 0 \<Longrightarrow> truncating a b q r \<longleftrightarrow> q = a sdiv b \<and> r = a smod b"
  using truncating_sdiv truncating_unique by blast

lemma truncating_zero: "\<not> truncating a 0 q r"
  by (simp add: truncating_def)

lemma exact_result_cases:
  "exact_result operator a b v \<longleftrightarrow>
     (operator = ''+'' \<and> v = a + b \<or> operator = ''-'' \<and> v = a - b \<or> operator = ''*'' \<and> v = a * b
      \<or> b \<noteq> 0 \<and> (operator = ''/'' \<and> v = a sdiv b \<or> operator = ''%'' \<and> v = a smod b))"
  by (cases "b = 0") (auto simp: exact_result_def truncating_zero truncating_iff)

lemma exact_result_unique: "exact_result operator a b v \<Longrightarrow> exact_result operator a b w \<Longrightarrow> v = w"
  by (auto simp: exact_result_cases)

lemma smod_in_i64: "in_i64 b \<Longrightarrow> b \<noteq> 0 \<Longrightarrow> in_i64 (a smod b)"
  using smod_int_range [of b a] by (auto simp: in_i64_def i64_min_def i64_max_def)

text \<open>The one remainder that panics although its value is representable.\<close>

definition rem_overflows :: "string \<Rightarrow> int \<Rightarrow> int \<Rightarrow> bool" where
  "rem_overflows operator a b = (operator = ''%'' \<and> a = i64_min \<and> b = -1)"

lemma calc_op_simps:
  "calc_op ''+'' a b = i64_result ''attempt to add with overflow'' (a + b)"
  "calc_op ''-'' a b = i64_result ''attempt to subtract with overflow'' (a - b)"
  "calc_op ''*'' a b = i64_result ''attempt to multiply with overflow'' (a * b)"
  "b \<noteq> 0 \<Longrightarrow> calc_op ''/'' a b = i64_result ''attempt to divide with overflow'' (a sdiv b)"
  "b \<noteq> 0 \<Longrightarrow> calc_op ''%'' a b =
     (if a = i64_min \<and> b = -1 then Inl (Panic ''attempt to calculate the remainder with overflow'')
      else Inr (Some (a smod b)))"
  by (simp_all add: calc_op_def)

lemma exact_resultE:
  assumes "exact_result operator a b v"
  obtains (add) "operator = ''+''" "v = a + b" | (sub) "operator = ''-''" "v = a - b"
  | (mul) "operator = ''*''" "v = a * b" | (div) "operator = ''/''" "b \<noteq> 0" "v = a sdiv b"
  | (rem) "operator = ''%''" "b \<noteq> 0" "v = a smod b"
  using assms unfolding exact_result_cases by blast

lemma calc_op_exact:
  "exact_result operator a b v \<Longrightarrow> in_i64 v \<Longrightarrow> \<not> rem_overflows operator a b \<Longrightarrow>
     calc_op operator a b = Inr (Some v)"
  by (erule exact_resultE) (simp_all add: calc_op_simps i64_result_def rem_overflows_def)

lemma calc_op_overflow:
  "in_i64 b \<Longrightarrow> exact_result operator a b v \<Longrightarrow> \<not> in_i64 v \<or> rem_overflows operator a b \<Longrightarrow>
     \<exists>p. calc_op operator a b = Inl p"
  using smod_in_i64 [of b a]
  by (elim exact_resultE) (simp_all add: calc_op_simps i64_result_def rem_overflows_def)

lemma calc_op_undefined: "\<nexists>v. exact_result operator a b v \<Longrightarrow> calc_op operator a b = Inr None"
proof -
  assume n: "\<nexists>v. exact_result operator a b v"
  then have "operator \<noteq> ''+''" "operator \<noteq> ''-''" "operator \<noteq> ''*''" "\<not> (operator = ''/'' \<and> b \<noteq> 0)"
      "\<not> (operator = ''%'' \<and> b \<noteq> 0)"
    unfolding exact_result_cases by blast+
  then show ?thesis unfolding calc_op_def by presburger
qed

lemma calc_parts:
  assumes "in_i64 a" "in_i64 b" "is_word operator"
  shows "calc (show_int a @ '' '' @ operator @ '' '' @ show_int b)
    = bind_res (calc_op operator a b) (\<lambda>r. Inr
        (case r of
           Some v \<Rightarrow> show_int a @ '' '' @ operator @ '' '' @ show_int b @ '' = '' @ show_int v
         | None \<Rightarrow> ''calc error: invalid operator or division by zero''))"
proof -
  have "split_whitespace (join [CHR '' ''] [show_int a, operator, show_int b]) = [show_int a, operator, show_int b]"
    using assms(3) show_int_word by (intro split_whitespace_words) auto
  then show ?thesis
    using assms by (simp add: calc_def parse_i64_show_int)
qed

subsection \<open>What a command changes\<close>

abbreviation command_name :: "string \<Rightarrow> string" where
  "command_name cmd \<equiv> fst (split_command cmd)"

abbreviation command_args :: "string \<Rightarrow> string" where
  "command_args cmd \<equiv> snd (split_command cmd)"

lemma handle_command_simps:
  "info_command e (command_name cmd) (command_args cmd) k = Some os \<Longrightarrow>
     handle_command e cmd k = Inr (os, k)"
  "info_command e (command_name cmd) (command_args cmd) k = None \<Longrightarrow> is_file_command (command_name cmd) \<Longrightarrow>
     handle_command e cmd k =
       (let (os, fs) = file_command (command_name cmd) (command_args cmd) (k_vfs k) in Inr (os, k\<lparr>k_vfs := fs\<rparr>))"
  "info_command e (command_name cmd) (command_args cmd) k = None \<Longrightarrow> \<not> is_file_command (command_name cmd) \<Longrightarrow>
     handle_command e cmd k = other_command (command_name cmd) (command_args cmd) k"
  by (simp_all add: handle_command_def split_beta Let_def)

lemma one_of_six:
  "x = a \<or> x = b \<or> x = c \<or> x = d \<or> x = e \<or> x = f \<or> x \<notin> {a, b, c, d, e, f}"
  by blast

lemma other_command_outcome:
  assumes "other_command name args k = Inr (os, k')"
  obtains
    (prompt) "(os, k') = prompt_command args k"
  | (spawn) "(os, k') = spawn_command args k"
  | (kill) "(os, k') = kill_command args k"
  | (ping) "ping_command args k = Inr (os, k')"
  | (print) msg where "os = both_ln msg" "k' = k"
proof -
  show ?thesis
    using one_of_six [of name "''prompt''" "''spawn''" "''kill''" "''ping''" "''calc''" "''panic''"]
  proof (elim disjE)
    assume "name = ''prompt''"
    with assms show ?thesis by (intro prompt) (simp add: other_command_def)
  next
    assume "name = ''spawn''"
    with assms show ?thesis by (intro spawn) (simp add: other_command_def)
  next
    assume "name = ''kill''"
    with assms show ?thesis by (intro kill) (simp add: other_command_def)
  next
    assume "name = ''ping''"
    with assms show ?thesis by (intro ping) (simp add: other_command_def)
  next
    assume "name = ''calc''"
    with assms have "\<exists>msg. os = both_ln msg \<and> k' = k"
      by (auto simp: other_command_def bind_res_eq_Inr)
    with print show ?thesis by blast
  next
    assume "name = ''panic''"
    with assms show ?thesis by (simp add: other_command_def)
  next
    assume "name \<notin> {''prompt'', ''spawn'', ''kill'', ''ping'', ''calc'', ''panic''}"
    with assms have "os = both_ln (''unknown command: '' @ name)" "k' = k"
      by (simp_all add: other_command_def)
    then show ?thesis by (rule print)
  qed
qed

lemma handle_command_outcome:
  assumes "handle_command e cmd k = Inr (os, k')"
  obtains
    (info) "info_command e (command_name cmd) (command_args cmd) k = Some os" "k' = k"
  | (files) fs where "file_command (command_name cmd) (command_args cmd) (k_vfs k) = (os, fs)"
      "k' = k\<lparr>k_vfs := fs\<rparr>"
  | (other) "other_command (command_name cmd) (command_args cmd) k = Inr (os, k')"
proof (cases "info_command e (command_name cmd) (command_args cmd) k")
  case (Some x)
  with assms have "os = x" "k' = k" by (simp_all add: handle_command_simps)
  with Some show ?thesis by (intro info) simp_all
next
  case None
  show ?thesis
  proof (cases "is_file_command (command_name cmd)")
    case True
    let ?r = "file_command (command_name cmd) (command_args cmd) (k_vfs k)"
    from assms None True have "os = fst ?r" "k' = k\<lparr>k_vfs := snd ?r\<rparr>"
      by (simp_all add: handle_command_simps split_beta Let_def)
    then show ?thesis by (intro files [of "snd ?r"]) simp_all
  next
    case False
    with assms None show ?thesis by (intro other) (simp add: handle_command_simps)
  qed
qed

text \<open>The three commands that can stop the kernel.\<close>

lemma may_panic_commands:
  assumes "c \<in> {''panic'', ''calc'', ''ping''}"
  shows "info_command e c args k = None" "\<not> is_file_command c"
  using assms by (elim insertE emptyE; simp add: info_command_def system_command_def listing_command_def
      console_command_def power_command_def is_file_command_def)+

lemma other_command_panic:
  "other_command c args k = Inl p \<longleftrightarrow>
     (c = ''panic'' \<and> p = Panic ''Kernel panic triggered via shell'')
     \<or> (c = ''calc'' \<and> calc args = Inl p) \<or> (c = ''ping'' \<and> ping_command args k = Inl p)"
  by (cases "calc args") (auto simp: other_command_def)

lemma handle_command_panic:
  "handle_command e cmd k = Inl p \<longleftrightarrow>
     (command_name cmd = ''panic'' \<and> p = Panic ''Kernel panic triggered via shell'')
     \<or> (command_name cmd = ''calc'' \<and> calc (command_args cmd) = Inl p)
     \<or> (command_name cmd = ''ping'' \<and> ping_command (command_args cmd) k = Inl p)"
proof (cases "command_name cmd \<in> {''panic'', ''calc'', ''ping''}")
  case True
  then show ?thesis
    by (simp only: handle_command_simps may_panic_commands not_False_eq_True other_command_panic)
next
  case False
  have "handle_command e cmd k \<noteq> Inl p"
  proof (cases "info_command e (command_name cmd) (command_args cmd) k")
    case None
    with False show ?thesis
      by (cases "is_file_command (command_name cmd)")
        (auto simp: handle_command_simps other_command_panic split_beta Let_def)
  qed (simp add: handle_command_simps)
  with False show ?thesis by blast
qed

text \<open>Each command acts on one component: its changes are runs of that component's
  operations.\<close>

lemma file_command_inv:
  assumes "vfs_inv fs" "list_all is_printable args"
  shows "vfs_inv (snd (file_command c args fs))"
proof -
  have utf8: "utf8_valid (snd (split_command args))" "utf8_valid []"
    using split_command_printable [OF assms(2)]
    by (simp_all add: ascii_utf8 printable_ascii list_all_iff)
  with vfs_inv_ops [OF assms(1)] assms(1) show ?thesis
    by (simp add: file_command_def cd_command_def split_beta Let_def)
qed

lemma spawn_command_sched:
  "snd (spawn_command args k) = k\<lparr>k_sched := apply_op (Spawn ''user-worker'') (k_sched k)\<rparr>"
  by (simp add: spawn_command_def split_beta Let_def)

lemma kill_command_sched:
  "snd (kill_command args k) = k
   \<or> (\<exists>op. snd (kill_command args k) = k\<lparr>k_sched := apply_op op (k_sched k)\<rparr>)"
proof (cases "parse_usize args")
  case (Some n)
  then have "snd (kill_command args k) = k\<lparr>k_sched := apply_op (Kill n) (k_sched k)\<rparr>"
    by (simp add: kill_command_def split_beta Let_def)
  then show ?thesis by blast
qed (simp add: kill_command_def)

lemma prompt_command_prompt: "snd (prompt_command args k) = k\<lparr>k_prompt := k_prompt (snd (prompt_command args k))\<rparr>"
  by (simp add: prompt_command_def Let_def)

lemma ping_command_net:
  "ping_command args k = Inr (os, k') \<Longrightarrow> \<exists>target st. ping (k_net k) target = Inr (os, st) \<and> k' = k\<lparr>k_net := st\<rparr>"
  by (auto simp: ping_command_def bind_res_eq_Inr)

lemma command_changes:
  assumes "handle_command e cmd k = Inr (os, k')"
  obtains
    (same) "k' = k"
  | (vfs) c where "k' = k\<lparr>k_vfs := snd (file_command c (command_args cmd) (k_vfs k))\<rparr>"
  | (prompt) p where "k' = k\<lparr>k_prompt := p\<rparr>"
  | (sched) op where "k' = k\<lparr>k_sched := apply_op op (k_sched k)\<rparr>"
  | (net) target st where "ping (k_net k) target = Inr (os, st)" "k' = k\<lparr>k_net := st\<rparr>"
  using assms
proof (cases rule: handle_command_outcome)
  case (files fs)
  then have "k' = k\<lparr>k_vfs := snd (file_command (command_name cmd) (command_args cmd) (k_vfs k))\<rparr>"
    by simp
  then show ?thesis by (rule vfs)
next
  case other
  then show ?thesis
  proof (cases rule: other_command_outcome)
    case prompt: prompt
    from prompt have "k' = snd (prompt_command (command_args cmd) k)" by (metis snd_conv)
    with prompt_command_prompt that(3) show ?thesis by metis
  next
    case spawn
    then have "k' = snd (spawn_command (command_args cmd) k)" by (metis snd_conv)
    with spawn_command_sched sched show ?thesis by metis
  next
    case kill
    then have "k' = snd (kill_command (command_args cmd) k)" by (metis snd_conv)
    with kill_command_sched sched same show ?thesis by metis
  next
    case ping
    with ping_command_net net show ?thesis by metis
  qed (use same in blast)
qed (use same in blast)

lemma command_frame:
  "handle_command e cmd k = Inr (os, k') \<Longrightarrow> k_input k' = k_input k \<and> k_ticks k' = k_ticks k"
  by (erule command_changes) simp_all

lemma command_sched:
  "handle_command e cmd k = Inr (os, k') \<Longrightarrow>
     k_sched k' = k_sched k \<or> (\<exists>op. k_sched k' = apply_op op (k_sched k))"
  by (erule command_changes) auto

lemma command_vfs_inv:
  assumes "handle_command e cmd k = Inr (os, k')" "vfs_inv (k_vfs k)" "list_all is_printable cmd"
  shows "vfs_inv (k_vfs k')"
  using assms(1)
  by (cases rule: command_changes)
    (simp_all add: assms(2) file_command_inv [OF assms(2) split_command_printable [OF assms(3)]])

subsection \<open>Both consoles show the same\<close>

lemma mirrored_Set_Colors: "mirrored os \<Longrightarrow> mirrored (Set_Colors fg bg # os)"
  by (simp add: mirrored_def)

lemma mirrored_ports: "mirrored os \<Longrightarrow> mirrored (os @ [Port_Write_U8 a v])"
  "mirrored os \<Longrightarrow> mirrored (os @ [Port_Write_U16 b w, Port_Write_U16 c x, Port_Write_U16 d y])"
  by (simp_all add: mirrored_def)

lemma mirrored_lines: "(\<And>x. mirrored (f x)) \<Longrightarrow> mirrored (concat (map f xs))"
  by (simp add: mirrored_concat)

lemmas mirrored_intros = mirrored_both mirrored_append mirrored_lines mirrored_Set_Colors mirrored_ports

lemma mirrored_listings:
  "mirrored (print_drivers mgr)" "mirrored (print_ifconfig st)" "mirrored print_netstat"
  "mirrored (print_vmap vu fs mm)" "mirrored (list_directory_cmd v path)" "mirrored (print_tree v)"
  "mirrored (ps_row t)"
proof -
  show "mirrored (print_drivers mgr)"
    unfolding print_drivers_def Let_def split_beta by (intro mirrored_intros)
  show "mirrored (print_ifconfig st)"
    unfolding print_ifconfig_def by (intro mirrored_intros)
  show "mirrored print_netstat"
    unfolding print_netstat_def by (intro mirrored_intros)
  show "mirrored (print_vmap vu fs mm)"
    unfolding print_vmap_def by (intro mirrored_intros)
  show "mirrored (ps_row t)"
    unfolding ps_row_def by (intro mirrored_intros)
  have entries: "mirrored (concat (map (\<lambda>(name, is_dir). both_ln (f name is_dir)) es))"
    for f :: "string \<Rightarrow> bool \<Rightarrow> string" and es
    unfolding split_beta by (intro mirrored_intros)
  show "mirrored (list_directory_cmd v path)"
    unfolding list_directory_cmd_def Let_def
    by (auto intro!: mirrored_append entries split: option.split)
  show "mirrored (print_tree v)"
    unfolding print_tree_def by (auto intro!: mirrored_append entries split: option.split)
qed

lemma ping_mirrored: "ping st target = Inr (os, st') \<Longrightarrow> mirrored os"
  unfolding ping_def ping_reply_def Let_def
  by (auto simp: bind_res_eq_Inr intro!: mirrored_append split: if_splits)

lemma file_command_mirrored: "mirrored (fst (file_command c args fs))"
  by (simp add: file_command_def cd_command_def split_beta Let_def)

lemma system_command_mirrored: "system_command e c k = Some os \<Longrightarrow> mirrored os"
  by (simp add: system_command_def heap_stats_def Let_def split: if_split_asm) (auto simp: mirrored_listings)

lemma listing_command_mirrored: "listing_command e c args k = Some os \<Longrightarrow> mirrored os"
  by (simp add: listing_command_def Let_def split: if_split_asm)
    (auto simp: mirrored_listings mirrored_Set_Colors)

lemma console_command_mirrored:
  "console_command e c args k = Some os \<Longrightarrow> c \<noteq> ''clear'' \<Longrightarrow> mirrored os"
  by (simp add: console_command_def Let_def split_beta split: if_split_asm)
    (auto intro!: mirrored_intros mirrored_listings)

lemma power_command_mirrored: "power_command c = Some os \<Longrightarrow> mirrored os"
  by (auto simp: power_command_def intro!: mirrored_intros split: if_split_asm)

lemma command_mirrored:
  assumes "handle_command e cmd k = Inr (os, k')" "command_name cmd \<noteq> ''clear''"
  shows "mirrored os"
  using assms(1)
proof (cases rule: handle_command_outcome)
  case info
  then show ?thesis
    using assms(2) system_command_mirrored listing_command_mirrored console_command_mirrored
      power_command_mirrored
    by (auto simp: info_command_def split: option.splits)
next
  case (files fs)
  then show ?thesis by (metis file_command_mirrored fst_conv)
next
  case other
  then show ?thesis
  proof (cases rule: other_command_outcome)
    case prompt
    then show ?thesis by (auto simp: prompt_command_def Let_def split: if_splits)
  next
    case spawn
    then show ?thesis by (simp add: spawn_command_def split_beta Let_def)
  next
    case kill
    then show ?thesis by (auto simp: kill_command_def split_beta Let_def split: option.splits)
  next
    case ping
    then show ?thesis by (auto simp: ping_command_def bind_res_eq_Inr ping_mirrored)
  qed simp
qed

subsection \<open>From the devices to the command\<close>

lemma file_lines:
  "file_command ''write'' args fs =
     (let (path, content) = split_command args in
      if path = [] then (both_ln ''usage: write <filename> <text>'', fs)
      else let (ok, fs) = write_file_string fs path content
           in (both_ln (if ok then ''wrote to file '' @ [CHR 0x27] @ path @ [CHR 0x27]
                        else ''write: failed to write file: '' @ path), fs))"
  "file_command ''cat'' args fs =
     (both_ln (if args = [] then ''usage: cat <filename>''
               else case read_file_string fs args of
                 Some content \<Rightarrow> content
               | None \<Rightarrow> ''cat: file not found: '' @ args), fs)"
  by (simp_all add: file_command_def)

lemma file_names:
  assumes "c \<in> {''write'', ''cat''}"
  shows "info_command e c args k = None" "is_file_command c"
  using assms
  by (elim insertE emptyE; simp add: info_command_def system_command_def listing_command_def
      console_command_def power_command_def is_file_command_def)+

lemma split_write: "split_command (''write '' @ r) = (''write'', trim r)"
  and split_cat: "split_command (''cat '' @ r) = (''cat'', trim r)"
  using split_command_space [of "''write''" r] split_command_space [of "''cat''" r] by simp_all

lemma both_ln_eq [simp]: "both_ln s = both_ln t \<longleftrightarrow> s = t"
  by (simp add: both_ln_def both_def)

lemma trim_ends:
  assumes "is_word v" "trim t = t" "t \<noteq> []"
  shows "trim (v @ CHR '' '' # t) = v @ CHR '' '' # t"
proof -
  have "\<not> is_whitespace (last t)"
    using assms(2,3) trim_by_last [of is_whitespace t] by (simp add: trim_def)
  with assms(1,3) show ?thesis
    unfolding trim_def by (intro trim_by_id) (auto simp: is_word_def)
qed

lemma write_command:
  assumes f: "is_word f" and t: "trim txt = txt" "txt \<noteq> []"
  shows "handle_command e (''write '' @ f @ '' '' @ txt) k =
     (let (ok, fs) = write_file_string (k_vfs k) f txt
      in Inr (both_ln (if ok then ''wrote to file '' @ [CHR 0x27] @ f @ [CHR 0x27]
                       else ''write: failed to write file: '' @ f), k\<lparr>k_vfs := fs\<rparr>))"
proof -
  have sp: "split_command (''write '' @ f @ '' '' @ txt) = (''write'', f @ CHR '' '' # txt)"
    using split_write [of "f @ '' '' @ txt"] trim_ends [OF assms] by simp
  have ar: "split_command (f @ CHR '' '' # txt) = (f, txt)"
    using split_command_space [OF is_word_blank [OF f]] t by simp
  have "f \<noteq> []" using f by (simp add: is_word_def)
  then show ?thesis
    using handle_command_simps(2) [of e "''write '' @ f @ '' '' @ txt" k] sp
    by (simp add: file_names file_lines ar split_beta Let_def)
qed

lemma cat_command:
  assumes "is_word f"
  shows "handle_command e (''cat '' @ f) k =
     Inr (both_ln (case read_file_string (k_vfs k) f of
                     Some content \<Rightarrow> content | None \<Rightarrow> ''cat: file not found: '' @ f), k)"
proof -
  have "split_command (''cat '' @ f) = (''cat'', f)" "f \<noteq> []"
    using split_cat [of f] trim_word [OF assms] assms by (simp_all add: is_word_def)
  then show ?thesis
    using handle_command_simps(2) [of e "''cat '' @ f" k] by (simp add: file_names file_lines)
qed

lemma run_once_polls:
  assumes "byte_device kb_status kb_data kb_pending" "byte_device ua_status ua_data ua_pending"
  shows "\<exists>kb' ua'. run_once kb_status kb_data ua_status ua_data e kb ua k =
      (let (os, b) = feed keyboard_byte (kb_pending kb) (k_input k); (os', b) = feed serial_byte (ua_pending ua) b
       in Some (bind_res (run_line e (k\<lparr>k_input := b\<rparr>)) (\<lambda>(os'', k). Inr (os @ os' @ os'', k)), kb', ua'))
      \<and> kb_pending kb' = [] \<and> ua_pending ua' = []"
proof -
  let ?b = "snd (feed keyboard_byte (kb_pending kb) (k_input k))"
  obtain kb' where "poll_keyboard kb_status kb_data kb (k_input k)
      = Some (fst (feed keyboard_byte (kb_pending kb) (k_input k)), ?b, kb')" "kb_pending kb' = []"
    using byte_device.drain_feeds [OF assms(1), of keyboard_byte kb "k_input k"] unfolding poll_keyboard_def received_eq by blast
  moreover obtain ua' where "poll_serial_input ua_status ua_data ua ?b
      = Some (fst (feed serial_byte (ua_pending ua) ?b), snd (feed serial_byte (ua_pending ua) ?b), ua')"
      "ua_pending ua' = []"
    using byte_device.drain_feeds [OF assms(2), of serial_byte ua ?b] unfolding poll_serial_input_def received_eq shell_serial_byte_eq by blast
  ultimately show ?thesis
    by (intro exI [of _ kb'] exI [of _ ua']) (simp add: run_once_def split_beta Let_def)
qed

lemma run_line_first:
  "ready_lines (k_input k) = l # q \<Longrightarrow> run_line e k =
     bind_res (handle_command e (trim l) (k\<lparr>k_input := (k_input k)\<lparr>ready_lines := q\<rparr>\<rparr>))
       (\<lambda>(os, k). Inr (os @ print_prompt k, k))"
  by (simp add: run_line_def pop_line_def)

subsection \<open>What can stop the kernel\<close>

lemma calc_panics:
  assumes "calc args = Inl p"
  obtains p0 operator p2 a b v where "split_whitespace args = [p0, operator, p2]"
    "parse_i64 p0 = Some a" "parse_i64 p2 = Some b" "exact_result operator a b v"
    "\<not> in_i64 v \<or> rem_overflows operator a b"
proof -
  from assms obtain p0 operator p2 a b where s: "split_whitespace args = [p0, operator, p2]"
    "parse_i64 p0 = Some a" "parse_i64 p2 = Some b" and op: "calc_op operator a b = Inl p"
    by (auto simp: calc_def bind_res_def split: list.splits option.splits sum.splits)
  from op have "\<exists>v. exact_result operator a b v"
    using calc_op_undefined [of operator a b] by fastforce
  then obtain v where v: "exact_result operator a b v" ..
  with op have "\<not> in_i64 v \<or> rem_overflows operator a b"
    using calc_op_exact [OF v] by fastforce
  with s v that show ?thesis by blast
qed

text \<open>A counter that four more packets, or 256 more bytes, do not fit.\<close>

definition counter_full :: "network_interface \<Rightarrow> bool" where
  "counter_full i = (\<exists>c\<in>{tx_packets i, rx_packets i, tx_bytes i, rx_bytes i}. 2 ^ 64 \<le> unat c + 256)"

lemma checked_add_Inl:
  fixes a b :: u64
  shows "checked_add a b = Inl p \<Longrightarrow> 2 ^ 64 \<le> unat a + unat b"
  unfolding checked_add_def uint_fits_add by (simp split: if_splits)

lemma count_ping_panics: "count_ping i = Inl p \<Longrightarrow> counter_full i"
proof -
  assume "count_ping i = Inl p"
  then obtain c d where c: "c \<in> {tx_packets i, rx_packets i, tx_bytes i, rx_bytes i}"
    and d: "d = 4 \<or> d = 256" and "checked_add c d = Inl p"
    unfolding count_ping_def by (auto simp: bind_res_def split: sum.splits)
  then have "2 ^ 64 \<le> unat c + unat d" by (intro checked_add_Inl)
  moreover have "unat d \<le> 256" using d by auto
  ultimately have "2 ^ 64 \<le> unat c + 256" by linarith
  with c show ?thesis unfolding counter_full_def by blast
qed

lemma ping_interfaces_panics:
  "ping_interfaces target is = Inl p \<Longrightarrow> \<exists>i\<in>set is. answers target i \<and> counter_full i"
proof (induction "is")
  case (Cons i r)
  then show ?case
  proof (cases "answers target i")
    case True
    with Cons.prems have "count_ping i = Inl p"
      by (cases "count_ping i") simp_all
    with True count_ping_panics show ?thesis by auto
  next
    case False
    with Cons show ?thesis by (cases "ping_interfaces target r") auto
  qed
qed simp

lemma ping_panics:
  "ping st target = Inl p \<Longrightarrow> \<exists>i\<in>set (interfaces st). answers target i \<and> counter_full i"
  using ping_interfaces_panics [of target "interfaces st"]
  by (cases "ping_interfaces target (interfaces st)")
    (auto simp: ping_def stack_ping_def Let_def split: if_splits)

subsection \<open>The booted kernel\<close>

definition booted :: kernel where
  "booted = \<lparr>k_input = new_input, k_vfs = init_vfs, k_sched = booted_scheduler, k_ticks = 0,
     k_net = new_stack, k_prompt = ''root''\<rparr>"

lemma booted_kernel_eq: "booted_kernel = Inr booted"
  by (simp add: booted_kernel_def booted_def init_scheduler_eq)

text \<open>An environment for the examples.\<close>

definition sample_env :: "(u64, u64) env" where
  "sample_env = \<lparr>clock = \<lparr>year = 2026, month = 1, day = 1, hour = 12, minute = 30, second = 42\<rparr>,
     heap_used = 1024, heap_free = 261120, show_percent = (\<lambda>_ _. ''0.4''), cpuid = (0, 0, 0),
     manager = new_manager, vm_manager = \<lparr>spaces = []\<rparr>, env_virt_u64 = id, env_frame_start = id\<rparr>"

subsection \<open>Properties\<close>



text \<open>C28. \<^verbatim>\<open>calc\<close> is exact: for any two 64-bit numbers, if the operation is defined and its result
  (quotients rounded toward zero, remainders with the sign of the dividend) is a 64-bit
  number, that result is printed; if it is defined but does not fit, or is the remainder of
  the smallest number by -1, the kernel panics; if it is not defined (a zero divisor, an
  unknown operator), the error message is printed.\<close>

theorem calc_exact:
  assumes "in_i64 a" "in_i64 b" "is_word operator"
  shows "let result = calc (show_int a @ '' '' @ operator @ '' '' @ show_int b) in
       (\<forall>v. exact_result operator a b v \<and> in_i64 v \<and> \<not> rem_overflows operator a b \<longrightarrow>
            result = Inr (show_int a @ '' '' @ operator @ '' '' @ show_int b @ '' = '' @ show_int v))
       \<and> (\<forall>v. exact_result operator a b v \<and> (\<not> in_i64 v \<or> rem_overflows operator a b) \<longrightarrow>
            (\<exists>p. result = Inl p))
       \<and> ((\<nexists>v. exact_result operator a b v) \<longrightarrow>
            result = Inr ''calc error: invalid operator or division by zero'')"
  unfolding Let_def calc_parts [OF assms]
  using calc_op_exact calc_op_overflow [OF assms(2)] calc_op_undefined by fastforce

text \<open>\<open>-7 / 2\<close> is \<open>-3\<close>, and the sum of the two largest numbers panics.\<close>

theorem calc_exact_witness:
  "calc (show_int (-7) @ '' '' @ ''/'' @ '' '' @ show_int 2)
     = Inr (show_int (-7) @ '' '' @ ''/'' @ '' '' @ show_int 2 @ '' = '' @ show_int (-3))
   \<and> (\<exists>p. calc (show_int i64_max @ '' '' @ ''+'' @ '' '' @ show_int i64_max) = Inl p)"
proof
  have w: "is_word ''/''" "is_word ''+''" by (simp_all add: is_word_def is_whitespace_def)
  have i: "in_i64 (-7)" "in_i64 2" "in_i64 (-3)" "in_i64 i64_max" "\<not> in_i64 (i64_max + i64_max)"
    by (simp_all add: in_i64_def i64_min_def i64_max_def)
  have "truncating (-7) 2 (-3) (-1)" by (simp add: truncating_def)
  then have "exact_result ''/'' (-7) 2 (-3)" by (auto simp: exact_result_def)
  moreover have "\<not> rem_overflows ''/'' (-7) 2" by (simp add: rem_overflows_def)
  ultimately show "calc (show_int (-7) @ '' '' @ ''/'' @ '' '' @ show_int 2)
     = Inr (show_int (-7) @ '' '' @ ''/'' @ '' '' @ show_int 2 @ '' = '' @ show_int (-3))"
    using calc_exact [OF i(1,2) w(1), unfolded Let_def] i(3) by blast
  have "exact_result ''+'' i64_max i64_max (i64_max + i64_max)" by (simp add: exact_result_def)
  with i(5) show "\<exists>p. calc (show_int i64_max @ '' '' @ ''+'' @ '' '' @ show_int i64_max) = Inl p"
    using calc_exact [OF i(4,4) w(2), unfolded Let_def] by blast
qed

text \<open>What is written can be read: after a \<^verbatim>\<open>write\<close> command that reports success, \<^verbatim>\<open>cat\<close> of the
  same name prints the text that was typed, on both consoles, and changes nothing.\<close>

theorem write_then_cat:
  assumes "vfs_inv (k_vfs k)" "is_word f" "list_all is_printable txt" "trim txt = txt" "txt \<noteq> []"
    and "handle_command e (''write '' @ f @ '' '' @ txt) k
           = Inr (both_ln (''wrote to file '' @ [CHR 0x27] @ f @ [CHR 0x27]), k')"
  shows "handle_command e' (''cat '' @ f) k' = Inr (both_ln txt, k')"
proof -
  have utf8: "utf8_valid txt" using assms(3) by (simp add: ascii_utf8 printable_ascii list_all_iff)
  have ok: "fst (write_file_string (k_vfs k) f txt)" and "k_vfs k' = snd (write_file_string (k_vfs k) f txt)"
    using assms(6) unfolding write_command [OF assms(2,4,5)]
    by (auto simp: split_beta Let_def simp del: write_file_string_simps split: if_splits)
  with read_written [OF assms(1) ok utf8] show ?thesis
    unfolding cat_command [OF assms(2)] by (simp del: write_file_string_simps)
qed

text \<open>On the booted kernel, \<^verbatim>\<open>write note hi you\<close> and then \<^verbatim>\<open>cat note\<close>.\<close>

theorem write_then_cat_witness:
  "\<exists>k'. handle_command sample_env (''write '' @ ''note'' @ '' '' @ ''hi you'') booted
       = Inr (both_ln (''wrote to file '' @ [CHR 0x27] @ ''note'' @ [CHR 0x27]), k')
     \<and> handle_command sample_env (''cat '' @ ''note'') k' = Inr (both_ln ''hi you'', k')"
proof -
  have w: "is_word ''note''" by (simp add: is_word_def is_whitespace_def)
  have t: "list_all is_printable ''hi you''" "trim ''hi you'' = ''hi you''" "''hi you'' \<noteq> []"
    by code_simp+
  have "fst (write_file_string init_vfs ''note'' ''hi you'')" by code_simp
  then have wr: "handle_command sample_env (''write '' @ ''note'' @ '' '' @ ''hi you'') booted
       = Inr (both_ln (''wrote to file '' @ [CHR 0x27] @ ''note'' @ [CHR 0x27]),
              booted\<lparr>k_vfs := snd (write_file_string init_vfs ''note'' ''hi you'')\<rparr>)"
    unfolding write_command [OF w t(2,3)]
    by (simp add: split_beta Let_def booted_def del: write_file_string_simps)
  have "vfs_inv (k_vfs booted)" by (simp add: booted_def vfs_inv_init)
  from write_then_cat [OF this w t wr] wr show ?thesis by blast
qed



text \<open>C35. Both consoles agree: whatever a command other than \<^verbatim>\<open>clear\<close> sends to the serial line, it
  draws the same text on the screen, and the prompt after it too.\<close>

theorem consoles_agree:
  assumes "handle_command e cmd k = Inr (os, k')" "command_name cmd \<noteq> ''clear''"
  shows "serial_text (os @ print_prompt k') = screen_text (os @ print_prompt k')"
proof -
  have "mirrored (os @ print_prompt k')"
    using command_mirrored [OF assms] by (intro mirrored_append) (simp_all add: print_prompt_def)
  then show ?thesis by (simp add: mirrored_def)
qed

theorem consoles_agree_witness:
  "\<exists>os. handle_command sample_env ''cat nothing'' booted = Inr (os, booted)
     \<and> serial_text (os @ print_prompt booted) = screen_text (os @ print_prompt booted)"
proof -
  have w: "is_word ''nothing''" by (simp add: is_word_def is_whitespace_def)
  obtain os where h: "handle_command sample_env ''cat nothing'' booted = Inr (os, booted)"
    using cat_command [OF w, of sample_env booted] by simp
  have "command_name ''cat nothing'' \<noteq> ''clear''" by code_simp
  from consoles_agree [OF h this] h show ?thesis by blast
qed

end
