(* ===== verification/Kernel.thy ===== *)
theory Kernel
  imports Shell_Facts
begin

text \<open>
  The running kernel: the main loop of \<^verbatim>\<open>scheduler::run\<close>, the shell's rounds and the three
  interrupt handlers as one transition system. An interrupt may arrive between any two
  steps. A round of the shell polls the devices (each byte a step of its own) and then takes
  at most one line and runs it: one step, because what a command reads of the interrupt
  handlers' state it reads once and it writes none of it, so an interrupt during a command
  has the effect of one before or after it (theory Atomicity). The machine's projection on the scheduler is the
  transition system of theory Scheduler.
\<close>

subsection \<open>State and steps\<close>

text \<open>Where the main loop is: between two dispatches, in a task's function, or behind it and before
  \<^verbatim>\<open>finish_task\<close>.\<close>

datatype cpu_state =
    Between
  | In_Task nat task_fn task_context
  | Returned nat task_fn task_context

record machine =
  kern :: kernel
  cpu :: cpu_state

text \<open>\<open>E\<close> are the environments the machine may present: clock readings, heap counters.\<close>

inductive kernel_step :: "('v, 'f) env set \<Rightarrow> machine \<Rightarrow> machine \<Rightarrow> bool" for E where
  timer_irq: "timer_handler (k_ticks (kern m)) = (os, t) \<Longrightarrow>
     kernel_step E m (m\<lparr>kern := (kern m)\<lparr>k_ticks := t\<rparr>\<rparr>)"
| keyboard_irq: "keyboard_byte x (k_input (kern m)) = (os, b) \<Longrightarrow>
     kernel_step E m (m\<lparr>kern := (kern m)\<lparr>k_input := b\<rparr>\<rparr>)"
| serial_irq: "serial_byte x (k_input (kern m)) = (os, b) \<Longrightarrow>
     kernel_step E m (m\<lparr>kern := (kern m)\<lparr>k_input := b\<rparr>\<rparr>)"
| dispatch: "cpu m = Between \<Longrightarrow>
     prepare_next (k_sched (kern m)) (k_ticks (kern m)) = Inr (Some (idx, func, ctx), s) \<Longrightarrow>
     kernel_step E m (m\<lparr>kern := (kern m)\<lparr>k_sched := s\<rparr>, cpu := In_Task idx func ctx\<rparr>)"
| poll_keyboard: "cpu m = In_Task idx Shell_Task ctx \<Longrightarrow> keyboard_byte x (k_input (kern m)) = (os, b) \<Longrightarrow>
     kernel_step E m (m\<lparr>kern := (kern m)\<lparr>k_input := b\<rparr>\<rparr>)"
| poll_serial: "cpu m = In_Task idx Shell_Task ctx \<Longrightarrow> shell_serial_byte x (k_input (kern m)) = (os, b) \<Longrightarrow>
     kernel_step E m (m\<lparr>kern := (kern m)\<lparr>k_input := b\<rparr>\<rparr>)"
| shell_line: "cpu m = In_Task idx Shell_Task ctx \<Longrightarrow> e \<in> E \<Longrightarrow> run_line e (kern m) = Inr (os, k) \<Longrightarrow>
     kernel_step E m (m\<lparr>kern := k, cpu := Returned idx Shell_Task ctx\<rparr>)"
| other_task: "cpu m = In_Task idx func ctx \<Longrightarrow> func \<noteq> Shell_Task \<Longrightarrow>
     kernel_step E m (m\<lparr>cpu := Returned idx func ctx\<rparr>)"
| complete: "cpu m = Returned idx func ctx \<Longrightarrow>
     finish_task (k_sched (kern m)) idx (run_task func ctx) = Inr s \<Longrightarrow>
     kernel_step E m (m\<lparr>kern := (kern m)\<lparr>k_sched := s\<rparr>, cpu := Between\<rparr>)"

definition kernel_boot :: "machine \<Rightarrow> bool" where
  "kernel_boot m = (booted_kernel = Inr (kern m) \<and> cpu m = Between)"

subsection \<open>The scheduler's view\<close>

fun dispatched :: "cpu_state \<Rightarrow> (nat \<times> task_fn \<times> task_context) option" where
  "dispatched Between = None"
| "dispatched (In_Task idx func ctx) = Some (idx, func, ctx)"
| "dispatched (Returned idx func ctx) = Some (idx, func, ctx)"

definition sched_view :: "machine \<Rightarrow> sched_sys" where
  "sched_view m = \<lparr>sched = k_sched (kern m), ticks = k_ticks (kern m), on_cpu = dispatched (cpu m)\<rparr>"

lemma run_line_Inr:
  assumes "run_line e k = Inr (os, k')"
  obtains (idle) "ready_lines (k_input k) = []" "k' = k"
  | (command) l q os' where "ready_lines (k_input k) = l # q"
      "handle_command e (trim l) (k\<lparr>k_input := (k_input k)\<lparr>ready_lines := q\<rparr>\<rparr>) = Inr (os', k')"
proof (cases "ready_lines (k_input k)")
  case Nil
  with assms have "k' = k" by (simp add: run_line_def pop_line_def)
  with Nil show ?thesis by (rule idle)
next
  case (Cons l q)
  with assms run_line_first [OF Cons, of e] show ?thesis
    by (auto simp: bind_res_eq_Inr intro: command)
qed

lemma run_line_sched:
  assumes "run_line e k = Inr (os, k')"
  shows "(k_sched k' = k_sched k \<or> (\<exists>op. k_sched k' = apply_op op (k_sched k))) \<and> k_ticks k' = k_ticks k"
  using assms
proof (cases rule: run_line_Inr)
  case (command l q os')
  from command_sched [OF command(2)] command_frame [OF command(2)] show ?thesis by simp
qed simp

lemma kernel_step_sched:
  assumes "kernel_step E m m'"
  shows "sched_view m' = sched_view m \<or> sched_step (sched_view m) (sched_view m')"
  using assms
proof cases
  case (timer_irq os t)
  then show ?thesis
    using sched_step.timer [of "sched_view m"] by (simp add: sched_view_def timer_handler_def)
next
  case (dispatch idx func ctx s)
  then show ?thesis
    using sched_step.dispatch [of "sched_view m" "Some (idx, func, ctx)" s] by (simp add: sched_view_def)
next
  case (shell_line idx ctx e os k)
  then show ?thesis
    using run_line_sched [OF shell_line(4)] sched_step.shell_op [of "sched_view m" idx ctx]
    by (auto simp: sched_view_def)
next
  case (complete idx func ctx s)
  then show ?thesis
    using sched_step.complete [of "sched_view m" idx func ctx s] by (simp add: sched_view_def)
qed (auto simp: sched_view_def)

subsection \<open>The shell is never lost\<close>

text \<open>The slot \<^verbatim>\<open>scheduler::init\<close> gives the shell. Between rounds its task is ready; during its own
  round it may have been marked finished by a \<^verbatim>\<open>kill\<close> of itself, which \<^verbatim>\<open>finish_task\<close> undoes
  before any \<^verbatim>\<open>spawn\<close> could take the slot.\<close>

definition shell_slot :: nat where
  "shell_slot = 3"

lemma shell_slot_lt [simp]: "shell_slot < max_tasks"
  by (simp add: shell_slot_def max_tasks_def)

fun shell_state :: "cpu_state \<Rightarrow> task_state \<Rightarrow> bool" where
  "shell_state Between st = (st = Ready)"
| "shell_state (In_Task idx func ctx) st = (st = (if idx = shell_slot then Running else Ready))"
| "shell_state (Returned idx func ctx) st = (idx = shell_slot \<or> st = Ready)"

definition slot_ok :: "cpu_state \<Rightarrow> nat \<Rightarrow> task option \<Rightarrow> bool" where
  "slot_ok c j slot =
     (case slot of
        None \<Rightarrow> j \<noteq> shell_slot
      | Some t \<Rightarrow> (t_func t = Shell_Task \<longleftrightarrow> j = shell_slot) \<and> (j = shell_slot \<longrightarrow> shell_state c (t_state t)))"

definition cpu_ok :: "cpu_state \<Rightarrow> bool" where
  "cpu_ok c =
     (case dispatched c of
        None \<Rightarrow> True
      | Some (idx, func, ctx) \<Rightarrow> (func = Shell_Task \<longleftrightarrow> idx = shell_slot) \<and> \<not> finished ctx)"

definition shell_kept :: "machine \<Rightarrow> bool" where
  "shell_kept m = (cpu_ok (cpu m) \<and> (\<forall>j<max_tasks. slot_ok (cpu m) j (tasks (k_sched (kern m)) ! j)))"

lemma shell_keptD:
  "shell_kept m \<Longrightarrow> cpu_ok (cpu m)"
  "shell_kept m \<Longrightarrow> j < max_tasks \<Longrightarrow> slot_ok (cpu m) j (tasks (k_sched (kern m)) ! j)"
  by (simp_all add: shell_kept_def)

lemma slot_ok_None [simp]: "slot_ok c j None \<longleftrightarrow> j \<noteq> shell_slot"
  and slot_ok_Some [simp]: "slot_ok c j (Some t) \<longleftrightarrow>
    (t_func t = Shell_Task \<longleftrightarrow> j = shell_slot) \<and> (j = shell_slot \<longrightarrow> shell_state c (t_state t))"
  by (simp_all add: slot_ok_def)

lemma slot_ok_cong: "j \<noteq> shell_slot \<Longrightarrow> slot_ok c j slot = slot_ok c' j slot"
  by (simp add: slot_ok_def split: option.split)

lemma shell_kept_dispatch:
  assumes kept: "shell_kept m" and between: "cpu m = Between"
    and p: "prepare_next (k_sched (kern m)) tick = Inr (Some (idx, func, ctx), s)"
    and len: "length (tasks (k_sched (kern m))) = max_tasks"
  shows "shell_kept (m\<lparr>kern := (kern m)\<lparr>k_sched := s\<rparr>, cpu := In_Task idx func ctx\<rparr>)"
  using p
proof (cases rule: prepare_next_cases)
  case (run i t)
  have i: "i < max_tasks" by (rule next_runnable_bound [OF run(1)])
  have slot: "slot_ok Between j (tasks (k_sched (kern m)) ! j)" if "j < max_tasks" for j
    using shell_keptD(2) [OF kept that] between by simp
  from slot [OF i] run(2) have f: "t_func t = Shell_Task \<longleftrightarrow> i = shell_slot" by simp
  have "slot_ok (In_Task i func ctx) j (tasks s ! j)" if j: "j < max_tasks" for j
  proof (cases "j = i")
    case True
    then show ?thesis using j len f by (simp add: run(6))
  next
    case False
    then have eq: "tasks s ! j = tasks (k_sched (kern m)) ! j" by (simp add: run(6))
    show ?thesis
    proof (cases "j = shell_slot")
      case True
      with slot [OF j] False show ?thesis
        unfolding eq by (simp add: slot_ok_def split: option.splits)
    next
      case False
      with slot [OF j] show ?thesis unfolding eq by (metis slot_ok_cong)
    qed
  qed
  moreover have "cpu_ok (In_Task i func ctx)" using run(5) f by (simp add: cpu_ok_def)
  ultimately show ?thesis using run(5) by (simp add: shell_kept_def)
qed simp

lemma shell_kept_op:
  assumes kept: "shell_kept m" and task: "cpu m = In_Task idx Shell_Task ctx"
    and len: "length (tasks (k_sched (kern m))) = max_tasks"
    and k: "k_sched k = k_sched (kern m) \<or> (\<exists>op. k_sched k = apply_op op (k_sched (kern m)))"
  shows "shell_kept (m\<lparr>kern := k, cpu := Returned idx Shell_Task ctx\<rparr>)"
proof -
  have cpu: "idx = shell_slot" "cpu_ok (Returned idx Shell_Task ctx)"
    using shell_keptD(1) [OF kept] task by (simp_all add: cpu_ok_def)
  have "slot_ok (Returned idx Shell_Task ctx) j (tasks (k_sched k) ! j)" if j: "j < max_tasks" for j
  proof -
    let ?slot = "tasks (k_sched (kern m)) ! j"
    have jl: "j < length (tasks (k_sched (kern m)))" using j len by simp
    have old: "slot_ok (In_Task idx Shell_Task ctx) j ?slot"
      using shell_keptD(2) [OF kept j] task by simp
    then have same: "slot_ok (Returned idx Shell_Task ctx) j ?slot"
      using cpu(1) by (auto simp: slot_ok_def split: option.splits)
    from k show ?thesis
    proof (elim disjE exE)
      fix op assume op: "k_sched k = apply_op op (k_sched (kern m))"
      show ?thesis
        using jl unfolding op
      proof (cases rule: apply_op_slot [where op = op])
        case (killed t)
        with old cpu(1) show "slot_ok (Returned idx Shell_Task ctx) j (tasks (apply_op op (k_sched (kern m))) ! j)"
          by simp
      next
        case (spawned name)
        with old cpu(1) show "slot_ok (Returned idx Shell_Task ctx) j (tasks (apply_op op (k_sched (kern m))) ! j)"
          by (auto simp: slot_free_def slot_ok_def new_task_def Option.is_none_def split: option.splits)
      qed (use same in simp_all)
    qed (use same in simp)
  qed
  with cpu(2) show ?thesis by (simp add: shell_kept_def)
qed

lemma shell_kept_complete:
  assumes kept: "shell_kept m" and ret: "cpu m = Returned idx func ctx"
    and f: "finish_task (k_sched (kern m)) idx (run_task func ctx) = Inr s"
    and len: "length (tasks (k_sched (kern m))) = max_tasks"
  shows "shell_kept (m\<lparr>kern := (kern m)\<lparr>k_sched := s\<rparr>, cpu := Between\<rparr>)"
proof -
  from f obtain t where t: "tasks (k_sched (kern m)) ! idx = Some t"
    and s: "tasks s = (tasks (k_sched (kern m)))[idx := Some (t\<lparr>t_state :=
        (if finished (run_task func ctx) then Finished else Ready)\<rparr>)]"
    by (auto simp: finish_task_def split: option.splits)
  have cpu: "func = Shell_Task \<longleftrightarrow> idx = shell_slot" "\<not> finished ctx"
    using shell_keptD(1) [OF kept] ret by (simp_all add: cpu_ok_def)
  have "slot_ok Between j (tasks s ! j)" if j: "j < max_tasks" for j
  proof -
    have old: "slot_ok (Returned idx func ctx) j (tasks (k_sched (kern m)) ! j)"
      using shell_keptD(2) [OF kept j] ret by simp
    show ?thesis
    proof (cases "j = idx")
      case True
      have "idx = shell_slot \<Longrightarrow> \<not> finished (run_task func ctx)"
        using cpu by (cases func) (simp_all add: yield_now_def)
      then show ?thesis using True old t j len by (auto simp: s)
    next
      case False
      then have "tasks s ! j = tasks (k_sched (kern m)) ! j" by (simp add: s)
      with old False show ?thesis by (simp add: slot_ok_def split: option.splits)
    qed
  qed
  then show ?thesis by (simp add: shell_kept_def cpu_ok_def)
qed

text \<open>Steps that touch neither the table nor the CPU, and a task other than the shell returning.\<close>

lemma shell_kept_frame: "shell_kept m \<Longrightarrow> k_sched k = k_sched (kern m) \<Longrightarrow> shell_kept (m\<lparr>kern := k\<rparr>)"
  by (simp add: shell_kept_def)

lemma shell_kept_other:
  assumes kept: "shell_kept m" and task: "cpu m = In_Task idx func ctx" "func \<noteq> Shell_Task"
  shows "shell_kept (m\<lparr>cpu := Returned idx func ctx\<rparr>)"
proof -
  have "cpu_ok (Returned idx func ctx)" "idx \<noteq> shell_slot"
    using shell_keptD(1) [OF kept] task by (simp_all add: cpu_ok_def)
  moreover have "slot_ok (Returned idx func ctx) j slot = slot_ok (cpu m) j slot" for j slot
    using calculation(2) task(1) by (simp add: slot_ok_def split: option.split)
  ultimately show ?thesis using kept by (simp add: shell_kept_def)
qed

subsection \<open>The invariant of the kernel\<close>

definition kernel_inv :: "machine \<Rightarrow> bool" where
  "kernel_inv m \<longleftrightarrow>
     sched_sys_inv (sched_view m) \<and> shell_kept m \<and> vfs_inv (k_vfs (kern m)) \<and> input_inv (k_input (kern m))"

lemma kernel_invD:
  assumes "kernel_inv m"
  shows "sched_sys_inv (sched_view m)" "shell_kept m" "vfs_inv (k_vfs (kern m))" "input_inv (k_input (kern m))"
    "length (tasks (k_sched (kern m))) = max_tasks"
  using assms by (simp_all add: kernel_inv_def sched_sys_inv_def sched_wf_def sched_view_def)

lemma good_line_trim: "good_line l \<Longrightarrow> list_all is_printable (trim l)"
  using set_trim [of l] by (auto simp: good_line_def list_all_iff)

lemma run_line_inv:
  assumes run: "run_line e k = Inr (os, k')" and inv: "vfs_inv (k_vfs k)" "input_inv (k_input k)"
  shows "vfs_inv (k_vfs k') \<and> input_inv (k_input k')"
  using run
proof (cases rule: run_line_Inr)
  case (command l q os')
  have "good_line l" using inv(2) command(1) by (simp add: input_inv_def)
  then have "vfs_inv (k_vfs k')"
    using command_vfs_inv [OF command(2) _ good_line_trim] inv(1) by simp
  moreover have "input_inv (k_input k')"
    using command_frame [OF command(2)] inv(2) command(1) by (simp add: input_inv_def)
  ultimately show ?thesis ..
qed (use inv in simp)

lemma kernel_boot_inv: "kernel_boot m \<Longrightarrow> kernel_inv m"
proof -
  assume "kernel_boot m"
  then have m: "kern m = booted" "cpu m = Between"
    by (simp_all add: kernel_boot_def booted_kernel_eq)
  have "sched_boot (sched_view m)"
    by (simp add: m sched_boot_def sched_view_def init_scheduler_eq booted_def)
  then have "sched_sys_inv (sched_view m)" by (rule sched_boot_inv)
  moreover have "\<forall>j<max_tasks. slot_ok Between j (tasks booted_scheduler ! j)"
    unfolding max_tasks_def
    by (simp add: booted_scheduler_def new_task_def shell_slot_def numeral_eq_Suc All_less_Suc)
  then have "shell_kept m" by (simp add: shell_kept_def m cpu_ok_def booted_def)
  ultimately show ?thesis
    by (simp add: kernel_inv_def m) (simp add: booted_def vfs_inv_init input_inv_new)
qed

lemma sched_view_inv:
  "sched_sys_inv (sched_view m) \<Longrightarrow> kernel_step E m m' \<Longrightarrow> sched_sys_inv (sched_view m')"
  using kernel_step_sched [of E m m'] sched_step_inv by metis

lemma kernel_step_shell:
  assumes "kernel_step E m m'" "shell_kept m" "length (tasks (k_sched (kern m))) = max_tasks"
  shows "shell_kept m'"
  using assms(1)
proof cases
  case (dispatch idx func ctx s)
  then show ?thesis using assms(2,3) shell_kept_dispatch by blast
next
  case (shell_line idx ctx e os k)
  then show ?thesis using assms(2,3) shell_kept_op run_line_sched by blast
next
  case (other_task idx func ctx)
  then show ?thesis using assms(2) shell_kept_other by blast
next
  case (complete idx func ctx s)
  then show ?thesis using assms(2,3) shell_kept_complete by blast
qed (use assms(2) shell_kept_frame in simp_all)

lemma kernel_step_data:
  assumes "kernel_step E m m'" "vfs_inv (k_vfs (kern m))" "input_inv (k_input (kern m))"
  shows "vfs_inv (k_vfs (kern m')) \<and> input_inv (k_input (kern m'))"
  using assms(1)
proof cases
  case (shell_line idx ctx e os k)
  then show ?thesis using run_line_inv [OF shell_line(4)] assms(2,3) by simp
next
  case (keyboard_irq x os b)
  then show ?thesis using assms(2,3) input_inv_keyboard [of "k_input (kern m)" x] by simp
next
  case (serial_irq x os b)
  then show ?thesis using assms(2,3) input_inv_serial [of "k_input (kern m)" x] by simp
next
  case (poll_keyboard idx ctx x os b)
  then show ?thesis using assms(2,3) input_inv_keyboard [of "k_input (kern m)" x] by simp
next
  case (poll_serial idx ctx x os b)
  then show ?thesis using assms(2,3) input_inv_serial [of "k_input (kern m)" x] by (simp add: shell_serial_byte_eq)
qed (use assms(2,3) in simp_all)

lemma kernel_step_inv: "kernel_inv m \<Longrightarrow> kernel_step E m m' \<Longrightarrow> kernel_inv m'"
  using kernel_invD [of m] sched_view_inv kernel_step_shell kernel_step_data
  unfolding kernel_inv_def [of m'] by metis

interpretation kernel: stuttering_refinement kernel_boot "kernel_step E" kernel_inv
  sched_boot sched_step sched_view
proof
  fix m assume "kernel_boot m"
  then have "kern m = booted" "cpu m = Between" by (simp_all add: kernel_boot_def booted_kernel_eq)
  then show "sched_boot (sched_view m)"
    by (simp add: sched_boot_def sched_view_def init_scheduler_eq booted_def)
qed (use kernel_boot_inv kernel_step_inv kernel_step_sched in blast)+

subsection \<open>Properties\<close>

text \<open>The booted machine and its first dispatch, of the idle task, for the examples.\<close>

definition booted_machine :: machine where
  "booted_machine = \<lparr>kern = booted, cpu = Between\<rparr>"

definition first_dispatch :: machine where
  "first_dispatch = \<lparr>kern = booted\<lparr>k_sched := mark_running 0 (new_task ''idle'' Idle_Task) booted_scheduler\<rparr>,
     cpu = In_Task 0 Idle_Task (fresh_context 0 0)\<rparr>"

lemma booted_machine_boot: "kernel_boot booted_machine"
  by (simp add: kernel_boot_def booted_machine_def booted_kernel_eq)

lemma first_dispatch_run: "(kernel_step {sample_env})\<^sup>*\<^sup>* booted_machine first_dispatch"
proof -
  have "prepare_next booted_scheduler 0 =
      Inr (Some (0, Idle_Task, fresh_context 0 0), mark_running 0 (new_task ''idle'' Idle_Task) booted_scheduler)"
    by code_simp
  then have "kernel_step {sample_env} booted_machine first_dispatch"
    using kernel_step.dispatch [where m = booted_machine and E = "{sample_env}"]
    by (simp add: booted_machine_def first_dispatch_def booted_def)
  then show ?thesis by (rule r_into_rtranclp)
qed

text \<open>C1. Whatever interrupts arrive and whatever is typed, in every state the running kernel
  reaches the task table, the file system and the line editor are consistent: the
  scheduler's invariant, the file system's and the editor's hold together.\<close>

theorem kernel_invariant:
  assumes "kernel_boot m0" "(kernel_step E)\<^sup>*\<^sup>* m0 m"
  shows "sched_sys_inv (sched_view m) \<and> vfs_inv (k_vfs (kern m)) \<and> input_inv (k_input (kern m))"
  using kernel_invD [OF kernel.reachable_inv [OF assms]] by blast

theorem kernel_invariant_witness:
  "sched_sys_inv (sched_view first_dispatch) \<and> vfs_inv (k_vfs (kern first_dispatch))
     \<and> input_inv (k_input (kern first_dispatch))"
  by (rule kernel_invariant [OF booted_machine_boot first_dispatch_run])



text \<open>C3. The shell is never lost: whatever it is told to kill or spawn, itself included, slot 3
  always holds the shell and no other slot does, and between two dispatches it is ready, so
  the scheduler always finds a task to run.\<close>

theorem shell_survives:
  assumes "kernel_boot m0" "(kernel_step E)\<^sup>*\<^sup>* m0 m"
  shows "(\<forall>j<max_tasks. (\<exists>t. tasks (k_sched (kern m)) ! j = Some t \<and> t_func t = Shell_Task) \<longleftrightarrow> j = shell_slot)
    \<and> (cpu m = Between \<longrightarrow> is_ready (k_sched (kern m)) shell_slot
          \<and> next_runnable_from (k_sched (kern m)) (current (k_sched (kern m))) \<noteq> None)"
proof -
  note kept = kernel_invD(2) [OF kernel.reachable_inv [OF assms]]
  have slot: "slot_ok (cpu m) j (tasks (k_sched (kern m)) ! j)" if "j < max_tasks" for j
    by (rule shell_keptD(2) [OF kept that])
  have "is_ready (k_sched (kern m)) shell_slot" if "cpu m = Between"
    using slot [OF shell_slot_lt] that by (auto simp: slot_ok_def is_ready_slot split: option.splits)
  moreover have "(\<exists>t. tasks (k_sched (kern m)) ! j = Some t \<and> t_func t = Shell_Task) \<longleftrightarrow> j = shell_slot"
    if "j < max_tasks" for j
    using slot [OF that] by (auto simp: slot_ok_def split: option.splits)
  ultimately show ?thesis
    using next_runnable_None_iff [of "k_sched (kern m)"] shell_slot_lt by blast
qed

theorem shell_survives_witness:
  "\<exists>t. tasks (k_sched (kern first_dispatch)) ! 3 = Some t \<and> t_func t = Shell_Task"
  using shell_survives [OF booted_machine_boot first_dispatch_run] shell_slot_lt
  unfolding shell_slot_def by blast



end
