(* ===== verification/Progress.thy ===== *)
theory Progress
  imports Kernel
begin

text \<open>
  The running kernel gets to what is typed: a committed line is run. A run of theory Kernel's
  transition system is observed through the slots it dispatches and the lines its shell takes;
  while the shell is not dispatched, a measure over the task table goes down with every
  dispatch, and the shell's round cannot end without taking a waiting line.
\<close>

datatype kernel_event = Dispatched nat | Line_Run string

definition observed :: "machine \<Rightarrow> machine \<Rightarrow> kernel_event list" where
  "observed m m' =
     (case (cpu m, cpu m') of
        (Between, In_Task idx func ctx) \<Rightarrow> [Dispatched idx]
      | (In_Task idx func ctx, Returned _ _ _) \<Rightarrow>
          (if func = Shell_Task then map Line_Run (take 1 (ready_lines (k_input (kern m)))) else [])
      | _ \<Rightarrow> [])"

inductive kernel_run :: "('v, 'f) env set \<Rightarrow> machine \<Rightarrow> kernel_event list \<Rightarrow> machine \<Rightarrow> bool" for E where
  stop: "kernel_run E m [] m"
| go: "kernel_step E m m1 \<Longrightarrow> kernel_run E m1 es m' \<Longrightarrow> kernel_run E m (observed m m1 @ es) m'"

lemma kernel_run_steps: "kernel_run E m es m' \<Longrightarrow> (kernel_step E)\<^sup>*\<^sup>* m m'"
  by (induction rule: kernel_run.induct) (auto intro: converse_rtranclp_into_rtranclp)

definition dispatches :: "kernel_event list \<Rightarrow> nat" where
  "dispatches es = length (filter (\<lambda>e. case e of Dispatched _ \<Rightarrow> True | Line_Run _ \<Rightarrow> False) es)"

lemma dispatches_simps [simp]:
  "dispatches [] = 0" "dispatches (Dispatched i # es) = Suc (dispatches es)"
  "dispatches (Line_Run l # es) = dispatches es" "dispatches (es @ es') = dispatches es + dispatches es'"
  by (simp_all add: dispatches_def)

lemma dispatches_lines [simp]: "dispatches (map Line_Run ls) = 0"
  by (induction ls) simp_all

subsection \<open>A waiting line stays waiting\<close>

lemma commit_waits: "ready_lines (commit_line b) \<noteq> []"
  by (simp add: commit_line_def push_ready_def Let_def)

lemma key_event_waits: "ready_lines b \<noteq> [] \<Longrightarrow> ready_lines (snd (handle_key_event event b)) \<noteq> []"
  by (simp add: handle_key_event_def commit_waits push_char_def backspace_def split_beta Let_def split: key_event.split)

lemma byte_waits:
  "ready_lines b \<noteq> [] \<Longrightarrow> serial_byte x b = (os, b') \<Longrightarrow> ready_lines b' \<noteq> []"
  "ready_lines b \<noteq> [] \<Longrightarrow> keyboard_byte x b = (os, b') \<Longrightarrow> ready_lines b' \<noteq> []"
  using key_event_waits [of b]
  by (auto simp: serial_byte_def keyboard_byte_def on_event_def split: option.splits) (metis snd_conv)+

subsection \<open>The measure\<close>

definition distance :: "scheduler \<Rightarrow> nat" where
  "distance s = dist s shell_slot + card (live_loggers s)"

text \<open>While another task is on the CPU: the distance when it will have completed.\<close>

definition potential :: "machine \<Rightarrow> nat" where
  "potential m =
     (let s = k_sched (kern m) in
      case dispatched (cpu m) of
        None \<Rightarrow> distance s
      | Some (idx, func, ctx) \<Rightarrow> distance (settle idx (the (tasks s ! idx)) (run_task func ctx) s))"

lemma potential_cong: "k_sched (kern m') = k_sched (kern m) \<Longrightarrow> dispatched (cpu m') = dispatched (cpu m) \<Longrightarrow>
    potential m' = potential m"
  by (simp add: potential_def)

lemma dispatch_potential:
  assumes inv: "kernel_inv m" and between: "cpu m = Between"
    and p: "prepare_next (k_sched (kern m)) tick = Inr (Some (idx, func, ctx), s)" and other: "func \<noteq> Shell_Task"
  shows "potential (m\<lparr>kern := (kern m)\<lparr>k_sched := s\<rparr>, cpu := In_Task idx func ctx\<rparr>) < potential m"
proof -
  let ?s = "k_sched (kern m)"
  have wf: "sched_wf ?s" using kernel_invD(1) [OF inv] by (simp add: sched_sys_inv_def sched_view_def)
  have slot: "slot_ok Between j (tasks ?s ! j)" if "j < max_tasks" for j
    using shell_keptD(2) [OF kernel_invD(2) [OF inv] that] between by simp
  have ready: "is_ready ?s shell_slot"
    using slot [OF shell_slot_lt] by (auto simp: slot_ok_def is_ready_slot split: option.splits)
  from p show ?thesis
  proof (cases rule: prepare_next_cases)
    case (run i t)
    have i: "i < max_tasks" by (rule next_runnable_bound [OF run(1)])
    have ne: "i \<noteq> shell_slot" using slot [OF i] run other by auto
    have s: "s = mark_running i t ?s" using run by (simp add: mark_running_def)
    have t2: "tasks s ! i = Some (t\<lparr>t_state := Running, t_runs := t_runs t + 1\<rparr>)"
      using i wf by (simp add: s mark_running_def sched_wf_def)
    let ?s3 = "settle i (t\<lparr>t_state := Running, t_runs := t_runs t + 1\<rparr>) (run_task (t_func t) ctx) s"
    have "distance ?s3 < distance ?s"
      unfolding distance_def
      by (rule settle_progress [where ops = "[]", OF wf shell_slot_lt ready run(1) ne run(2,3) _ t2 refl refl])
        (simp add: s)
    moreover have "idx = i" "func = t_func t" using run(5) by simp_all
    ultimately show ?thesis using t2 between by (simp add: potential_def Let_def)
  qed simp
qed

lemma finish_task_settle:
  "finish_task s idx ctx = Inr s' \<Longrightarrow> s' = settle idx (the (tasks s ! idx)) ctx s"
  by (auto simp: finish_task_def settle_def split: option.splits)

subsection \<open>Until a line is run\<close>

definition waiting :: "machine \<Rightarrow> bool" where
  "waiting m = (ready_lines (k_input (kern m)) \<noteq> [] \<and> (\<forall>idx ctx. cpu m \<noteq> Returned idx Shell_Task ctx))"

definition dispatches_left :: "machine \<Rightarrow> nat" where
  "dispatches_left m =
     (if \<exists>idx ctx. dispatched (cpu m) = Some (idx, Shell_Task, ctx) then 0 else Suc (potential m))"

lemma dispatches_left_cong: "k_sched (kern m') = k_sched (kern m) \<Longrightarrow> cpu m' = cpu m \<Longrightarrow>
    dispatches_left m' = dispatches_left m"
  by (simp add: dispatches_left_def potential_def)

lemma observed_same [simp]: "cpu m' = cpu m \<Longrightarrow> observed m m' = []"
  by (simp add: observed_def split: cpu_state.split)

lemma step_towards_line:
  assumes step: "kernel_step E m m'" and inv: "kernel_inv m" and wait: "waiting m"
    and quiet: "\<forall>l. Line_Run l \<notin> set (observed m m')"
  shows "waiting m' \<and> dispatches (observed m m') + dispatches_left m' \<le> dispatches_left m"
  using step
proof cases
  case (timer_irq os t)
  then show ?thesis
    using wait dispatches_left_cong [of m' m] by (simp add: waiting_def)
next
  case (keyboard_irq x os b)
  then show ?thesis
    using wait dispatches_left_cong [of m' m] byte_waits(2) [of "k_input (kern m)" x os b] by (simp add: waiting_def)
next
  case (serial_irq x os b)
  then show ?thesis
    using wait dispatches_left_cong [of m' m] byte_waits(1) [of "k_input (kern m)" x os b] by (simp add: waiting_def)
next
  case (poll_keyboard idx ctx x os b)
  then show ?thesis
    using wait dispatches_left_cong [of m' m] byte_waits(2) [of "k_input (kern m)" x os b] by (simp add: waiting_def)
next
  case (poll_serial idx ctx x os b)
  then show ?thesis
    using wait dispatches_left_cong [of m' m] byte_waits(1) [of "k_input (kern m)" x os b]
    by (simp add: waiting_def shell_serial_byte_eq)
next
  case (dispatch idx func ctx s)
  have "waiting m'" using wait dispatch(1) by (simp add: waiting_def)
  moreover have "observed m m' = [Dispatched idx]" using dispatch by (simp add: observed_def)
  moreover have "Suc (dispatches_left m') \<le> dispatches_left m"
  proof (cases "func = Shell_Task")
    case True
    then show ?thesis using dispatch by (simp add: dispatches_left_def)
  next
    case False
    with dispatch_potential [OF inv dispatch(2,3)] have "potential m' < potential m" by (simp add: dispatch(1))
    then show ?thesis using False dispatch by (simp add: dispatches_left_def)
  qed
  ultimately show ?thesis by simp
next
  case (shell_line idx ctx e os k)
  obtain l q where "ready_lines (k_input (kern m)) = l # q"
    using wait by (auto simp: waiting_def neq_Nil_conv)
  then have "Line_Run l \<in> set (observed m m')" using shell_line by (simp add: observed_def)
  with quiet show ?thesis by blast
next
  case (other_task idx func ctx)
  then have "potential m' = potential m" by (intro potential_cong) simp_all
  then show ?thesis
    using other_task wait by (simp add: waiting_def dispatches_left_def observed_def)
next
  case (complete idx func ctx s)
  then have "potential m' = potential m"
    by (simp add: potential_def finish_task_settle [OF complete(3)] Let_def)
  then show ?thesis
    using complete wait by (simp add: waiting_def dispatches_left_def observed_def)
qed

lemma run_towards_line:
  assumes "kernel_run E m es m'" "kernel_inv m" "waiting m" "\<forall>l. Line_Run l \<notin> set es"
  shows "dispatches es \<le> dispatches_left m"
  using assms
proof (induction rule: kernel_run.induct)
  case (go m m1 es m')
  have "waiting m1 \<and> dispatches (observed m m1) + dispatches_left m1 \<le> dispatches_left m"
    using go.prems by (intro step_towards_line [OF go.hyps(1)]) simp_all
  moreover have "kernel_inv m1" by (rule kernel_step_inv [OF go.prems(1) go.hyps(1)])
  ultimately show ?case using go.IH go.prems(3) by fastforce
qed simp

subsection \<open>The kernel keeps running\<close>

text \<open>A round with nothing but empty lines waiting, for any shell environment.\<close>

lemma empty_command: "handle_command e [] k = Inr ([], k)"
proof -
  have "split_command [] = ([], [])" by code_simp
  then show ?thesis by (simp add: handle_command_def info_command_def system_command_def)
qed

lemma trim_empty: "trim [] = []"
  by code_simp

lemma run_line_empty:
  assumes "set (ready_lines (k_input k)) \<subseteq> {[]}"
  shows "\<exists>os b. run_line e k = Inr (os, k\<lparr>k_input := b\<rparr>) \<and> set (ready_lines b) \<subseteq> {[]}"
proof (cases "ready_lines (k_input k)")
  case Nil
  then show ?thesis
    by (intro exI [of _ "[]"] exI [of _ "k_input k"]) (simp add: run_line_def pop_line_def)
next
  case (Cons l q)
  with assms have "trim l = []" "set q \<subseteq> {[]}" by (auto simp: trim_empty)
  then show ?thesis
    unfolding run_line_first [OF Cons]
    by (intro exI [of _ "print_prompt (k\<lparr>k_input := (k_input k)\<lparr>ready_lines := q\<rparr>\<rparr>)"]
        exI [of _ "(k_input k)\<lparr>ready_lines := q\<rparr>"]) (simp add: empty_command)
qed

lemma round_exists:
  assumes inv: "kernel_inv m" and between: "cpu m = Between" and runs: "runs_below (k_sched (kern m)) (Suc n)"
    and lines: "set (ready_lines (k_input (kern m))) \<subseteq> {[]}"
  obtains es m' where "kernel_run {e} m es m'" "dispatches es = 1" "cpu m' = Between" "kernel_inv m'"
    "runs_below (k_sched (kern m')) n" "set (ready_lines (k_input (kern m'))) \<subseteq> {[]}"
proof -
  let ?s = "k_sched (kern m)"
  have wf: "sched_wf ?s" using kernel_invD(1) [OF inv] by (simp add: sched_sys_inv_def sched_view_def)
  have ready: "is_ready ?s shell_slot"
    using shell_keptD(2) [OF kernel_invD(2) [OF inv] shell_slot_lt] between
    by (auto simp: slot_ok_def is_ready_slot split: option.splits)
  obtain idx s' where round: "run_round (k_ticks (kern m)) [] ?s = Inr (Some idx, s')" and below: "runs_below s' n"
    by (rule run_round_progress [OF wf runs shell_slot_lt ready, of "[]"]) simp_all
  then obtain func ctx s1 where prep: "prepare_next ?s (k_ticks (kern m)) = Inr (Some (idx, func, ctx), s1)"
    and fin: "finish_task s1 idx (run_task func ctx) = Inr s'"
    by (auto simp: run_round_def bind_res_eq_Inr split: option.splits)
  define m1 where "m1 = m\<lparr>kern := (kern m)\<lparr>k_sched := s1\<rparr>, cpu := In_Task idx func ctx\<rparr>"
  have 1: "kernel_step {e} m m1" unfolding m1_def by (rule kernel_step.dispatch [OF between prep])
  obtain os b where line: "run_line e (kern m1) = Inr (os, (kern m1)\<lparr>k_input := b\<rparr>)" "set (ready_lines b) \<subseteq> {[]}"
    using run_line_empty [of "kern m1" e] lines by (auto simp: m1_def)
  define k where "k = (if func = Shell_Task then (kern m1)\<lparr>k_input := b\<rparr> else kern m1)"
  define m2 where "m2 = m1\<lparr>kern := k, cpu := Returned idx func ctx\<rparr>"
  have 2: "kernel_step {e} m1 m2"
  proof (cases "func = Shell_Task")
    case True
    with kernel_step.shell_line [of m1 idx ctx e "{e}" os] line show ?thesis by (simp add: m1_def m2_def k_def)
  next
    case False
    with kernel_step.other_task [of m1 idx func ctx "{e}"] show ?thesis by (simp add: m1_def m2_def k_def)
  qed
  define m3 where "m3 = m2\<lparr>kern := k\<lparr>k_sched := s'\<rparr>, cpu := Between\<rparr>"
  have "k_sched k = s1" by (simp add: k_def m1_def)
  then have 3: "kernel_step {e} m2 m3"
    using kernel_step.complete [of m2 idx func ctx s' "{e}"] fin by (simp add: m2_def m3_def)
  let ?es = "observed m m1 @ observed m1 m2 @ observed m2 m3 @ []"
  have "kernel_run {e} m ?es m3" using 1 2 3 by (intro kernel_run.intros)
  moreover have "dispatches ?es = 1"
    using between by (simp add: observed_def m1_def m2_def m3_def)
  moreover have "kernel_inv m3" using inv 1 2 3 kernel_step_inv by blast
  moreover have "set (ready_lines (k_input k)) \<subseteq> {[]}" using lines line(2) by (simp add: k_def m1_def)
  ultimately show ?thesis using below that [of ?es m3] by (simp add: m3_def)
qed

lemma kernel_run_append: "kernel_run E m es m1 \<Longrightarrow> kernel_run E m1 es' m2 \<Longrightarrow> kernel_run E m (es @ es') m2"
  by (induction rule: kernel_run.induct) (auto intro: kernel_run.intros)

lemma rounds_exist:
  "kernel_inv m \<Longrightarrow> cpu m = Between \<Longrightarrow> runs_below (k_sched (kern m)) n
     \<Longrightarrow> set (ready_lines (k_input (kern m))) \<subseteq> {[]} \<Longrightarrow> \<exists>es m'. kernel_run {e} m es m' \<and> dispatches es = n"
proof (induction n arbitrary: m)
  case 0
  then show ?case using kernel_run.stop by fastforce
next
  case (Suc n)
  obtain es m1 where 1: "kernel_run {e} m es m1" "dispatches es = 1" "cpu m1 = Between" "kernel_inv m1"
    "runs_below (k_sched (kern m1)) n" "set (ready_lines (k_input (kern m1))) \<subseteq> {[]}"
    by (rule round_exists [OF Suc.prems, where e = e])
  from Suc.IH [OF 1(4,3,5,6)] obtain es' m' where "kernel_run {e} m1 es' m'" "dispatches es' = n" by blast
  with kernel_run_append [OF 1(1)] 1(2) show ?case by (intro exI [of _ "es @ es'"]) auto
qed

subsection \<open>Properties\<close>

text \<open>C2. A typed line is run: when a line waits between two rounds, no run of the kernel dispatches
  more than eight tasks, plus one for each logger that may still end, before the shell has
  taken a line; whatever is typed, whichever interrupts arrive and whatever the tasks are.\<close>

theorem line_run_soon:
  assumes "kernel_boot m0" "(kernel_step E)\<^sup>*\<^sup>* m0 m" "cpu m = Between" "ready_lines (k_input (kern m)) \<noteq> []"
    and "kernel_run E m es m'" "max_tasks + card (live_loggers (k_sched (kern m))) < dispatches es"
  shows "\<exists>l. Line_Run l \<in> set es"
proof (rule ccontr)
  assume "\<nexists>l. Line_Run l \<in> set es"
  moreover have "kernel_inv m" by (rule kernel.reachable_inv [OF assms(1,2)])
  moreover have "waiting m" using assms(3,4) by (simp add: waiting_def)
  ultimately have "dispatches es \<le> dispatches_left m" using run_towards_line [OF assms(5)] by blast
  moreover have "dist (k_sched (kern m)) shell_slot < max_tasks" by simp
  ultimately show False
    using assms(3,6) by (simp add: dispatches_left_def potential_def distance_def Let_def)
qed

text \<open>Enter on the keyboard of the booted machine, and then fifty rounds.\<close>

theorem line_run_soon_witness:
  "\<exists>es m'. kernel_run {sample_env} (booted_machine\<lparr>kern := booted\<lparr>k_input := commit_line new_input\<rparr>\<rparr>) es m'
     \<and> dispatches es = 50 \<and> (\<exists>l. Line_Run l \<in> set es)"
proof -
  let ?m = "booted_machine\<lparr>kern := booted\<lparr>k_input := commit_line new_input\<rparr>\<rparr>"
  have "keyboard_byte 0x1C new_input = (both_ln [], commit_line new_input)"
    by (simp add: keyboard_byte_def on_event_def scancode_to_event_def handle_key_event_def)
  then have step: "kernel_step {sample_env} booted_machine ?m"
    using kernel_step.keyboard_irq [where m = booted_machine and x = "0x1C" and b = "commit_line new_input" and E = "{sample_env}"]
    by (simp add: booted_machine_def booted_def)
  have reach: "(kernel_step {sample_env})\<^sup>*\<^sup>* booted_machine ?m" using step by blast
  have lines: "ready_lines (k_input (kern ?m)) = ['''']"
    by (simp add: commit_line_def new_input_def push_ready_def push_history_def max_queue_depth_def Let_def)
  have sched: "k_sched (kern ?m) = booted_scheduler" by (simp add: booted_def)
  have "runs_below booted_scheduler 50"
    by (auto simp: runs_below_def booted_scheduler_def new_task_def usize_bound_def)
  then obtain es m' where run: "kernel_run {sample_env} ?m es m'" "dispatches es = 50"
    using rounds_exist [of ?m 50 sample_env] kernel.reachable_inv [OF booted_machine_boot reach] lines sched
    by (auto simp: booted_machine_def)
  have "live_loggers booted_scheduler \<subseteq> {..<8}"
    by (auto simp: live_loggers_def booted_scheduler_def)
  then have "card (live_loggers booted_scheduler) \<le> 8" using card_mono [of "{..<8}"] by fastforce
  then have "max_tasks + card (live_loggers (k_sched (kern ?m))) < dispatches es"
    unfolding sched run(2) by (simp add: max_tasks_def)
  moreover have "cpu ?m = Between" by (simp add: booted_machine_def)
  ultimately have "\<exists>l. Line_Run l \<in> set es"
    using line_run_soon [OF booted_machine_boot reach _ _ run(1)] lines by auto
  with run show ?thesis by blast
qed

end
