(* ===== verification/Kernel_Talk.thy ===== *)
theory Kernel_Talk
  imports Progress
begin

text \<open>
  The runs of theory Kernel's transition system with what goes in and out: the bytes typed on
  either device, what is printed, and the lines the shell takes. Every run is one of these.
  A run of the booted kernel is put together by hand, for the examples.
\<close>

subsection \<open>Steps with their input and output\<close>

datatype typed_byte = Key_Byte u8 | Serial_Byte u8

text \<open>Polling a device from the shell has the effect of its interrupt, so a byte has one rule per
  device. The acknowledgement of the keyboard and serial interrupts is left out.\<close>

inductive kernel_io :: "('v, 'f) env set \<Rightarrow> machine \<Rightarrow> typed_byte list \<Rightarrow> out list \<Rightarrow> machine \<Rightarrow> bool" for E where
  io_timer: "timer_handler (k_ticks (kern m)) = (os, t) \<Longrightarrow>
     kernel_io E m [] os (m\<lparr>kern := (kern m)\<lparr>k_ticks := t\<rparr>\<rparr>)"
| io_keyboard: "keyboard_byte x (k_input (kern m)) = (os, b) \<Longrightarrow>
     kernel_io E m [Key_Byte x] os (m\<lparr>kern := (kern m)\<lparr>k_input := b\<rparr>\<rparr>)"
| io_serial: "serial_byte x (k_input (kern m)) = (os, b) \<Longrightarrow>
     kernel_io E m [Serial_Byte x] os (m\<lparr>kern := (kern m)\<lparr>k_input := b\<rparr>\<rparr>)"
| io_dispatch: "cpu m = Between \<Longrightarrow>
     prepare_next (k_sched (kern m)) (k_ticks (kern m)) = Inr (Some (idx, func, ctx), s) \<Longrightarrow>
     kernel_io E m [] [] (m\<lparr>kern := (kern m)\<lparr>k_sched := s\<rparr>, cpu := In_Task idx func ctx\<rparr>)"
| io_line: "cpu m = In_Task idx Shell_Task ctx \<Longrightarrow> e \<in> E \<Longrightarrow> run_line e (kern m) = Inr (os, k) \<Longrightarrow>
     kernel_io E m [] os (m\<lparr>kern := k, cpu := Returned idx Shell_Task ctx\<rparr>)"
| io_task: "cpu m = In_Task idx func ctx \<Longrightarrow> func \<noteq> Shell_Task \<Longrightarrow>
     kernel_io E m [] [] (m\<lparr>cpu := Returned idx func ctx\<rparr>)"
| io_complete: "cpu m = Returned idx func ctx \<Longrightarrow>
     finish_task (k_sched (kern m)) idx (run_task func ctx) = Inr s \<Longrightarrow>
     kernel_io E m [] [] (m\<lparr>kern := (kern m)\<lparr>k_sched := s\<rparr>, cpu := Between\<rparr>)"

lemma kernel_io_step: "kernel_io E m ins os m' \<Longrightarrow> kernel_step E m m'"
  by (cases rule: kernel_io.cases) (auto intro: kernel_step.intros)

lemma kernel_step_io: "kernel_step E m m' \<Longrightarrow> \<exists>ins os. kernel_io E m ins os m'"
  by (cases rule: kernel_step.cases) (auto intro: kernel_io.intros simp: shell_serial_byte_eq)+

inductive kernel_talk ::
  "('v, 'f) env set \<Rightarrow> machine \<Rightarrow> typed_byte list \<Rightarrow> out list \<Rightarrow> kernel_event list \<Rightarrow> machine \<Rightarrow> bool" for E where
  talk_stop: "kernel_talk E m [] [] [] m"
| talk_go: "kernel_io E m i os m1 \<Longrightarrow> kernel_talk E m1 ins outs es m' \<Longrightarrow>
     kernel_talk E m (i @ ins) (os @ outs) (observed m m1 @ es) m'"

lemma kernel_talk_run: "kernel_talk E m ins os es m' \<Longrightarrow> kernel_run E m es m'"
  by (induction rule: kernel_talk.induct) (auto intro: kernel_run.intros kernel_io_step)

text \<open>Every run of the kernel is a run with input and output.\<close>

lemma kernel_run_talk: "kernel_run E m es m' \<Longrightarrow> \<exists>ins os. kernel_talk E m ins os es m'"
proof (induction rule: kernel_run.induct)
  case (go m m1 es m')
  then obtain ins outs where "kernel_talk E m1 ins outs es m'" by blast
  moreover obtain i os where "kernel_io E m i os m1" using kernel_step_io [OF go.hyps(1)] by blast
  ultimately show ?case by (blast intro: kernel_talk.talk_go)
qed (blast intro: kernel_talk.talk_stop)

subsection \<open>The lines taken\<close>

fun lines_run :: "kernel_event list \<Rightarrow> string list" where
  "lines_run [] = []"
| "lines_run (Line_Run l # es) = l # lines_run es"
| "lines_run (Dispatched i # es) = lines_run es"

lemma lines_run_append [simp]: "lines_run (es @ es') = lines_run es @ lines_run es'"
  by (induction es rule: lines_run.induct) simp_all

lemma lines_run_map [simp]: "lines_run (map Line_Run ls) = ls"
  by (induction ls) simp_all

subsection \<open>A run by hand\<close>

text \<open>Pieces of a run, for the example: bytes arriving on the serial line, and a round of a task.\<close>

lemma typing_talk:
  "kernel_talk E m (map Serial_Byte xs) (fst (feed serial_byte xs (k_input (kern m)))) []
     (m\<lparr>kern := (kern m)\<lparr>k_input := snd (feed serial_byte xs (k_input (kern m)))\<rparr>\<rparr>)"
proof (induction xs arbitrary: m)
  case Nil
  then show ?case using kernel_talk.talk_stop by simp
next
  case (Cons x xs)
  let ?m = "m\<lparr>kern := (kern m)\<lparr>k_input := snd (serial_byte x (k_input (kern m)))\<rparr>\<rparr>"
  have "kernel_io E m [Serial_Byte x] (fst (serial_byte x (k_input (kern m)))) ?m"
    by (rule kernel_io.io_serial) (rule prod.collapse [symmetric])
  then have "kernel_talk E m ([Serial_Byte x] @ map Serial_Byte xs)
      (fst (serial_byte x (k_input (kern m))) @ fst (feed serial_byte xs (k_input (kern ?m)))) (observed m ?m @ [])
      (?m\<lparr>kern := (kern ?m)\<lparr>k_input := snd (feed serial_byte xs (k_input (kern ?m)))\<rparr>\<rparr>)"
    by (rule kernel_talk.talk_go [OF _ Cons.IH])
  moreover have "observed m ?m = []" by (simp add: observed_def split: cpu_state.split)
  ultimately show ?case by (simp add: split_beta Let_def)
qed

text \<open>A round in which the shell, when it is the task, takes a line.\<close>

lemma round_talk:
  assumes between: "cpu m = Between"
    and prep: "prepare_next (k_sched (kern m)) (k_ticks (kern m)) = Inr (Some (idx, func, ctx), s1)"
    and body: "if func = Shell_Task then run_line e ((kern m)\<lparr>k_sched := s1\<rparr>) = Inr (os, k)
               else os = [] \<and> k = (kern m)\<lparr>k_sched := s1\<rparr>"
    and fin: "finish_task (k_sched k) idx (run_task func ctx) = Inr s2"
  shows "kernel_talk {e} m [] os
     (Dispatched idx # (if func = Shell_Task then map Line_Run (take 1 (ready_lines (k_input (kern m)))) else []))
     (m\<lparr>kern := k\<lparr>k_sched := s2\<rparr>, cpu := Between\<rparr>)"
proof -
  let ?m1 = "m\<lparr>kern := (kern m)\<lparr>k_sched := s1\<rparr>, cpu := In_Task idx func ctx\<rparr>"
  let ?m2 = "m\<lparr>kern := k, cpu := Returned idx func ctx\<rparr>"
  let ?m3 = "m\<lparr>kern := k\<lparr>k_sched := s2\<rparr>, cpu := Between\<rparr>"
  have 1: "kernel_io {e} m [] [] ?m1" by (rule kernel_io.io_dispatch [OF between prep])
  have 2: "kernel_io {e} ?m1 [] os ?m2"
    using kernel_io.io_line [of ?m1 idx ctx e "{e}" os k] kernel_io.io_task [of ?m1 idx func ctx "{e}"] body
    by (auto split: if_splits)
  have 3: "kernel_io {e} ?m2 [] [] ?m3" using kernel_io.io_complete [of ?m2 idx func ctx s2 "{e}"] fin by simp
  have "kernel_talk {e} m ([] @ [] @ [] @ []) ([] @ os @ [] @ []) (observed m ?m1 @ observed ?m1 ?m2 @ observed ?m2 ?m3 @ []) ?m3"
    using 1 2 3 by (intro kernel_talk.intros)
  then show ?thesis using between by (cases "func = Shell_Task") (simp_all add: observed_def)
qed

lemma other_round_talk:
  assumes "cpu m = Between" "prepare_next (k_sched (kern m)) (k_ticks (kern m)) = Inr (Some (idx, func, ctx), s1)"
    and "func \<noteq> Shell_Task" "finish_task s1 idx (run_task func ctx) = Inr s2"
  shows "kernel_talk {e} m [] [] [Dispatched idx] (m\<lparr>kern := (kern m)\<lparr>k_sched := s2\<rparr>, cpu := Between\<rparr>)"
  using round_talk [OF assms(1,2), of e "[]" "(kern m)\<lparr>k_sched := s1\<rparr>" s2] assms by simp

lemma kernel_talk_append:
  "kernel_talk E m ins os es m1 \<Longrightarrow> kernel_talk E m1 ins' os' es' m2 \<Longrightarrow>
     kernel_talk E m (ins @ ins') (os @ os') (es @ es') m2"
  by (induction rule: kernel_talk.induct) (auto intro: kernel_talk.intros)

text \<open>The table after each of the first tasks has run once, and one round of it.\<close>

definition rounds_done :: "nat \<Rightarrow> scheduler" where
  "rounds_done n = \<lparr>tasks = map (\<lambda>(i, name, f).
       Some ((new_task name f)\<lparr>t_runs := (if i < n then 1 else 0)\<rparr>))
       [(0, ''idle'', Idle_Task), (1, ''worker-a'', Worker_Task), (2, ''worker-b'', Logger_Task),
        (3, ''shell'', Shell_Task)] @ replicate 4 None, current = n\<rparr>"

definition round_to :: "task_fn \<Rightarrow> scheduler \<Rightarrow> scheduler \<Rightarrow> bool" where
  "round_to f s s2 =
     (case prepare_next s 0 of
        Inr (Some (idx, func, ctx), s1) \<Rightarrow> func = f \<and> finish_task s1 idx (run_task func ctx) = Inr s2
      | _ \<Rightarrow> False)"

lemma rounds_booted: "rounds_done 0 = booted_scheduler"
  by (simp add: rounds_done_def booted_scheduler_def new_task_def numeral_eq_Suc)

lemma first_rounds:
  shows round_idle: "round_to Idle_Task (rounds_done 0) (rounds_done 1)"
    and round_worker: "round_to Worker_Task (rounds_done 1) (rounds_done 2)"
    and round_logger: "round_to Logger_Task (rounds_done 2) (rounds_done 3)"
    and round_shell: "round_to Shell_Task (rounds_done 3) (rounds_done 4)"
proof -
  show "round_to Idle_Task (rounds_done 0) (rounds_done 1)" by code_simp
  show "round_to Worker_Task (rounds_done 1) (rounds_done 2)" by code_simp
  show "round_to Logger_Task (rounds_done 2) (rounds_done 3)" by code_simp
  show "round_to Shell_Task (rounds_done 3) (rounds_done 4)" by code_simp
qed

lemma round_toE:
  assumes "round_to f s s2"
  obtains idx ctx s1 where "prepare_next s 0 = Inr (Some (idx, f, ctx), s1)"
    "finish_task s1 idx (run_task f ctx) = Inr s2"
proof (cases "prepare_next s 0")
  case (Inr r)
  with assms obtain idx func ctx s1 where r: "r = (Some (idx, func, ctx), s1)"
    by (cases r; cases "fst r") (auto simp: round_to_def)
  from assms Inr r have "func = f" by (simp add: round_to_def)
  moreover from assms Inr r have "finish_task s1 idx (run_task func ctx) = Inr s2" by (auto simp: round_to_def)
  ultimately show ?thesis using that [of idx ctx s1] Inr r by metis
qed (use assms in \<open>simp add: round_to_def\<close>)

text \<open>A line typed on the serial line of the booted kernel, and four rounds: the shell has run it.\<close>

definition fed :: "string \<Rightarrow> input_buffer" where
  "fed l = commit_line (new_input\<lparr>line := l\<rparr>)"

lemma fed_ready [simp]: "ready_lines (fed l) = [l]"
  by (simp add: fed_def commit_line_def new_input_def push_ready_def max_queue_depth_def Let_def)

lemma first_line_talk:
  assumes l: "list_all is_printable l" "length l \<le> max_line_len"
    and cmd: "\<And>s. \<exists>os k. handle_command sample_env (trim l)
        (booted\<lparr>k_input := (fed l)\<lparr>ready_lines := []\<rparr>, k_sched := s\<rparr>) = Inr (os, k) \<and> k_sched k = s"
  shows "\<exists>os es m. kernel_talk {sample_env} booted_machine (map Serial_Byte (typed l)) os es m
    \<and> lines_run es = [l] \<and> ready_lines (k_input (kern m)) = []"
proof -
  define m where "m s = \<lparr>kern = booted\<lparr>k_input := fed l, k_sched := s\<rparr>, cpu = Between\<rparr>" for s
  have "snd (feed serial_byte (typed l) new_input) = fed l"
    using feed_typed [OF l(1), of new_input] l(2) by (simp add: new_input_def fed_def)
  then obtain os0 where 0: "kernel_talk {sample_env} booted_machine (map Serial_Byte (typed l)) os0 [] (m (rounds_done 0))"
    using typing_talk [of "{sample_env}" booted_machine "typed l"]
    by (simp add: booted_machine_def booted_def rounds_booted m_def)
  have talk1: "\<exists>idx. kernel_talk {sample_env} (m s) [] [] [Dispatched idx] (m s2)"
    if "round_to f s s2" "f \<noteq> Shell_Task" for s s2 f
    using that(1)
  proof (rule round_toE)
    fix idx ctx s1 assume "prepare_next s 0 = Inr (Some (idx, f, ctx), s1)" "finish_task s1 idx (run_task f ctx) = Inr s2"
    then have "kernel_talk {sample_env} (m s) [] [] [Dispatched idx] (m s2)"
      using other_round_talk [of "m s" idx f ctx s1 s2 sample_env] that(2) by (simp add: m_def booted_def)
    then show ?thesis ..
  qed
  obtain i1 i2 i3 where talk3: "kernel_talk {sample_env} (m (rounds_done 0)) [] [] [Dispatched i1] (m (rounds_done 1))"
    "kernel_talk {sample_env} (m (rounds_done 1)) [] [] [Dispatched i2] (m (rounds_done 2))"
    "kernel_talk {sample_env} (m (rounds_done 2)) [] [] [Dispatched i3] (m (rounds_done 3))"
    using talk1 [OF first_rounds(1)] talk1 [OF first_rounds(2)] talk1 [OF first_rounds(3)] by auto
  obtain idx ctx s1 where shell: "prepare_next (rounds_done 3) 0 = Inr (Some (idx, Shell_Task, ctx), s1)"
    "finish_task s1 idx (run_task Shell_Task ctx) = Inr (rounds_done 4)" by (rule round_toE [OF first_rounds(4)])
  let ?k = "booted\<lparr>k_input := fed l, k_sched := s1\<rparr>"
  obtain os' k where h: "handle_command sample_env (trim l) (?k\<lparr>k_input := (fed l)\<lparr>ready_lines := []\<rparr>\<rparr>) = Inr (os', k)"
    "k_sched k = s1"
  proof -
    have "?k\<lparr>k_input := (fed l)\<lparr>ready_lines := []\<rparr>\<rparr> = booted\<lparr>k_input := (fed l)\<lparr>ready_lines := []\<rparr>, k_sched := s1\<rparr>"
      by simp
    then show ?thesis using cmd [of s1] that by metis
  qed
  then have line: "run_line sample_env ?k = Inr (os' @ print_prompt k, k)"
    using run_line_first [of ?k l "[]" sample_env] by simp
  have rest: "ready_lines (k_input k) = []" using command_frame [OF h(1)] by simp
  have "kernel_talk {sample_env} (m (rounds_done 3)) [] (os' @ print_prompt k) [Dispatched idx, Line_Run l]
      \<lparr>kern = k\<lparr>k_sched := rounds_done 4\<rparr>, cpu = Between\<rparr>"
    using round_talk [of "m (rounds_done 3)" idx Shell_Task ctx s1 sample_env "os' @ print_prompt k" k] shell line h(2)
    by (simp add: m_def booted_def)
  from kernel_talk_append [OF 0 kernel_talk_append [OF talk3(1) kernel_talk_append [OF talk3(2)
      kernel_talk_append [OF talk3(3) this]]]] rest
  show ?thesis by fastforce
qed

end
