(* ===== verification/Shell_Files.thy ===== *)
theory Shell_Files
  imports Kernel_Talk
begin

text \<open>
  What the file commands of the shell promise their user: a store of files with a current
  place, which serves one request per line. The commands (\<^verbatim>\<open>src/src/shell.rs\<close>, \<^verbatim>\<open>cd\<close> to \<^verbatim>\<open>rm\<close>
  of \<^verbatim>\<open>handle_command\<close>) are shown to implement it, answers included, in any session and
  among any other commands, and the running kernel is shown to refine it.
\<close>

subsection \<open>The store as its user sees it\<close>

record file_shell =
  stored :: vfs_view
  place :: "string list"

datatype request =
    Go string
  | Show string
  | Create string
  | Store string string
  | New_Dir string
  | Delete string
  | Misused string

datatype answer = Granted | Refused | Content string

text \<open>Where a path leads from a place: an absolute one starts at the root, and its components
  are followed one by one.\<close>

definition follow :: "string list \<Rightarrow> string \<Rightarrow> string list" where
  "follow from_place p = foldl resolve_step (if starts_with slash p then [] else from_place) (path_parts p)"

definition verdict :: "bool \<times> vfs_view \<Rightarrow> file_shell \<Rightarrow> answer \<times> file_shell" where
  "verdict r s = (if fst r then Granted else Refused, s\<lparr>stored := snd r\<rparr>)"

fun serve :: "request \<Rightarrow> file_shell \<Rightarrow> answer \<times> file_shell" where
  "serve (Go p) s =
     (let q = follow (place s) p in
      if stored s q = Some Dir then (Granted, s\<lparr>place := q\<rparr>) else (Refused, s))"
| "serve (Show p) s =
     (case spec_read (stored s) (follow (place s) p) of Some d \<Rightarrow> (Content d, s) | None \<Rightarrow> (Refused, s))"
| "serve (Create p) s = verdict (spec_write (stored s) (follow (place s) p) []) s"
| "serve (Store p d) s = verdict (spec_write (stored s) (follow (place s) p) d) s"
| "serve (New_Dir p) s = verdict (spec_mkdir (stored s) (follow (place s) p)) s"
| "serve (Delete p) s = verdict (spec_remove (stored s) (follow (place s) p)) s"
| "serve (Misused u) s = (Refused, s)"

text \<open>The request a line makes, and what is printed for an answer.\<close>

definition request_of :: "string \<Rightarrow> request option" where
  "request_of cmd =
     (let (c, args) = split_command cmd in
      if c = ''cd'' then Some (Go (if args = [] then ''/'' else args))
      else if c = ''cat'' then Some (if args = [] then Misused ''usage: cat <filename>'' else Show args)
      else if c = ''touch'' then Some (if args = [] then Misused ''usage: touch <filename>'' else Create args)
      else if c = ''write'' then
        (let (path, content) = split_command args in
         Some (if path = [] then Misused ''usage: write <filename> <text>'' else Store path content))
      else if c = ''mkdir'' then Some (if args = [] then Misused ''usage: mkdir <dirname>'' else New_Dir args)
      else if c = ''rm'' then Some (if args = [] then Misused ''usage: rm <path>'' else Delete args)
      else None)"

definition quoted :: "string \<Rightarrow> string" where
  "quoted s = [CHR 0x27] @ s @ [CHR 0x27]"

fun reply :: "request \<Rightarrow> answer \<Rightarrow> file_shell \<Rightarrow> string" where
  "reply (Go p) Granted s = ''changed directory to '' @ render_path (place s)"
| "reply (Go p) _ s = ''cd: no such directory: '' @ p"
| "reply (Show p) (Content d) s = d"
| "reply (Show p) _ s = ''cat: file not found: '' @ p"
| "reply (Create p) Granted s = ''created empty file '' @ quoted p"
| "reply (Create p) _ s = ''touch: failed to create file: '' @ p"
| "reply (Store p d) Granted s = ''wrote to file '' @ quoted p"
| "reply (Store p d) _ s = ''write: failed to write file: '' @ p"
| "reply (New_Dir p) Granted s = ''created directory '' @ quoted p"
| "reply (New_Dir p) _ s = ''mkdir: failed to create directory: '' @ p"
| "reply (Delete p) Granted s = ''removed '' @ quoted p"
| "reply (Delete p) _ s = ''rm: failed to remove: '' @ p"
| "reply (Misused u) _ s = u"

definition file_shell_of :: "vfs_state \<Rightarrow> file_shell" where
  "file_shell_of st = \<lparr>stored = view_of (fs_tree st), place = path_parts (current_dir st)\<rparr>"

definition answered :: "request \<Rightarrow> file_shell \<Rightarrow> string \<times> file_shell" where
  "answered r s = (let (a, s') = serve r s in (reply r a s', s'))"

subsection \<open>Each command serves its request\<close>

lemma follow_resolve: "vfs_inv st \<Longrightarrow> follow (place (file_shell_of st)) p = resolve_parts (current_dir st) p"
  using resolve_parts_relative [OF vfs_inv_cwd, of st p]
  by (simp add: follow_def file_shell_of_def resolve_parts_def)

lemma stored_of [simp]: "stored (file_shell_of st) = view_of (fs_tree st)"
  by (simp add: file_shell_of_def)

lemma cd_serves:
  assumes "vfs_inv st"
  shows "file_shell_of (snd (change_directory st p)) = snd (serve (Go p) (file_shell_of st))"
    "fst (change_directory st p) \<longleftrightarrow> fst (serve (Go p) (file_shell_of st)) = Granted"
  using vfs_inv_wf [OF assms]
  by (auto simp: change_directory_iff follow_resolve [OF assms] Let_def) (auto simp: file_shell_of_def)

lemma cd_reply:
  "vfs_inv st \<Longrightarrow> get_current_directory (snd (change_directory st p))
     = render_path (place (file_shell_of (snd (change_directory st p))))"
  using vfs_inv_cwd [OF vfs_inv_change]
  by (simp add: get_current_directory_def file_shell_of_def canonical_eq)

lemma serves_verdict:
  assumes "(ok, view_of fs) = r"
  shows "verdict r (file_shell_of st) =
     (if ok then Granted else Refused, file_shell_of (st\<lparr>fs_tree := fs\<rparr>))"
  using assms by (auto simp: verdict_def file_shell_of_def)

lemma write_serves:
  assumes "vfs_inv st"
  shows "verdict (spec_write (view_of (fs_tree st)) (resolve_parts (current_dir st) p) d) (file_shell_of st)
    = (if fst (write_file_string st p d) then Granted else Refused, file_shell_of (snd (write_file_string st p d)))"
  using serves_verdict [OF ramfs.wr_spec [OF vfs_inv_wf [OF assms], of "resolve_path (current_dir st) p" d]]
  by (simp add: write_file_string_def split_beta)

lemma mkdir_serves:
  assumes "vfs_inv st"
  shows "verdict (spec_mkdir (view_of (fs_tree st)) (resolve_parts (current_dir st) p)) (file_shell_of st)
    = (if fst (create_dir st p) then Granted else Refused, file_shell_of (snd (create_dir st p)))"
  using serves_verdict [OF ramfs.mk_spec [OF vfs_inv_wf [OF assms], of "resolve_path (current_dir st) p"]]
  by (simp add: create_dir_def split_beta)

lemma rm_serves:
  assumes "vfs_inv st"
  shows "verdict (spec_remove (view_of (fs_tree st)) (resolve_parts (current_dir st) p)) (file_shell_of st)
    = (if fst (remove_node st p) then Granted else Refused, file_shell_of (snd (remove_node st p)))"
  using serves_verdict [OF ramfs.rm_spec [OF vfs_inv_wf [OF assms], of "resolve_path (current_dir st) p"]]
  by (simp add: remove_node_def split_beta)

lemmas serves = write_serves mkdir_serves rm_serves cat_shows_stored

lemma cd_root: "fst (change_directory st ''/'')"
proof -
  have "canonical ''/''" by code_simp
  then have "resolve_path (current_dir st) ''/'' = ''/''" by (rule resolve_canonical_id)
  then show ?thesis by (simp add: change_directory_def)
qed

text \<open>\<open>serves_as r fs out\<close>: what a command printed and left is what request \<open>r\<close> asks of the store.\<close>

definition serves_as :: "request \<Rightarrow> vfs_state \<Rightarrow> out list \<times> vfs_state \<Rightarrow> bool" where
  "serves_as r fs res \<longleftrightarrow>
     fst res = both_ln (fst (answered r (file_shell_of fs)))
     \<and> file_shell_of (snd res) = snd (answered r (file_shell_of fs))"

lemma cd_command_serves:
  assumes "vfs_inv fs"
  shows "serves_as (Go (if args = [] then ''/'' else args)) fs (cd_command args fs)"
proof -
  define p where "p = (if args = [] then ''/'' else args)"
  have root: "args = [] \<Longrightarrow> fst (change_directory fs p)" by (simp add: p_def cd_root)
  have "fst (serve (Go p) (file_shell_of fs)) = (if fst (change_directory fs p) then Granted else Refused)"
    using cd_serves(2) [OF assms, of p] by (auto simp: Let_def split: if_splits)
  moreover have "cd_command args fs = (both_ln (if fst (change_directory fs p)
      then ''changed directory to '' @ get_current_directory (snd (change_directory fs p))
      else ''cd: no such directory: '' @ p), snd (change_directory fs p))"
    using root unfolding p_def by (cases "args = []") (simp_all add: cd_command_def split_beta Let_def)
  ultimately show ?thesis
    using cd_serves(1) [OF assms, of p] cd_reply [OF assms, of p]
    unfolding p_def [symmetric] serves_as_def
    by (auto simp: answered_def split_beta Let_def simp del: serve.simps)
qed

lemma file_command_serves:
  assumes inv: "vfs_inv fs" and r: "request_of cmd = Some r"
  shows "serves_as r fs (file_command (command_name cmd) (command_args cmd) fs)"
proof -
  let ?c = "command_name cmd" and ?a = "command_args cmd"
  have "?c \<in> {''cd'', ''cat'', ''touch'', ''write'', ''mkdir'', ''rm''}"
    using r by (auto simp: request_of_def split_beta Let_def split: if_splits)
  then show ?thesis
  proof (elim insertE emptyE)
    assume "?c = ''cd''"
    then show ?thesis
      using r cd_command_serves [OF inv, of ?a] by (simp add: request_of_def file_command_def split_beta)
  qed (use r in \<open>auto simp: request_of_def file_command_def serves_as_def answered_def quoted_def
      split_beta Let_def follow_resolve [OF inv] serves [OF inv] split: if_splits option.splits\<close>)
qed

lemma request_of_iff: "request_of cmd = None \<longleftrightarrow> \<not> is_file_command (command_name cmd)"
  by (auto simp: request_of_def is_file_command_def split_beta Let_def)

lemma info_not_file: "is_file_command c \<Longrightarrow> info_command e c args k = None"
  unfolding is_file_command_def
  by (elim insertE emptyE; simp add: info_command_def system_command_def listing_command_def
      console_command_def power_command_def)

lemma command_serves:
  assumes "vfs_inv (k_vfs k)" "request_of cmd = Some r"
  shows "\<exists>fs. handle_command e cmd k = Inr (both_ln (fst (answered r (file_shell_of (k_vfs k)))), k\<lparr>k_vfs := fs\<rparr>)
    \<and> file_shell_of fs = snd (answered r (file_shell_of (k_vfs k)))"
  using file_command_serves [OF assms] assms(2) request_of_iff [of cmd]
  by (auto simp: handle_command_simps info_not_file serves_as_def split_beta Let_def)

lemma other_command_vfs:
  assumes "other_command c args k = Inr (os, k')"
  shows "k_vfs k' = k_vfs k"
  using assms
proof (cases rule: other_command_outcome)
  case ping
  with ping_command_net show ?thesis by fastforce
qed (auto simp: prompt_command_def spawn_command_def kill_command_def split_beta Let_def split: option.splits if_splits)

lemma command_vfs_frame:
  assumes "handle_command e cmd k = Inr (os, k')" "request_of cmd = None"
  shows "k_vfs k' = k_vfs k"
proof (cases "info_command e (command_name cmd) (command_args cmd) k")
  case None
  then have "other_command (command_name cmd) (command_args cmd) k = Inr (os, k')"
    using assms by (simp add: handle_command_simps request_of_iff)
  then show ?thesis by (rule other_command_vfs)
qed (use assms in \<open>simp add: handle_command_simps\<close>)

subsection \<open>Sessions\<close>

text \<open>A session: lines given to the shell one after the other, with what each printed; and the
  store serving requests one after the other.\<close>

fun session :: "('v, 'f) env \<Rightarrow> string list \<Rightarrow> kernel \<Rightarrow> ((string \<times> out list) list \<times> kernel) res" where
  "session e [] k = Inr ([], k)"
| "session e (cmd # cmds) k =
     bind_res (handle_command e cmd k) (\<lambda>(os, k1).
       bind_res (session e cmds k1) (\<lambda>(outs, k2). Inr ((cmd, os) # outs, k2)))"

fun serve_all :: "request list \<Rightarrow> file_shell \<Rightarrow> string list \<times> file_shell" where
  "serve_all [] s = ([], s)"
| "serve_all (r # rs) s =
     (let (msg, s1) = answered r s; (msgs, s2) = serve_all rs s1 in (msg # msgs, s2))"

definition requests :: "string list \<Rightarrow> request list" where
  "requests cmds = map (the \<circ> request_of) (filter (\<lambda>c. request_of c \<noteq> None) cmds)"

lemma requests_simps [simp]:
  "requests [] = []"
  "request_of c = None \<Longrightarrow> requests (c # cmds) = requests cmds"
  "request_of c = Some r \<Longrightarrow> requests (c # cmds) = r # requests cmds"
  by (simp_all add: requests_def)

definition file_outputs :: "(string \<times> out list) list \<Rightarrow> out list list" where
  "file_outputs outs = map snd (filter (\<lambda>(c, os). request_of c \<noteq> None) outs)"

lemma session_Cons:
  assumes "session e (cmd # cmds) k = Inr (outs, k')"
  obtains os k1 rest where "handle_command e cmd k = Inr (os, k1)" "session e cmds k1 = Inr (rest, k')"
    "outs = (cmd, os) # rest"
  using assms by (auto simp: bind_res_eq_Inr)

lemma session_serves:
  assumes "session e cmds k = Inr (outs, k')" "vfs_inv (k_vfs k)" "list_all (list_all is_printable) cmds"
  shows "file_outputs outs = map both_ln (fst (serve_all (requests cmds) (file_shell_of (k_vfs k))))
    \<and> file_shell_of (k_vfs k') = snd (serve_all (requests cmds) (file_shell_of (k_vfs k))) \<and> vfs_inv (k_vfs k')"
  using assms
proof (induction cmds arbitrary: k outs)
  case (Cons cmd cmds)
  from Cons.prems(1) obtain os k1 rest where run: "handle_command e cmd k = Inr (os, k1)"
    "session e cmds k1 = Inr (rest, k')" "outs = (cmd, os) # rest" by (rule session_Cons)
  have inv: "vfs_inv (k_vfs k1)"
    using command_vfs_inv [OF run(1) Cons.prems(2)] Cons.prems(3) by simp
  note IH = Cons.IH [OF run(2) inv]
  show ?case
  proof (cases "request_of cmd")
    case None
    with IH Cons.prems(3) command_vfs_frame [OF run(1)] show ?thesis
      by (simp add: run(3) file_outputs_def)
  next
    case (Some r)
    from command_serves [OF Cons.prems(2) Some, of e] run(1)
    have "os = both_ln (fst (answered r (file_shell_of (k_vfs k))))"
      "file_shell_of (k_vfs k1) = snd (answered r (file_shell_of (k_vfs k)))" by auto
    with IH Cons.prems(3) Some show ?thesis
      by (simp add: run(3) file_outputs_def split_beta Let_def)
  qed
qed (simp add: file_outputs_def)

text \<open>A session ends, unless a command in it is one of the three that can stop the kernel.\<close>

lemma session_returns:
  "list_all (\<lambda>c. command_name c \<notin> {''panic'', ''calc'', ''ping''}) cmds \<Longrightarrow>
     \<exists>outs k'. session e cmds k = Inr (outs, k')"
proof (induction cmds arbitrary: k)
  case (Cons cmd cmds)
  have "\<nexists>p. handle_command e cmd k = Inl p" using Cons.prems by (simp add: handle_command_panic)
  then obtain os k1 where "handle_command e cmd k = Inr (os, k1)"
    by (cases "handle_command e cmd k") auto
  with Cons.IH [of k1] Cons.prems show ?case by auto
qed simp

subsection \<open>What leaves the files alone\<close>

fun may_change_files :: "request \<Rightarrow> bool" where
  "may_change_files (Create p) = True"
| "may_change_files (Store p d) = True"
| "may_change_files (Delete p) = True"
| "may_change_files _ = False"

lemma serve_keeps_files:
  "\<not> may_change_files r \<Longrightarrow> spec_read (stored (snd (serve r s))) q = spec_read (stored s) q"
  by (cases r) (auto simp: Let_def verdict_def spec_mkdir_def spec_read_def split: option.split)

lemma serve_all_keep_files:
  "list_all (Not \<circ> may_change_files) rs \<Longrightarrow> spec_read (stored (snd (serve_all rs s))) q = spec_read (stored s) q"
  by (induction rs arbitrary: s) (simp_all add: answered_def split_beta Let_def serve_keeps_files)

lemma request_changes: "request_of cmd = Some r \<Longrightarrow> may_change_files r \<Longrightarrow> command_name cmd \<in> {''touch'', ''write'', ''rm''}"
  by (auto simp: request_of_def split_beta Let_def split: if_splits)

subsection \<open>In the running kernel\<close>

text \<open>The store after a list of lines.\<close>

definition after_lines :: "string list \<Rightarrow> file_shell \<Rightarrow> file_shell" where
  "after_lines ls s = snd (serve_all (requests (map trim ls)) s)"

lemma serve_all_append: "snd (serve_all (rs @ rs') s) = snd (serve_all rs' (snd (serve_all rs s)))"
  by (induction rs arbitrary: s) (simp_all add: split_beta Let_def)

lemma after_lines_Nil [simp]: "after_lines [] s = s"
  by (simp add: after_lines_def)

lemma after_lines_append: "after_lines (ls @ ls') s = after_lines ls' (after_lines ls s)"
  by (simp add: after_lines_def requests_def serve_all_append)

lemma run_line_serves:
  assumes "run_line e k = Inr (os, k')" "vfs_inv (k_vfs k)" "input_inv (k_input k)"
  shows "file_shell_of (k_vfs k') = after_lines (take 1 (ready_lines (k_input k))) (file_shell_of (k_vfs k))"
  using assms(1)
proof (cases rule: run_line_Inr)
  case (command l q os')
  let ?k = "k\<lparr>k_input := (k_input k)\<lparr>ready_lines := q\<rparr>\<rparr>"
  have "session e [trim l] ?k = Inr ([(trim l, os')], k')" using command(2) by simp
  moreover have "list_all is_printable (trim l)"
    using assms(3) command(1) by (intro good_line_trim) (simp add: input_inv_def)
  ultimately show ?thesis
    using session_serves [of e "[trim l]" ?k] assms(2) command(1) by (simp add: after_lines_def)
qed simp

lemma kernel_step_serves:
  assumes "kernel_step E m m'" "kernel_inv m"
  shows "file_shell_of (k_vfs (kern m')) = after_lines (lines_run (observed m m')) (file_shell_of (k_vfs (kern m)))"
  using assms(1)
proof cases
  case (shell_line idx ctx e os k)
  then show ?thesis
    using run_line_serves [OF shell_line(4)] kernel_invD [OF assms(2)] by (simp add: observed_def)
qed (auto simp: observed_def split: cpu_state.splits)

lemma kernel_run_serves:
  "kernel_run E m es m' \<Longrightarrow> kernel_inv m \<Longrightarrow>
     file_shell_of (k_vfs (kern m')) = after_lines (lines_run es) (file_shell_of (k_vfs (kern m)))"
proof (induction rule: kernel_run.induct)
  case (go m m1 es m')
  with kernel_step_serves [OF go.hyps(1)] kernel_step_inv [OF _ go.hyps(1)] show ?case
    by (simp add: after_lines_append)
qed simp

text \<open>The store a booted kernel offers.\<close>

definition first_files :: file_shell where
  "first_files = \<lparr>stored = [[] \<mapsto> Dir, [''config''] \<mapsto> Dir, [''bin''] \<mapsto> Dir, [''home''] \<mapsto> Dir,
       [''config'', ''system.conf''] \<mapsto> Reg system_conf, [''readme.txt''] \<mapsto> Reg readme_txt,
       [''bin'', ''init''] \<mapsto> Reg bin_init],
     place = []\<rparr>"

lemma mkdir_view: "view_of (snd (mkdir fs p)) = snd (spec_mkdir (view_of fs) (path_parts p))"
  and write_view: "view_of (snd (write_file fs p d)) = snd (spec_write (view_of fs) (path_parts p) d)"
  using mkdir_spec [of fs p] write_file_spec [of fs p d] by (metis snd_conv)+

lemma view_of_root: "view_of \<lparr>fs_root = Directory ''/'' []\<rparr> = [[] \<mapsto> Dir]"
proof
  fix p show "view_of \<lparr>fs_root = Directory ''/'' []\<rparr> p = [[] \<mapsto> Dir] p" by (cases p) (simp_all add: view_of_def)
qed

lemma first_paths:
  "path_parts ''config'' = [''config'']" "path_parts ''bin'' = [''bin'']" "path_parts ''home'' = [''home'']"
  "path_parts ''config/system.conf'' = [''config'', ''system.conf'']" "path_parts ''readme.txt'' = [''readme.txt'']"
  "path_parts ''bin/init'' = [''bin'', ''init'']"
  by code_simp+

lemma booted_files: "file_shell_of (k_vfs booted) = first_files"
proof -
  have "view_of new_fs = stored first_files"
    by (simp add: new_fs_def init_default_structure_def mkdir_view write_view view_of_root first_paths
        spec_mkdir_def spec_write_def first_files_def)
  moreover have "path_parts ''/'' = []" by code_simp
  ultimately show ?thesis
    by (simp add: file_shell_of_def booted_def init_vfs_def first_files_def)
qed

text \<open>For the examples: the line \<open>rm bin\<close>, typed on the serial line of the booted kernel.\<close>

lemma rm_bin_talk:
  "\<exists>os es m. kernel_talk {sample_env} booted_machine (map Serial_Byte (typed ''rm bin'')) os es m
     \<and> lines_run es = [''rm bin''] \<and> ready_lines (k_input (kern m)) = []"
proof (rule first_line_talk)
  show "list_all is_printable ''rm bin''" by (simp add: is_printable_def byte_in_def)
  show "length ''rm bin'' \<le> max_line_len" by (simp add: max_line_len_def)
  have r: "request_of (trim ''rm bin'') = Some (Delete ''bin'')" by code_simp
  have "vfs_inv (k_vfs booted)" by (simp add: booted_def vfs_inv_init)
  then show "\<exists>os k. handle_command sample_env (trim ''rm bin'')
      (booted\<lparr>k_input := (fed ''rm bin'')\<lparr>ready_lines := []\<rparr>, k_sched := s\<rparr>) = Inr (os, k) \<and> k_sched k = s" for s
    using command_serves [OF _ r, of "booted\<lparr>k_input := (fed ''rm bin'')\<lparr>ready_lines := []\<rparr>, k_sched := s\<rparr>" sample_env]
    by fastforce
qed

subsection \<open>Properties\<close>

text \<open>C15. The file commands are a file store: in any session on the shell, whatever else is typed
  in between, each \<^verbatim>\<open>cd\<close>, \<^verbatim>\<open>cat\<close>, \<^verbatim>\<open>touch\<close>, \<^verbatim>\<open>write\<close>, \<^verbatim>\<open>mkdir\<close> and \<^verbatim>\<open>rm\<close> prints the
  answer that the abstract store gives to that request, and the files and the current
  directory end up as the store's.\<close>

theorem file_session_refines:
  assumes "session e cmds k = Inr (outs, k')" "vfs_inv (k_vfs k)" "list_all (list_all is_printable) cmds"
  shows "file_outputs outs = map both_ln (fst (serve_all (requests cmds) (file_shell_of (k_vfs k))))
    \<and> file_shell_of (k_vfs k') = snd (serve_all (requests cmds) (file_shell_of (k_vfs k)))"
  using session_serves [OF assms] by blast

text \<open>On the booted kernel, with a \<^verbatim>\<open>prompt\<close> in between.\<close>

theorem file_session_refines_witness:
  "\<exists>outs k'. session sample_env [''cd bin'', ''prompt me'', ''write a hi'', ''cat ../bin/a'', ''rm b'', ''cd ..''] booted
       = Inr (outs, k')
     \<and> file_outputs outs = map both_ln [''changed directory to /bin'', ''wrote to file '' @ quoted ''a'', ''hi'',
          ''rm: failed to remove: b'', ''changed directory to /'']
     \<and> file_shell_of (k_vfs k') = first_files\<lparr>stored := (stored first_files)([''bin'', ''a''] \<mapsto> Reg ''hi'')\<rparr>"
proof -
  let ?cmds = "[''cd bin'', ''prompt me'', ''write a hi'', ''cat ../bin/a'', ''rm b'', ''cd ..'']"
  have "list_all (\<lambda>c. command_name c \<notin> {''panic'', ''calc'', ''ping''}) ?cmds" by code_simp
  then obtain outs k' where run: "session sample_env ?cmds booted = Inr (outs, k')"
    using session_returns by blast
  have "vfs_inv (k_vfs booted)" by (simp add: booted_def vfs_inv_init)
  moreover have "list_all (list_all is_printable) ?cmds" by (simp add: is_printable_def byte_in_def)
  ultimately have r: "file_outputs outs = map both_ln (fst (serve_all (requests ?cmds) first_files))
      \<and> file_shell_of (k_vfs k') = snd (serve_all (requests ?cmds) first_files)"
    using file_session_refines [OF run] by (simp only: booted_files)
  have q: "requests ?cmds = [Go ''bin'', Store ''a'' ''hi'', Show ''../bin/a'', Delete ''b'', Go ''..'']" by code_simp
  have f: "follow [] ''bin'' = [''bin'']" "follow [''bin''] ''a'' = [''bin'', ''a'']"
    "follow [''bin''] ''../bin/a'' = [''bin'', ''a'']" "follow [''bin''] ''b'' = [''bin'', ''b'']"
    "follow [''bin''] ''..'' = []" by code_simp+
  have "serve_all (requests ?cmds) first_files =
      ([''changed directory to /bin'', ''wrote to file '' @ quoted ''a'', ''hi'',
          ''rm: failed to remove: b'', ''changed directory to /''],
       first_files\<lparr>stored := (stored first_files)([''bin'', ''a''] \<mapsto> Reg ''hi'')\<rparr>)"
    unfolding q by (simp add: answered_def first_files_def f spec_write_def spec_read_def spec_remove_def
        verdict_def render_path_def Let_def)
  with r run show ?thesis by auto
qed

text \<open>Only \<^verbatim>\<open>touch\<close>, \<^verbatim>\<open>write\<close> and \<^verbatim>\<open>rm\<close> change files: in a session without these three, no
  file loses its content, gets another or appears, whatever the other commands are.\<close>

theorem files_kept:
  assumes "session e cmds k = Inr (outs, k')" "vfs_inv (k_vfs k)" "list_all (list_all is_printable) cmds"
    and "\<forall>c\<in>set cmds. command_name c \<notin> {''touch'', ''write'', ''rm''}"
  shows "spec_read (view_of (fs_tree (k_vfs k'))) p = spec_read (view_of (fs_tree (k_vfs k))) p"
proof -
  have "list_all (Not \<circ> may_change_files) (requests cmds)"
    using assms(4) request_changes by (force simp: requests_def list_all_iff)
  with session_serves [OF assms(1-3)] show ?thesis
    using serve_all_keep_files [of "requests cmds" "file_shell_of (k_vfs k)" p] by (metis stored_of)
qed

theorem files_kept_witness:
  "\<exists>outs k'. session sample_env [''mkdir docs'', ''cd docs'', ''whoami'', ''kill 1''] booted = Inr (outs, k')
     \<and> spec_read (view_of (fs_tree (k_vfs k'))) [''readme.txt''] = Some readme_txt"
proof -
  let ?cmds = "[''mkdir docs'', ''cd docs'', ''whoami'', ''kill 1'']"
  have "list_all (\<lambda>c. command_name c \<notin> {''panic'', ''calc'', ''ping''}) ?cmds" by code_simp
  then obtain outs k' where run: "session sample_env ?cmds booted = Inr (outs, k')"
    using session_returns by blast
  have "vfs_inv (k_vfs booted)" by (simp add: booted_def vfs_inv_init)
  moreover have "list_all (list_all is_printable) ?cmds" by (simp add: is_printable_def byte_in_def)
  moreover have "\<forall>c\<in>set ?cmds. command_name c \<notin> {''touch'', ''write'', ''rm''}" by code_simp
  ultimately have "spec_read (view_of (fs_tree (k_vfs k'))) [''readme.txt'']
      = spec_read (stored (file_shell_of (k_vfs booted))) [''readme.txt'']"
    using files_kept [OF run, of "[''readme.txt'']"] by simp
  then have "spec_read (view_of (fs_tree (k_vfs k'))) [''readme.txt''] = Some readme_txt"
    unfolding booted_files by (simp add: first_files_def spec_read_def)
  with run show ?thesis by blast
qed

text \<open>C12. The kernel's files are what the lines asked for: after any run of the kernel from boot,
  with whatever interrupts, tasks and typing, the file system and the current directory are
  those of the abstract store, which starts with the default files and serves exactly the
  file requests of the lines the shell has taken, in their order.\<close>

theorem files_follow_lines:
  assumes "kernel_boot m0" "kernel_run E m0 es m"
  shows "file_shell_of (k_vfs (kern m)) = after_lines (lines_run es) first_files"
proof -
  have "kern m0 = booted" using assms(1) by (simp add: kernel_boot_def booted_kernel_eq)
  with kernel_run_serves [OF assms(2) kernel_boot_inv [OF assms(1)]] booted_files show ?thesis by simp
qed

text \<open>The line \<open>rm bin\<close> typed on the serial line and taken by the shell.\<close>

theorem files_follow_lines_witness:
  "\<exists>es m. kernel_run {sample_env} booted_machine es m \<and> lines_run es = [''rm bin'']
     \<and> view_of (fs_tree (k_vfs (kern m))) [''bin'', ''init''] = None
     \<and> view_of (fs_tree (k_vfs (kern m))) [''readme.txt''] = Some (Reg readme_txt)"
proof -
  obtain es m where run: "kernel_run {sample_env} booted_machine es m" "lines_run es = [''rm bin'']"
    using rm_bin_talk kernel_talk_run by blast
  have "requests (map trim [''rm bin'']) = [Delete ''bin'']" by code_simp
  moreover have "follow [] ''bin'' = [''bin'']" by code_simp
  moreover have "place first_files = []" "stored first_files [''bin''] = Some Dir" by (simp_all add: first_files_def)
  ultimately have "stored (after_lines [''rm bin''] first_files) =
      (\<lambda>q. if is_prefix [''bin''] q then None else stored first_files q)"
    by (simp add: after_lines_def answered_def verdict_def spec_remove_def Let_def)
  with files_follow_lines [OF booted_machine_boot run(1)] run(2)
  have "view_of (fs_tree (k_vfs (kern m))) = (\<lambda>q. if is_prefix [''bin''] q then None else stored first_files q)"
    by (metis stored_of)
  then have "view_of (fs_tree (k_vfs (kern m))) [''bin'', ''init''] = None"
    "view_of (fs_tree (k_vfs (kern m))) [''readme.txt''] = Some (Reg readme_txt)"
    by (simp_all add: is_prefix_def first_files_def)
  with run show ?thesis by blast
qed

end
