(* ===== verification/Boot_Info.thy ===== *)
theory Boot_Info
  imports Rust_Prelude
begin

text \<open>
  What the bootloader hands to the kernel: the types of \<^verbatim>\<open>src/bootloader_api/src/lib.rs\<close> and
  the memory map with its two operations. The map is an array of 256 regions of which the
  first \<open>next_free_index\<close> are in use; a region that finds it full is dropped.
\<close>

datatype pixel_format = Rgb | Bgr

record frame_buffer_info =
  address :: u64
  byte_len :: nat
  width :: nat
  height :: nat
  stride :: nat
  pixel_format :: pixel_format

definition empty_frame_buffer :: frame_buffer_info where
  "empty_frame_buffer =
     \<lparr>address = 0, byte_len = 0, width = 0, height = 0, stride = 0, pixel_format = Bgr\<rparr>"

datatype memory_region_type =
    Usable | InUse | Reserved | AcpiReclaimable | AcpiNvs | BadMemory | Kernel | KernelStack
  | PageTable | Bootloader | UnknownUefi u32

record memory_region_range =
  start_addr :: u64
  end_addr :: u64

record memory_region =
  range :: memory_region_range
  region_type :: memory_region_type

definition empty_region :: memory_region where
  "empty_region = \<lparr>range = \<lparr>start_addr = 0, end_addr = 0\<rparr>, region_type = Usable\<rparr>"

record memory_map =
  regions :: "memory_region list"
  next_free_index :: nat

definition new_map :: memory_map where
  "new_map = \<lparr>regions = replicate 256 empty_region, next_free_index = 0\<rparr>"

definition add_region :: "memory_region \<Rightarrow> memory_map \<Rightarrow> memory_map" where
  "add_region r m =
     (if next_free_index m < length (regions m)
      then m\<lparr>regions := (regions m)[next_free_index m := r], next_free_index := next_free_index m + 1\<rparr>
      else m)"

definition map_iter :: "memory_map \<Rightarrow> memory_region list" where
  "map_iter m = take (next_free_index m) (regions m)"

record boot_info =
  bi_memory_map :: memory_map
  physical_memory_offset :: u64
  framebuffer :: frame_buffer_info

subsection \<open>The map as a bounded list\<close>

definition map_wf :: "memory_map \<Rightarrow> bool" where
  "map_wf m = (length (regions m) = 256 \<and> next_free_index m \<le> 256)"

lemma map_wf_new: "map_wf new_map"
  by (simp add: map_wf_def new_map_def)

lemma map_wf_add [inv_intros]: "map_wf m \<Longrightarrow> map_wf (add_region r m)"
  by (simp add: map_wf_def add_region_def)

lemma map_iter_new [simp]: "map_iter new_map = []"
  by (simp add: map_iter_def new_map_def)

lemma length_map_iter: "map_wf m \<Longrightarrow> length (map_iter m) = next_free_index m"
  by (simp add: map_wf_def map_iter_def)

lemma map_iter_add:
  "map_wf m \<Longrightarrow> map_iter (add_region r m) = take 256 (map_iter m @ [r])"
  by (auto simp: map_wf_def map_iter_def add_region_def take_Suc_conv_app_nth min_def)

lemma map_iter_fold:
  "map_wf m \<Longrightarrow> map_iter (fold add_region rs m) = take 256 (map_iter m @ rs)"
proof (induction rs arbitrary: m)
  case Nil
  then show ?case using length_map_iter [of m] by (simp add: map_wf_def)
next
  case (Cons r rs)
  then have "map_iter (fold add_region (r # rs) m) = take 256 (take 256 (map_iter m @ [r]) @ rs)"
    by (simp add: map_wf_add map_iter_add)
  also have "\<dots> = take 256 (map_iter m @ r # rs)"
    using length_map_iter [OF Cons.prems] Cons.prems
    by (cases "next_free_index m = 256") (auto simp: map_wf_def take_Cons')
  finally show ?case .
qed

end
