(* ===== verification/Vga.thy ===== *)
theory Vga
  imports Font Boot_Info Console
begin

text \<open>
  The framebuffer console, \<^verbatim>\<open>src/src/vga_buffer.rs\<close>. The memory behind the framebuffer's
  address is the field \<open>vram\<close>, a function from byte offsets; the code writes it through a raw
  pointer, so an access at or past \<open>byte_len\<close> is a wild access. Panics are the missing
  framebuffer, the two assertions of \<^verbatim>\<open>init\<close> and the underflow of \<^verbatim>\<open>scroll\<close> on a screen
  lower than a character. The other sums and products are bounded by the screen's width
  and height, or by the product \<^verbatim>\<open>init\<close> checks, so plain arithmetic stands for the checked one.
\<close>

definition glyph_width :: nat where "glyph_width = 8"
definition glyph_height :: nat where "glyph_height = 16"

record writer =
  w_framebuffer :: "frame_buffer_info option"
  column :: nat
  row :: nat
  foreground :: color
  background :: color
  vram :: "nat \<Rightarrow> u8"

definition new_writer :: "(nat \<Rightarrow> u8) \<Rightarrow> writer" where
  "new_writer mem =
     \<lparr>w_framebuffer = None, column = 0, row = 0, foreground = White, background = Black, vram = mem\<rparr>"

abbreviation no_framebuffer :: panic where
  "no_framebuffer \<equiv> Panic ''framebuffer not initialized''"

subsection \<open>Pixels and glyphs\<close>

definition pixel_bytes :: "pixel_format \<Rightarrow> u8 \<times> u8 \<times> u8 \<Rightarrow> u8 \<times> u8 \<times> u8" where
  "pixel_bytes fmt = (\<lambda>(red, green, blue).
     case fmt of Rgb \<Rightarrow> (red, green, blue) | Bgr \<Rightarrow> (blue, green, red))"

definition write_pixel :: "nat \<Rightarrow> nat \<Rightarrow> u8 \<times> u8 \<times> u8 \<Rightarrow> writer \<Rightarrow> writer res" where
  "write_pixel x y colour w =
     (case w_framebuffer w of
        None \<Rightarrow> Inl no_framebuffer
      | Some fb \<Rightarrow>
          if x \<ge> width fb \<or> y \<ge> height fb then Inr w
          else
            (let offset = (y * stride fb + x) * 4;
                 (first, second, third) = pixel_bytes (pixel_format fb) colour
             in if offset + 3 < byte_len fb
                then Inr (w\<lparr>vram := (vram w)(offset := first, offset + 1 := second, offset + 2 := third,
                                              offset + 3 := 0)\<rparr>)
                else Inl (Wild_Access offset)))"

text \<open>Nested loops over rows and columns run over the product of the two ranges.\<close>

definition draw_glyph :: "u8 \<Rightarrow> nat \<Rightarrow> nat \<Rightarrow> writer \<Rightarrow> writer res" where
  "draw_glyph byte x y w =
     (let fg = rgb (foreground w); bg = rgb (background w); glyph_offset = unat byte * glyph_height in
      fold_res (\<lambda>(glyph_y, glyph_x).
          let bits = vga_font_8x16 ! (glyph_offset + glyph_y);
              colour = (if and bits (drop_bit glyph_x 0x80) \<noteq> 0 then fg else bg)
          in write_pixel (x + glyph_x) (y + glyph_y) colour)
        (List.product [0..<glyph_height] [0..<glyph_width]) w)"

definition dimensions :: "writer \<Rightarrow> (nat \<times> nat) res" where
  "dimensions w =
     (case w_framebuffer w of
        None \<Rightarrow> Inl no_framebuffer
      | Some fb \<Rightarrow> Inr (width fb div glyph_width, height fb div glyph_height))"

definition fill_rows :: "nat \<Rightarrow> nat \<Rightarrow> nat \<Rightarrow> writer \<Rightarrow> writer res" where
  "fill_rows from until wid w =
     fold_res (\<lambda>(y, x). write_pixel x y (rgb (background w))) (List.product [from..<until] [0..<wid]) w"

definition clear_screen :: "writer \<Rightarrow> writer res" where
  "clear_screen w =
     (case w_framebuffer w of
        None \<Rightarrow> Inl no_framebuffer
      | Some fb \<Rightarrow>
          bind_res (fill_rows 0 (height fb) (width fb) w) (\<lambda>w. Inr (w\<lparr>column := 0, row := 0\<rparr>)))"

text \<open>The byte-wise copy of \<^verbatim>\<open>scroll\<close>; every read is below \<open>retained_bytes + scroll_bytes\<close>.\<close>

definition copy_up :: "nat \<Rightarrow> nat \<Rightarrow> (nat \<Rightarrow> u8) \<Rightarrow> nat \<Rightarrow> u8" where
  "copy_up retained scroll_bytes = fold (\<lambda>i m. m(i := m (i + scroll_bytes))) [0..<retained]"

definition scroll :: "writer \<Rightarrow> writer res" where
  "scroll w =
     (case w_framebuffer w of
        None \<Rightarrow> Inl no_framebuffer
      | Some fb \<Rightarrow>
          (let row_bytes = stride fb * 4; scroll_bytes = glyph_height * row_bytes;
               retained_bytes = byte_len fb - scroll_bytes;
               w = w\<lparr>vram := copy_up retained_bytes scroll_bytes (vram w)\<rparr>
           in bind_res (fill_rows (height fb - glyph_height) (height fb) (width fb) w) (\<lambda>w.
              bind_res (sub_usize (height fb div glyph_height) 1) (\<lambda>r. Inr (w\<lparr>row := r\<rparr>)))))"

definition new_line :: "writer \<Rightarrow> writer res" where
  "new_line w =
     (let w = w\<lparr>column := 0, row := row w + 1\<rparr> in
      bind_res (dimensions w) (\<lambda>(_, rows). if row w \<ge> rows then scroll w else Inr w))"

definition vga_backspace :: "writer \<Rightarrow> writer res" where
  "vga_backspace w =
     (if column w = 0 then Inr w
      else (let w = w\<lparr>column := column w - 1\<rparr>
            in draw_glyph 0x20 (column w * glyph_width) (row w * glyph_height) w))"

definition put_glyph :: "u8 \<Rightarrow> writer \<Rightarrow> writer res" where
  "put_glyph byte w =
     bind_res (dimensions w) (\<lambda>(columns, rows).
     bind_res (if column w \<ge> columns then new_line w else Inr w) (\<lambda>w.
     bind_res (if row w \<ge> rows then scroll w else Inr w) (\<lambda>w.
     bind_res (draw_glyph byte (column w * glyph_width) (row w * glyph_height) w) (\<lambda>w.
       Inr (w\<lparr>column := column w + 1\<rparr>)))))"

definition write_byte :: "u8 \<Rightarrow> writer \<Rightarrow> writer res" where
  "write_byte byte w =
     (if byte = 0x0A then new_line w else if byte = 0x08 then vga_backspace w else put_glyph byte w)"

definition write_string :: "u8 list \<Rightarrow> writer \<Rightarrow> writer res" where
  "write_string = fold_res (\<lambda>byte.
     if (0x20 \<le> byte \<and> byte \<le> 0x7E) \<or> byte = 0x0A \<or> byte = 0x08 then write_byte byte else write_byte 0xFE)"

definition vga_init :: "frame_buffer_info \<Rightarrow> writer \<Rightarrow> writer res" where
  "vga_init fb w =
     (if address fb = 0 then Inl (Panic ''bootloader provided no framebuffer'')
      else bind_res (mul_usize (stride fb) (height fb)) (\<lambda>n. bind_res (mul_usize n 4) (\<lambda>n.
        if byte_len fb < n then Inl (Panic ''framebuffer is smaller than its mode information'')
        else clear_screen (w\<lparr>w_framebuffer := Some fb\<rparr>))))"

definition set_colors :: "color \<Rightarrow> color \<Rightarrow> writer \<Rightarrow> writer" where
  "set_colors fg bg w = w\<lparr>foreground := fg, background := bg\<rparr>"

subsection \<open>Reading pixels back\<close>

text \<open>A frame buffer whose mode information is consistent.\<close>

definition fb_sane :: "frame_buffer_info \<Rightarrow> bool" where
  "fb_sane fb = (width fb \<le> stride fb \<and> stride fb * height fb * 4 \<le> byte_len fb)"

text \<open>One that is also high enough for a row of characters.\<close>

definition fb_ok :: "frame_buffer_info \<Rightarrow> bool" where
  "fb_ok fb = (fb_sane fb \<and> 16 \<le> height fb)"

lemma fb_ok_sane: "fb_ok fb \<Longrightarrow> fb_sane fb"
  by (simp add: fb_ok_def)

definition pixel_offset :: "frame_buffer_info \<Rightarrow> nat \<Rightarrow> nat \<Rightarrow> nat" where
  "pixel_offset fb x y = (y * stride fb + x) * 4"

definition pix :: "frame_buffer_info \<Rightarrow> (nat \<Rightarrow> u8) \<Rightarrow> nat \<Rightarrow> nat \<Rightarrow> u8 \<times> u8 \<times> u8 \<times> u8" where
  "pix fb m x y = (let i = pixel_offset fb x y in (m i, m (i + 1), m (i + 2), m (i + 3)))"

definition enc :: "frame_buffer_info \<Rightarrow> u8 \<times> u8 \<times> u8 \<Rightarrow> u8 \<times> u8 \<times> u8 \<times> u8" where
  "enc fb colour = (let (a, b, c) = pixel_bytes (pixel_format fb) colour in (a, b, c, 0))"

lemma pixel_offset_inj:
  assumes "x < stride fb" "x' < stride fb"
  shows "y * stride fb + x = y' * stride fb + x' \<longleftrightarrow> x = x' \<and> y = y'"
proof
  assume eq: "y * stride fb + x = y' * stride fb + x'"
  have "y = (y * stride fb + x) div stride fb" "y' = (y' * stride fb + x') div stride fb"
    using assms by simp_all
  with eq show "x = x' \<and> y = y'" by simp
qed simp

lemma pixel_offset_bound:
  assumes "fb_sane fb" "x < width fb" "y < height fb"
  shows "pixel_offset fb x y + 3 < byte_len fb" "x < stride fb"
proof -
  show "x < stride fb" using assms by (simp add: fb_sane_def)
  then have "y * stride fb + x < (y + 1) * stride fb" by simp
  also have "\<dots> \<le> height fb * stride fb" using assms(3) by (intro mult_right_mono) simp_all
  finally have "(y * stride fb + x) * 4 + 3 < stride fb * height fb * 4" by (simp add: mult.commute)
  also have "\<dots> \<le> byte_len fb" using assms(1) by (simp add: fb_sane_def)
  finally show "pixel_offset fb x y + 3 < byte_len fb" by (simp add: pixel_offset_def)
qed

text \<open>What writing a pixel does to the memory.\<close>

definition poke :: "frame_buffer_info \<Rightarrow> nat \<Rightarrow> nat \<Rightarrow> u8 \<times> u8 \<times> u8 \<Rightarrow> (nat \<Rightarrow> u8) \<Rightarrow> nat \<Rightarrow> u8" where
  "poke fb x y colour m =
     (let i = pixel_offset fb x y; (a, b, c, d) = enc fb colour in m(i := a, i + 1 := b, i + 2 := c, i + 3 := d))"

lemma pix_poke:
  assumes "fb_sane fb" "x < width fb" "x' < width fb"
  shows "pix fb (poke fb x y colour m) x' y' = (if x' = x \<and> y' = y then enc fb colour else pix fb m x' y')"
proof (cases "x' = x \<and> y' = y")
  case True
  then show ?thesis by (simp add: pix_def poke_def Let_def split: prod.split)
next
  case False
  have s: "x < stride fb" "x' < stride fb" using assms by (simp_all add: fb_sane_def)
  define i where "i = y * stride fb + x"
  define j where "j = y' * stride fb + x'"
  have "i \<noteq> j" using False pixel_offset_inj [OF s, of y y'] by (auto simp: i_def j_def)
  then have "i * 4 + k \<noteq> j * 4 + l" if "k < 4" "l < 4" for k l using that by arith
  note ne = this [of 0 0] this [of 0 1] this [of 0 2] this [of 0 3] this [of 1 0] this [of 1 1] this [of 1 2]
    this [of 1 3] this [of 2 0] this [of 2 1] this [of 2 2] this [of 2 3] this [of 3 0] this [of 3 1]
    this [of 3 2] this [of 3 3]
  have "pix fb (poke fb x y colour m) x' y' = pix fb m x' y'"
    using ne by (simp add: pix_def poke_def pixel_offset_def Let_def i_def [symmetric] j_def [symmetric]
        split: prod.split)
  then show ?thesis by (subst if_not_P [OF False])
qed

lemma poke_outside:
  "fb_sane fb \<Longrightarrow> x < width fb \<Longrightarrow> y < height fb \<Longrightarrow> byte_len fb \<le> i \<Longrightarrow> poke fb x y colour m i = m i"
  using pixel_offset_bound [of fb x y] by (auto simp: poke_def Let_def split: prod.split)

lemma write_pixel_eq:
  assumes "w_framebuffer w = Some fb" "fb_sane fb"
  shows "write_pixel x y colour w =
    Inr (if x < width fb \<and> y < height fb then w\<lparr>vram := poke fb x y colour (vram w)\<rparr> else w)"
  using assms pixel_offset_bound [of fb x y]
  by (auto simp: write_pixel_def poke_def enc_def pixel_offset_def Let_def split: prod.split)

text \<open>A loop of pixel writes in which the colour is a function of the position.\<close>

lemma paint:
  assumes "w_framebuffer w = Some fb" "fb_sane fb" "\<forall>p\<in>set ps. C p = colour (X p) (Y p)"
  shows "\<exists>m. fold_res (\<lambda>p. write_pixel (X p) (Y p) (C p)) ps w = Inr (w\<lparr>vram := m\<rparr>)
    \<and> (\<forall>i\<ge>byte_len fb. m i = vram w i)
    \<and> (\<forall>x<width fb. \<forall>y<height fb. pix fb m x y =
         (if \<exists>p\<in>set ps. X p = x \<and> Y p = y then enc fb (colour x y) else pix fb (vram w) x y))"
  using assms(1,3)
proof (induction ps arbitrary: w)
  case Nil
  have "w = w\<lparr>vram := vram w\<rparr>" by simp
  then show ?case by (intro exI [of _ "vram w"]) simp
next
  case (Cons p ps)
  let ?w = "if X p < width fb \<and> Y p < height fb
            then w\<lparr>vram := poke fb (X p) (Y p) (C p) (vram w)\<rparr> else w"
  have "w_framebuffer ?w = Some fb" "\<forall>p\<in>set ps. C p = colour (X p) (Y p)" using Cons.prems by simp_all
  from Cons.IH [OF this] obtain m where
    m: "fold_res (\<lambda>p. write_pixel (X p) (Y p) (C p)) ps ?w = Inr (?w\<lparr>vram := m\<rparr>)"
      "\<forall>i\<ge>byte_len fb. m i = vram ?w i"
      "\<forall>x<width fb. \<forall>y<height fb. pix fb m x y =
         (if \<exists>p\<in>set ps. X p = x \<and> Y p = y then enc fb (colour x y) else pix fb (vram ?w) x y)"
    by blast
  have "fold_res (\<lambda>p. write_pixel (X p) (Y p) (C p)) (p # ps) w = Inr (w\<lparr>vram := m\<rparr>)"
    using m(1) by (simp add: write_pixel_eq [OF Cons.prems(1) assms(2)])
  moreover have "\<forall>i\<ge>byte_len fb. m i = vram w i"
    using m(2) poke_outside [OF assms(2)] by (cases "X p < width fb \<and> Y p < height fb") auto
  moreover have "pix fb m x y =
      (if \<exists>q\<in>set (p # ps). X q = x \<and> Y q = y then enc fb (colour x y) else pix fb (vram w) x y)"
    if "x < width fb" "y < height fb" for x y
  proof -
    have "pix fb (vram ?w) x y = (if X p = x \<and> Y p = y then enc fb (colour x y) else pix fb (vram w) x y)"
      using that Cons.prems(2) pix_poke [OF assms(2), of "X p" x "Y p" "C p" "vram w" y] by auto
    with m(3) that show ?thesis by auto
  qed
  ultimately show ?case by blast
qed

subsection \<open>Glyphs, filled rows and scrolling on pixels\<close>

definition glyph_bit :: "u8 \<Rightarrow> nat \<Rightarrow> nat \<Rightarrow> bool" where
  "glyph_bit byte gx gy = (and (vga_font_8x16 ! (unat byte * 16 + gy)) (drop_bit gx 0x80) \<noteq> 0)"

definition glyph_colour :: "color \<Rightarrow> color \<Rightarrow> u8 \<Rightarrow> nat \<Rightarrow> nat \<Rightarrow> u8 \<times> u8 \<times> u8" where
  "glyph_colour fg bg byte gx gy = (if glyph_bit byte gx gy then rgb fg else rgb bg)"

lemma draw_glyph_pixels:
  assumes "w_framebuffer w = Some fb" "fb_sane fb"
  shows "\<exists>m. draw_glyph byte x y w = Inr (w\<lparr>vram := m\<rparr>) \<and> (\<forall>i\<ge>byte_len fb. m i = vram w i)
    \<and> (\<forall>x'<width fb. \<forall>y'<height fb. pix fb m x' y' =
         (if x \<le> x' \<and> x' < x + 8 \<and> y \<le> y' \<and> y' < y + 16
          then enc fb (glyph_colour (foreground w) (background w) byte (x' - x) (y' - y))
          else pix fb (vram w) x' y'))"
proof -
  let ?ps = "List.product [0..<16] [0..<8]"
  let ?col = "\<lambda>x' y'. glyph_colour (foreground w) (background w) byte (x' - x) (y' - y)"
  have draw: "draw_glyph byte x y w =
      fold_res (\<lambda>p. write_pixel (x + snd p) (y + fst p) (?col (x + snd p) (y + fst p))) ?ps w"
    unfolding draw_glyph_def Let_def glyph_height_def glyph_width_def
    by (simp only: case_prod_unfold glyph_colour_def glyph_bit_def add_diff_cancel_left')
  have dom: "(\<exists>p\<in>set ?ps. x + snd p = x' \<and> y + fst p = y') \<longleftrightarrow>
      x \<le> x' \<and> x' < x + 8 \<and> y \<le> y' \<and> y' < y + 16" for x' y'
  proof
    assume "x \<le> x' \<and> x' < x + 8 \<and> y \<le> y' \<and> y' < y + 16"
    then have "(y' - y, x' - x) \<in> set ?ps" "x + (x' - x) = x'" "y + (y' - y) = y'"
      by (auto simp: set_product)
    then show "\<exists>p\<in>set ?ps. x + snd p = x' \<and> y + fst p = y'" by force
  qed (auto simp: set_product)
  from paint [OF assms, where ps = ?ps and X = "\<lambda>p. x + snd p" and Y = "\<lambda>p. y + fst p"
      and C = "\<lambda>p. ?col (x + snd p) (y + fst p)" and colour = ?col]
  show ?thesis unfolding draw dom by blast
qed

lemma fill_rows_pixels:
  assumes "w_framebuffer w = Some fb" "fb_sane fb"
  shows "\<exists>m. fill_rows from until (width fb) w = Inr (w\<lparr>vram := m\<rparr>) \<and> (\<forall>i\<ge>byte_len fb. m i = vram w i)
    \<and> (\<forall>x<width fb. \<forall>y<height fb. pix fb m x y =
         (if from \<le> y \<and> y < until then enc fb (rgb (background w)) else pix fb (vram w) x y))"
proof -
  let ?ps = "List.product [from..<until] [0..<width fb]"
  have fill: "fill_rows from until (width fb) w =
      fold_res (\<lambda>p. write_pixel (snd p) (fst p) (rgb (background w))) ?ps w"
    by (simp only: fill_rows_def case_prod_unfold)
  have dom: "(\<exists>p\<in>set ?ps. snd p = x \<and> fst p = y) \<longleftrightarrow> from \<le> y \<and> y < until \<and> x < width fb" for x y
    by (auto simp: set_product)
  from paint [OF assms, where ps = ?ps and X = snd and Y = fst and C = "\<lambda>_. rgb (background w)"
      and colour = "\<lambda>_ _. rgb (background w)"]
  show ?thesis unfolding fill dom by auto
qed

lemma copy_up_eq: "copy_up n s m i = (if i < n then m (i + s) else m i)"
  by (induction n arbitrary: i) (auto simp: copy_up_def)

lemma scroll_pixels:
  assumes "w_framebuffer w = Some fb" "fb_ok fb"
  shows "\<exists>m. scroll w = Inr (w\<lparr>vram := m, row := height fb div 16 - 1\<rparr>) \<and> (\<forall>i\<ge>byte_len fb. m i = vram w i)
    \<and> (\<forall>x<width fb. \<forall>y<height fb. pix fb m x y =
         (if y + 16 < height fb then pix fb (vram w) x (y + 16) else enc fb (rgb (background w))))"
proof -
  let ?s = "16 * (stride fb * 4)"
  let ?m0 = "copy_up (byte_len fb - ?s) ?s (vram w)"
  let ?w = "w\<lparr>vram := ?m0\<rparr>"
  have h: "16 \<le> height fb" using assms(2) by (simp add: fb_ok_def)
  from fill_rows_pixels [of ?w, OF _ fb_ok_sane [OF assms(2)], of "height fb - 16" "height fb"] assms(1) obtain m where
    m: "fill_rows (height fb - 16) (height fb) (width fb) ?w = Inr (?w\<lparr>vram := m\<rparr>)"
      "\<forall>i\<ge>byte_len fb. m i = ?m0 i"
      "\<forall>x<width fb. \<forall>y<height fb. pix fb m x y =
         (if height fb - 16 \<le> y \<and> y < height fb then enc fb (rgb (background w)) else pix fb ?m0 x y)"
    by auto
  have shift: "pix fb ?m0 x y = pix fb (vram w) x (y + 16)" if "x < width fb" "y + 16 < height fb" for x y
  proof -
    have off: "pixel_offset fb x (y + 16) = pixel_offset fb x y + ?s"
      by (simp add: pixel_offset_def algebra_simps)
    have "pixel_offset fb x y + ?s + 3 < byte_len fb"
      using pixel_offset_bound(1) [OF fb_ok_sane [OF assms(2)] that] by (simp only: off)
    then have "pixel_offset fb x y + 3 < byte_len fb - ?s" by linarith
    then show ?thesis by (simp add: pix_def Let_def copy_up_eq off add.commute add.left_commute add.assoc)
  qed
  have "scroll w = Inr (w\<lparr>vram := m, row := height fb div 16 - 1\<rparr>)"
    using assms(1) m(1) h
    by (simp add: scroll_def Let_def glyph_height_def sub_usize_def less_eq_div_iff_mult_less_eq)
  moreover have "m i = vram w i" if "byte_len fb \<le> i" for i
  proof -
    have "\<not> i < byte_len fb - ?s" using that by linarith
    then show ?thesis using m(2) that by (simp add: copy_up_eq)
  qed
  moreover have "pix fb m x y =
      (if y + 16 < height fb then pix fb (vram w) x (y + 16) else enc fb (rgb (background w)))"
    if "x < width fb" "y < height fb" for x y
    using m(3) shift [of x y] that h by auto
  ultimately show ?thesis by blast
qed

lemma clear_screen_pixels:
  assumes "w_framebuffer w = Some fb" "fb_sane fb"
  shows "\<exists>m. clear_screen w = Inr (w\<lparr>vram := m, column := 0, row := 0\<rparr>) \<and> (\<forall>i\<ge>byte_len fb. m i = vram w i)
    \<and> (\<forall>x<width fb. \<forall>y<height fb. pix fb m x y = enc fb (rgb (background w)))"
  using fill_rows_pixels [OF assms, of 0 "height fb"] assms(1)
  by (auto simp: clear_screen_def)

subsection \<open>The text terminal it implements\<close>

text \<open>
  A grid of character cells with a cursor: what the writer means on a screen of \<open>rows\<close> by
  \<open>cols\<close> cells. Each cell holds the character and the colour it was written in; the
  background stays black.
\<close>

record terminal =
  t_rows :: nat
  t_cols :: nat
  t_row :: nat
  t_col :: nat
  t_fg :: color
  grid :: "nat \<Rightarrow> nat \<Rightarrow> u8 \<times> color"

definition blank :: "u8 \<times> color" where
  "blank = (0x20, White)"

definition t_scroll :: "terminal \<Rightarrow> terminal" where
  "t_scroll t = t\<lparr>grid := \<lambda>r. if r + 1 < t_rows t then grid t (r + 1) else (\<lambda>_. blank),
     t_row := t_rows t - 1\<rparr>"

definition t_new_line :: "terminal \<Rightarrow> terminal" where
  "t_new_line t =
     (let t = t\<lparr>t_col := 0, t_row := t_row t + 1\<rparr> in if t_row t \<ge> t_rows t then t_scroll t else t)"

definition t_put :: "nat \<Rightarrow> nat \<Rightarrow> u8 \<times> color \<Rightarrow> terminal \<Rightarrow> terminal" where
  "t_put r c cell t = t\<lparr>grid := (grid t)(r := (grid t r)(c := cell))\<rparr>"

definition t_backspace :: "terminal \<Rightarrow> terminal" where
  "t_backspace t =
     (if t_col t = 0 then t
      else t_put (t_row t) (t_col t - 1) (0x20, t_fg t) (t\<lparr>t_col := t_col t - 1\<rparr>))"

definition t_char :: "u8 \<Rightarrow> terminal \<Rightarrow> terminal" where
  "t_char byte t =
     (let t = (if t_col t \<ge> t_cols t then t_new_line t else t)
      in t_put (t_row t) (t_col t) (byte, t_fg t) (t\<lparr>t_col := t_col t + 1\<rparr>))"

definition t_byte :: "u8 \<Rightarrow> terminal \<Rightarrow> terminal" where
  "t_byte byte t =
     (if byte = 0x0A then t_new_line t else if byte = 0x08 then t_backspace t
      else t_char (if 0x20 \<le> byte \<and> byte \<le> 0x7E then byte else 0xFE) t)"

definition t_clear :: "terminal \<Rightarrow> terminal" where
  "t_clear t = t\<lparr>grid := (\<lambda>_ _. blank), t_row := 0, t_col := 0\<rparr>"

text \<open>The pixels show the grid, and the strip below the last row of characters is black.\<close>

definition shows_grid :: "frame_buffer_info \<Rightarrow> (nat \<Rightarrow> u8) \<Rightarrow> terminal \<Rightarrow> bool" where
  "shows_grid fb m t =
     ((\<forall>r<t_rows t. \<forall>c<t_cols t. \<forall>gx<8. \<forall>gy<16.
         pix fb m (c * 8 + gx) (r * 16 + gy) = enc fb (glyph_colour (snd (grid t r c)) Black (fst (grid t r c)) gx gy))
      \<and> (\<forall>x<t_cols t * 8. \<forall>y<height fb. t_rows t * 16 \<le> y \<longrightarrow> pix fb m x y = enc fb (rgb Black)))"

definition displays :: "frame_buffer_info \<Rightarrow> writer \<Rightarrow> terminal \<Rightarrow> bool" where
  "displays fb w t =
     (w_framebuffer w = Some fb \<and> t_rows t = height fb div 16 \<and> t_cols t = width fb div 8
      \<and> column w = t_col t \<and> row w = t_row t \<and> foreground w = t_fg t \<and> background w = Black
      \<and> t_row t < t_rows t \<and> t_col t \<le> max 1 (t_cols t) \<and> shows_grid fb (vram w) t)"

lemma space_dark: "gy < 16 \<Longrightarrow> glyph_colour fg Black 0x20 gx gy = rgb Black"
  using font_row [of 32 gy] by (simp add: glyph_colour_def glyph_bit_def space_blank)

lemma cell_bounds:
  assumes "r < height fb div 16" "c < width fb div 8" "gx < 8" "gy < 16"
  shows "c * 8 + gx < width fb" "r * 16 + gy < height fb"
  using assms by linarith+

lemma cell_inj:
  "gx < 8 \<Longrightarrow> c * 8 \<le> c' * 8 + gx \<and> c' * 8 + gx < c * 8 + 8 \<longleftrightarrow> c = c'"
  "gy < 16 \<Longrightarrow> r * 16 \<le> r' * 16 + gy \<and> r' * 16 + gy < r * 16 + 16 \<longleftrightarrow> r = r'"
  for gx gy :: nat
  by linarith+

lemma displays_draw:
  assumes sh: "displays fb w t" and fb: "fb_ok fb" and c: "c < max 1 (t_cols t)"
  shows "\<exists>m. draw_glyph byte (c * 8) (t_row t * 16) w = Inr (w\<lparr>vram := m\<rparr>)
    \<and> (\<forall>i\<ge>byte_len fb. m i = vram w i) \<and> displays fb (w\<lparr>vram := m\<rparr>) (t_put (t_row t) c (byte, t_fg t) t)"
proof -
  have w: "w_framebuffer w = Some fb" "t_rows t = height fb div 16" "t_cols t = width fb div 8"
      "foreground w = t_fg t" "background w = Black" "t_row t < t_rows t"
    and g: "shows_grid fb (vram w) t"
    using sh by (simp_all add: displays_def)
  from draw_glyph_pixels [OF w(1) fb_ok_sane [OF fb], of byte "c * 8" "t_row t * 16"] obtain m where
    m: "draw_glyph byte (c * 8) (t_row t * 16) w = Inr (w\<lparr>vram := m\<rparr>)" "\<forall>i\<ge>byte_len fb. m i = vram w i"
      "\<forall>x'<width fb. \<forall>y'<height fb. pix fb m x' y' =
         (if c * 8 \<le> x' \<and> x' < c * 8 + 8 \<and> t_row t * 16 \<le> y' \<and> y' < t_row t * 16 + 16
          then enc fb (glyph_colour (t_fg t) Black byte (x' - c * 8) (y' - t_row t * 16))
          else pix fb (vram w) x' y')"
    unfolding w(4,5) by blast
  have "shows_grid fb m (t_put (t_row t) c (byte, t_fg t) t)"
    unfolding shows_grid_def
  proof (intro conjI allI impI)
    fix r c' gx gy :: nat
    assume "r < t_rows (t_put (t_row t) c (byte, t_fg t) t)" "c' < t_cols (t_put (t_row t) c (byte, t_fg t) t)"
      and gxy: "gx < 8" "gy < (16::nat)"
    then have rc: "r < t_rows t" "c' < t_cols t" by (simp_all add: t_put_def)
    have old: "pix fb (vram w) (c' * 8 + gx) (r * 16 + gy) =
        enc fb (glyph_colour (snd (grid t r c')) Black (fst (grid t r c')) gx gy)"
      using g rc gxy by (simp add: shows_grid_def)
    have new: "pix fb m (c' * 8 + gx) (r * 16 + gy) =
        (if c = c' \<and> t_row t = r then enc fb (glyph_colour (t_fg t) Black byte gx gy)
         else pix fb (vram w) (c' * 8 + gx) (r * 16 + gy))"
      using m(3) cell_bounds [of r fb c' gx gy] rc gxy cell_inj(1) [of gx c c'] cell_inj(2) [of gy "t_row t" r]
      by (auto simp: w(2,3))
    show "pix fb m (c' * 8 + gx) (r * 16 + gy) =
        enc fb (glyph_colour (snd (grid (t_put (t_row t) c (byte, t_fg t) t) r c')) Black
          (fst (grid (t_put (t_row t) c (byte, t_fg t) t) r c')) gx gy)"
      unfolding new old by (simp add: t_put_def)
  next
    fix x y
    assume "x < t_cols (t_put (t_row t) c (byte, t_fg t) t) * 8" "y < height fb"
      "t_rows (t_put (t_row t) c (byte, t_fg t) t) * 16 \<le> y"
    then have xy: "x < t_cols t * 8" "y < height fb" "t_rows t * 16 \<le> y" by (simp_all add: t_put_def)
    have "x < width fb" using xy(1) w(3) by linarith
    moreover have "\<not> y < t_row t * 16 + 16" using xy(3) w(6) by linarith
    ultimately have "pix fb m x y = pix fb (vram w) x y" using m(3) xy(2) by simp
    then show "pix fb m x y = enc fb (rgb Black)" using g xy by (simp add: shows_grid_def)
  qed
  with m(1,2) sh show ?thesis by (auto simp: displays_def t_put_def)
qed

lemma displays_scroll:
  assumes w: "w_framebuffer w = Some fb" "foreground w = t_fg t" "background w = Black" "column w = t_col t"
    and dims: "t_rows t = height fb div 16" "t_cols t = width fb div 8" "t_col t \<le> max 1 (t_cols t)"
    and g: "shows_grid fb (vram w) t" and fb: "fb_ok fb"
  shows "\<exists>w'. scroll w = Inr w' \<and> (\<forall>i\<ge>byte_len fb. vram w' i = vram w i) \<and> displays fb w' (t_scroll t)"
proof -
  from scroll_pixels [OF w(1) fb] obtain m where
    m: "scroll w = Inr (w\<lparr>vram := m, row := height fb div 16 - 1\<rparr>)" "\<forall>i\<ge>byte_len fb. m i = vram w i"
      "\<forall>x<width fb. \<forall>y<height fb. pix fb m x y =
         (if y + 16 < height fb then pix fb (vram w) x (y + 16) else enc fb (rgb Black))"
    unfolding w(3) by blast
  have rows: "0 < height fb div 16" using fb by (simp add: fb_ok_def less_eq_div_iff_mult_less_eq Suc_le_eq [symmetric])
  have strip: "pix fb (vram w) x y = enc fb (rgb Black)"
    if "x < width fb div 8 * 8" "y < height fb" "height fb div 16 * 16 \<le> y" for x y
    using g that by (simp add: shows_grid_def dims)
  have "shows_grid fb m (t_scroll t)"
    unfolding shows_grid_def
  proof (intro conjI allI impI)
    fix r c gx gy :: nat
    assume "r < t_rows (t_scroll t)" "c < t_cols (t_scroll t)" and gxy: "gx < 8" "gy < 16"
    then have rc: "r < height fb div 16" "c < width fb div 8" by (simp_all add: t_scroll_def dims)
    note b = cell_bounds [OF rc gxy]
    show "pix fb m (c * 8 + gx) (r * 16 + gy) =
        enc fb (glyph_colour (snd (grid (t_scroll t) r c)) Black (fst (grid (t_scroll t) r c)) gx gy)"
    proof (cases "r + 1 < height fb div 16")
      case True
      have "pix fb (vram w) (c * 8 + gx) ((r + 1) * 16 + gy) =
          enc fb (glyph_colour (snd (grid t (r + 1) c)) Black (fst (grid t (r + 1) c)) gx gy)"
        using g True rc(2) gxy unfolding shows_grid_def dims by blast
      moreover have "(r + 1) * 16 + gy < height fb" by (rule cell_bounds(2) [OF True rc(2) gxy])
      ultimately show ?thesis
        using m(3) b True by (simp add: t_scroll_def dims add.commute add.left_commute add.assoc)
    next
      case False
      then have r: "r = height fb div 16 - 1" using rc(1) by linarith
      have x: "c * 8 + gx < width fb div 8 * 8" using rc(2) gxy(1) by linarith
      have "height fb div 16 * 16 \<le> r * 16 + gy + 16" using r rows by linarith
      then have "pix fb m (c * 8 + gx) (r * 16 + gy) = enc fb (rgb Black)"
        using m(3) b strip [OF x] by auto
      then show ?thesis using False gxy(2) by (simp add: t_scroll_def dims blank_def space_dark)
    qed
  next
    fix x y
    assume "x < t_cols (t_scroll t) * 8" "y < height fb" "t_rows (t_scroll t) * 16 \<le> y"
    then have xy: "x < width fb div 8 * 8" "y < height fb" "height fb div 16 * 16 \<le> y"
      by (simp_all add: t_scroll_def dims)
    have "x < width fb" using xy(1) by linarith
    moreover have "\<not> y + 16 < height fb" using xy(3) by linarith
    ultimately show "pix fb m x y = enc fb (rgb Black)" using m(3) xy(2) by simp
  qed
  then have "displays fb (w\<lparr>vram := m, row := height fb div 16 - 1\<rparr>) (t_scroll t)"
    using w dims rows by (simp add: displays_def t_scroll_def)
  with m(1,2) show ?thesis by force
qed

lemma displays_new_line:
  assumes sh: "displays fb w t" and fb: "fb_ok fb"
  shows "\<exists>w'. new_line w = Inr w' \<and> (\<forall>i\<ge>byte_len fb. vram w' i = vram w i) \<and> displays fb w' (t_new_line t)"
proof -
  let ?w = "w\<lparr>column := 0, row := row w + 1\<rparr>" and ?t = "t\<lparr>t_col := 0, t_row := t_row t + 1\<rparr>"
  have d: "dimensions ?w = Inr (t_cols t, t_rows t)"
    using sh by (simp add: dimensions_def displays_def glyph_width_def glyph_height_def)
  have g: "shows_grid fb (vram ?w) ?t" using sh by (simp add: displays_def shows_grid_def)
  show ?thesis
  proof (cases "t_row t + 1 \<ge> t_rows t")
    case True
    have "\<exists>w'. scroll ?w = Inr w' \<and> (\<forall>i\<ge>byte_len fb. vram w' i = vram ?w i) \<and> displays fb w' (t_scroll ?t)"
      using sh by (intro displays_scroll [OF _ _ _ _ _ _ _ g fb]) (simp_all add: displays_def)
    with True d sh show ?thesis
      by (simp add: new_line_def t_new_line_def Let_def) (simp add: displays_def)
  next
    case False
    then have "displays fb ?w ?t" using sh g by (simp add: displays_def)
    moreover have "t_new_line t = ?t" using False by (simp add: t_new_line_def Let_def)
    moreover have "new_line w = Inr ?w"
      using False d sh by (simp add: new_line_def Let_def) (simp add: displays_def)
    ultimately show ?thesis by auto
  qed
qed

lemma displays_backspace:
  assumes sh: "displays fb w t" and fb: "fb_ok fb"
  shows "\<exists>w'. vga_backspace w = Inr w' \<and> (\<forall>i\<ge>byte_len fb. vram w' i = vram w i) \<and> displays fb w' (t_backspace t)"
proof (cases "t_col t = 0")
  case True
  with sh show ?thesis by (auto simp: vga_backspace_def t_backspace_def displays_def)
next
  case False
  let ?w = "w\<lparr>column := t_col t - 1\<rparr>" and ?t = "t\<lparr>t_col := t_col t - 1\<rparr>"
  have "displays fb ?w ?t" using sh by (auto simp: displays_def shows_grid_def)
  moreover have "t_col t - 1 < max 1 (t_cols t)" using sh False by (auto simp: displays_def)
  ultimately obtain m where
    "draw_glyph 0x20 ((t_col t - 1) * 8) (t_row t * 16) ?w = Inr (?w\<lparr>vram := m\<rparr>)"
    "\<forall>i\<ge>byte_len fb. m i = vram w i" "displays fb (?w\<lparr>vram := m\<rparr>) (t_put (t_row t) (t_col t - 1) (0x20, t_fg t) ?t)"
    using displays_draw [of fb ?w ?t "t_col t - 1" "0x20"] fb by auto
  moreover have "column w = t_col t" "row w = t_row t" using sh by (simp_all add: displays_def)
  ultimately show ?thesis
    using False by (auto simp: vga_backspace_def t_backspace_def Let_def glyph_width_def glyph_height_def)
qed

lemma displays_char:
  assumes sh: "displays fb w t" and fb: "fb_ok fb"
  shows "\<exists>w'. put_glyph byte w = Inr w' \<and> (\<forall>i\<ge>byte_len fb. vram w' i = vram w i) \<and> displays fb w' (t_char byte t)"
proof -
  have d: "dimensions w = Inr (t_cols t, t_rows t)" "column w = t_col t"
    using sh by (simp_all add: dimensions_def displays_def glyph_width_def glyph_height_def)
  obtain w1 where w1: "(if t_col t \<ge> t_cols t then new_line w else Inr w) = Inr w1"
      "\<forall>i\<ge>byte_len fb. vram w1 i = vram w i"
      "displays fb w1 (if t_col t \<ge> t_cols t then t_new_line t else t)"
    using displays_new_line [OF sh fb] sh by (cases "t_col t \<ge> t_cols t") auto
  define t1 where "t1 = (if t_col t \<ge> t_cols t then t_new_line t else t)"
  note sh1 = w1(3) [folded t1_def]
  have dims: "t_rows t1 = t_rows t" "t_cols t1 = t_cols t"
    by (simp_all add: t1_def t_new_line_def t_scroll_def Let_def)
  have c1: "t_col t1 < max 1 (t_cols t1)"
    by (auto simp: t1_def t_new_line_def t_scroll_def Let_def)
  have pos: "column w1 = t_col t1" "row w1 = t_row t1" "\<not> row w1 \<ge> t_rows t"
    using sh1 dims by (simp_all add: displays_def)
  from displays_draw [OF sh1 fb c1, of byte] obtain m where
    m: "draw_glyph byte (t_col t1 * 8) (t_row t1 * 16) w1 = Inr (w1\<lparr>vram := m\<rparr>)"
      "\<forall>i\<ge>byte_len fb. m i = vram w1 i"
      "displays fb (w1\<lparr>vram := m\<rparr>) (t_put (t_row t1) (t_col t1) (byte, t_fg t1) t1)"
    by blast
  let ?w = "w1\<lparr>vram := m, column := t_col t1 + 1\<rparr>"
  have "put_glyph byte w = Inr ?w"
    using d w1(1) pos m(1) by (simp add: put_glyph_def glyph_width_def glyph_height_def)
  moreover have "displays fb ?w (t_char byte t)"
    using m(3) c1 unfolding t_char_def Let_def t1_def [symmetric]
    by (auto simp: displays_def t_put_def shows_grid_def)
  ultimately show ?thesis using m(2) w1(2) by auto
qed

subsection \<open>Runs of the console\<close>

datatype console_op = Print "u8 list" | Set_Foreground color | Clear

fun console_step :: "console_op \<Rightarrow> writer \<Rightarrow> writer res" where
  "console_step (Print s) w = write_string s w"
| "console_step (Set_Foreground c) w = Inr (set_colors c Black w)"
| "console_step Clear w = clear_screen w"

fun t_step :: "console_op \<Rightarrow> terminal \<Rightarrow> terminal" where
  "t_step (Print s) t = fold t_byte s t"
| "t_step (Set_Foreground c) t = t\<lparr>t_fg := c\<rparr>"
| "t_step Clear t = t_clear t"

definition t_start :: "frame_buffer_info \<Rightarrow> terminal" where
  "t_start fb = \<lparr>t_rows = height fb div 16, t_cols = width fb div 8, t_row = 0, t_col = 0, t_fg = White,
     grid = \<lambda>_ _. blank\<rparr>"

lemma displays_byte:
  assumes sh: "displays fb w t" and fb: "fb_ok fb"
  shows "\<exists>w'. (if (0x20 \<le> byte \<and> byte \<le> 0x7E) \<or> byte = 0x0A \<or> byte = 0x08 then write_byte byte else write_byte 0xFE) w
      = Inr w' \<and> (\<forall>i\<ge>byte_len fb. vram w' i = vram w i) \<and> displays fb w' (t_byte byte t)"
  using displays_new_line [OF assms] displays_backspace [OF assms] displays_char [OF assms]
  by (auto simp: write_byte_def t_byte_def)

lemma displays_string:
  assumes "displays fb w t" "fb_ok fb"
  shows "\<exists>w'. write_string s w = Inr w' \<and> (\<forall>i\<ge>byte_len fb. vram w' i = vram w i) \<and> displays fb w' (fold t_byte s t)"
  using assms(1)
proof (induction s arbitrary: w t)
  case Nil
  then show ?case by (simp add: write_string_def)
next
  case (Cons b s)
  from displays_byte [OF Cons.prems assms(2), of b] obtain w1 where
    w1: "(if (0x20 \<le> b \<and> b \<le> 0x7E) \<or> b = 0x0A \<or> b = 0x08 then write_byte b else write_byte 0xFE) w = Inr w1"
      "\<forall>i\<ge>byte_len fb. vram w1 i = vram w i" "displays fb w1 (t_byte b t)"
    by blast
  from Cons.IH [OF w1(3)] w1 show ?case by (auto simp: write_string_def)
qed

lemma displays_clear:
  assumes "w_framebuffer w = Some fb" "fb_ok fb" "background w = Black"
    "t_rows t = height fb div 16" "t_cols t = width fb div 8" "t_fg t = foreground w"
  shows "\<exists>w'. clear_screen w = Inr w' \<and> (\<forall>i\<ge>byte_len fb. vram w' i = vram w i) \<and> displays fb w' (t_clear t)"
proof -
  from clear_screen_pixels [OF assms(1) fb_ok_sane [OF assms(2)]] obtain m where
    m: "clear_screen w = Inr (w\<lparr>vram := m, column := 0, row := 0\<rparr>)" "\<forall>i\<ge>byte_len fb. m i = vram w i"
      "\<forall>x<width fb. \<forall>y<height fb. pix fb m x y = enc fb (rgb Black)"
    unfolding assms(3) by blast
  have "shows_grid fb m (t_clear t)"
    unfolding shows_grid_def
  proof (intro conjI allI impI)
    fix r c gx gy :: nat
    assume "r < t_rows (t_clear t)" "c < t_cols (t_clear t)" "gx < 8" "gy < 16"
    then show "pix fb m (c * 8 + gx) (r * 16 + gy) =
        enc fb (glyph_colour (snd (grid (t_clear t) r c)) Black (fst (grid (t_clear t) r c)) gx gy)"
      using m(3) cell_bounds [of r fb c gx gy] assms(4,5) by (simp add: t_clear_def blank_def space_dark)
  next
    fix x y
    assume "x < t_cols (t_clear t) * 8" "y < height fb"
    moreover from this have "x < width fb" using assms(5) by (simp add: t_clear_def)
    ultimately show "pix fb m x y = enc fb (rgb Black)" using m(3) by simp
  qed
  moreover have "0 < height fb div 16"
    using assms(2) by (simp add: fb_ok_def less_eq_div_iff_mult_less_eq Suc_le_eq [symmetric])
  ultimately have "displays fb (w\<lparr>vram := m, column := 0, row := 0\<rparr>) (t_clear t)"
    using assms by (simp add: displays_def t_clear_def)
  with m(1,2) show ?thesis by force
qed

lemma displays_step:
  assumes "displays fb w t" "fb_ok fb"
  shows "\<exists>w'. console_step op w = Inr w' \<and> (\<forall>i\<ge>byte_len fb. vram w' i = vram w i) \<and> displays fb w' (t_step op t)"
proof (cases op)
  case (Print s)
  with displays_string [OF assms] show ?thesis by simp
next
  case (Set_Foreground c)
  with assms(1) show ?thesis by (auto simp: set_colors_def displays_def shows_grid_def)
next
  case Clear
  with assms displays_clear [of w fb t] show ?thesis by (simp add: displays_def)
qed

lemma displays_run:
  assumes "displays fb w t" "fb_ok fb"
  shows "\<exists>w'. fold_res console_step ops w = Inr w' \<and> (\<forall>i\<ge>byte_len fb. vram w' i = vram w i)
    \<and> displays fb w' (fold t_step ops t)"
  using assms(1)
proof (induction ops arbitrary: w t)
  case Nil
  then show ?case by simp
next
  case (Cons op ops)
  from displays_step [OF Cons.prems assms(2), of op] obtain w1 where
    w1: "console_step op w = Inr w1" "\<forall>i\<ge>byte_len fb. vram w1 i = vram w i" "displays fb w1 (t_step op t)"
    by blast
  from Cons.IH [OF w1(3)] w1 show ?case by auto
qed

lemma displays_init:
  assumes "address fb \<noteq> 0" "fb_ok fb" "stride fb * height fb * 4 < usize_bound"
  shows "\<exists>w'. vga_init fb (new_writer mem) = Inr w' \<and> (\<forall>i\<ge>byte_len fb. vram w' i = mem i)
    \<and> displays fb w' (t_start fb)"
proof -
  let ?w = "(new_writer mem)\<lparr>w_framebuffer := Some fb\<rparr>"
  have "mul_usize (stride fb) (height fb) = Inr (stride fb * height fb)"
    "mul_usize (stride fb * height fb) 4 = Inr (stride fb * height fb * 4)"
    using assms(3) by (simp_all add: mul_usize_Inr_iff)
  moreover have "\<not> byte_len fb < stride fb * height fb * 4"
    using assms(2) by (simp add: fb_ok_def fb_sane_def)
  ultimately have init: "vga_init fb (new_writer mem) = clear_screen ?w"
    using assms(1) by (simp add: vga_init_def)
  have "t_clear (t_start fb) = t_start fb" by (simp add: t_clear_def t_start_def)
  with displays_clear [of ?w fb "t_start fb"] assms(2) init show ?thesis
    by (simp add: new_writer_def t_start_def)
qed

subsection \<open>The glyphs differ\<close>

lemma and_shifted:
  fixes v :: u8
  assumes "gx < 8"
  shows "and v (drop_bit gx 0x80) \<noteq> 0 \<longleftrightarrow> bit v (7 - gx)"
proof -
  have "gx = 0 \<or> gx = 1 \<or> gx = 2 \<or> gx = 3 \<or> gx = 4 \<or> gx = 5 \<or> gx = 6 \<or> gx = 7"
    using assms by arith
  then have "drop_bit gx 0x80 = (2 :: u8) ^ (7 - gx)" by (elim disjE) simp_all
  then show ?thesis by (simp add: and_exp_eq_0_iff_not_bit)
qed

lemma glyph_of_printable:
  assumes "0x20 \<le> b" "b \<le> 0x7E"
  obtains rows where "map_of glyph_rows (unat b) = Some rows" "length rows = 16"
    "\<And>gx gy. gx < 8 \<Longrightarrow> gy < 16 \<Longrightarrow> glyph_bit b gx gy \<longleftrightarrow> bit (rows ! gy) (7 - gx)"
proof -
  have n: "32 \<le> unat b" "unat b < 127" using assms by (simp_all add: word_le_nat_alt)
  then have "unat b \<in> set (map fst glyph_rows)"
    by (simp only: glyph_rows_codes set_append set_upt Un_iff atLeastLessThan_iff simp_thms)
  then obtain rows where r: "map_of glyph_rows (unat b) = Some rows"
    by (cases "map_of glyph_rows (unat b)") (auto simp: map_of_eq_None_iff)
  moreover have "length rows = 16"
    using map_of_SomeD [OF r] glyph_rows_length by (auto simp: list_all_iff)
  moreover have "glyph_bit b gx gy \<longleftrightarrow> bit (rows ! gy) (7 - gx)" if "gx < 8" "gy < 16" for gx gy
    using that n r font_row [of "unat b" gy] by (simp add: glyph_bit_def and_shifted)
  ultimately show ?thesis using that by blast
qed

lemma glyph_bits_differ:
  assumes "0x20 \<le> b" "b \<le> 0x7E" "0x20 \<le> c" "c \<le> 0x7E" "b \<noteq> c"
  shows "\<exists>gx<8. \<exists>gy<16. glyph_bit b gx gy \<noteq> glyph_bit c gx gy"
proof -
  obtain rb where rb: "map_of glyph_rows (unat b) = Some rb" "length rb = 16"
    "\<And>gx gy. gx < 8 \<Longrightarrow> gy < 16 \<Longrightarrow> glyph_bit b gx gy \<longleftrightarrow> bit (rb ! gy) (7 - gx)"
    using glyph_of_printable [OF assms(1,2)] by metis
  obtain rc where rc: "map_of glyph_rows (unat c) = Some rc" "length rc = 16"
    "\<And>gx gy. gx < 8 \<Longrightarrow> gy < 16 \<Longrightarrow> glyph_bit c gx gy \<longleftrightarrow> bit (rc ! gy) (7 - gx)"
    using glyph_of_printable [OF assms(3,4)] by metis
  have "rb \<noteq> rc"
  proof
    assume "rb = rc"
    with map_of_SomeD [OF rb(1)] map_of_SomeD [OF rc(1)] glyphs_distinct have "unat b = unat c"
      unfolding distinct_map inj_on_def by (metis prod.inject snd_conv)
    with assms(5) show False by (simp add: word_unat_eq_iff)
  qed
  then obtain gy where gy: "gy < 16" "rb ! gy \<noteq> rc ! gy" using rb(2) rc(2) by (metis nth_equalityI)
  then obtain n where n: "n < 8" "bit (rb ! gy) n \<noteq> bit (rc ! gy) n"
    using bit_word_eqI [of "rb ! gy" "rc ! gy"] by auto
  have "7 - (7 - n) = n" using n(1) by simp
  then have "glyph_bit b (7 - n) gy \<noteq> glyph_bit c (7 - n) gy"
    using rb(3) [of "7 - n" gy] rc(3) [of "7 - n" gy] gy(1) n by simp
  moreover have "7 - n < 8" by simp
  ultimately show ?thesis using gy(1) by blast
qed

lemma space_unset: "gx < 8 \<Longrightarrow> gy < 16 \<Longrightarrow> \<not> glyph_bit 0x20 gx gy"
  using font_row [of 32 gy] by (simp add: glyph_bit_def space_blank)

subsection \<open>Screens that are too low or too wide\<close>

lemma low_scroll:
  assumes "w_framebuffer w = Some fb" "fb_sane fb" "height fb < 16"
  shows "scroll w = Inl (Panic ''attempt to subtract with overflow'')"
proof -
  let ?w = "w\<lparr>vram := copy_up (byte_len fb - 16 * (stride fb * 4)) (16 * (stride fb * 4)) (vram w)\<rparr>"
  obtain m where "fill_rows (height fb - 16) (height fb) (width fb) ?w = Inr (?w\<lparr>vram := m\<rparr>)"
    using fill_rows_pixels [of ?w, OF _ assms(2), of "height fb - 16" "height fb"] assms(1) by auto
  then show ?thesis
    using assms(1,3) by (simp add: scroll_def Let_def glyph_height_def sub_usize_def)
qed

lemma low_new_line:
  assumes "w_framebuffer w = Some fb" "fb_sane fb" "height fb < 16"
  shows "new_line w = Inl (Panic ''attempt to subtract with overflow'')"
  using low_scroll [of "w\<lparr>column := 0, row := row w + 1\<rparr>", OF _ assms(2,3)] assms(1,3)
  by (simp add: new_line_def dimensions_def glyph_height_def Let_def)

lemma low_put_glyph:
  assumes "w_framebuffer w = Some fb" "fb_sane fb" "height fb < 16"
  shows "put_glyph b w = Inl (Panic ''attempt to subtract with overflow'')"
  using low_scroll [OF assms] low_new_line [OF assms] assms(1,3)
  by (simp add: put_glyph_def dimensions_def glyph_height_def glyph_width_def)

lemma writes_in_bounds:
  assumes "w_framebuffer w = Some fb" "fold_res (\<lambda>p. write_pixel (X p) (Y p) (C p)) ps w = Inr w'"
    "p \<in> set ps" "X p < width fb" "Y p < height fb"
  shows "pixel_offset fb (X p) (Y p) + 3 < byte_len fb"
  using assms
proof (induction ps arbitrary: w)
  case Nil
  then show ?case by simp
next
  case (Cons q ps)
  from Cons.prems(2) obtain w1 where w1: "write_pixel (X q) (Y q) (C q) w = Inr w1"
    and rest: "fold_res (\<lambda>p. write_pixel (X p) (Y p) (C p)) ps w1 = Inr w'"
    by (auto simp: bind_res_eq_Inr)
  have "w_framebuffer w1 = Some fb"
    using w1 Cons.prems(1) by (auto simp: write_pixel_def Let_def split: if_splits prod.splits)
  moreover have "pixel_offset fb (X p) (Y p) + 3 < byte_len fb" if "p = q"
    using w1 Cons.prems(1,4,5) that
    by (auto simp: write_pixel_def pixel_offset_def Let_def split: if_splits prod.splits)
  ultimately show ?case using Cons.IH [OF _ rest] Cons.prems(3-5) by auto
qed

lemma pixel_panics_wild:
  assumes "w_framebuffer w = Some fb" "fold_res (\<lambda>p. write_pixel (X p) (Y p) (C p)) ps w = Inl e"
  shows "\<exists>i. e = Wild_Access i"
  using assms
proof (induction ps arbitrary: w)
  case Nil
  then show ?case by simp
next
  case (Cons q ps)
  show ?case
  proof (cases "write_pixel (X q) (Y q) (C q) w")
    case (Inl e')
    with Cons.prems show ?thesis by (auto simp: write_pixel_def Let_def split: if_splits prod.splits)
  next
    case (Inr w1)
    then have "w_framebuffer w1 = Some fb"
      using Cons.prems(1) by (auto simp: write_pixel_def Let_def split: if_splits prod.splits)
    with Cons Inr show ?thesis by simp
  qed
qed

subsection \<open>Properties\<close>

text \<open>C18. The console is a text terminal: on a consistent framebuffer at least one character high,
  initialising and then any printing, colour changes and clearing never panic and never
  touch memory past the framebuffer, and every pixel of every cell shows the character the
  terminal's grid has there, in its colour, with wrapping, scrolling, newlines and
  backspaces as on the grid.\<close>

theorem console_is_terminal:
  assumes "address fb \<noteq> 0" "fb_ok fb" "stride fb * height fb * 4 < usize_bound"
  shows "\<exists>w. bind_res (vga_init fb (new_writer mem)) (fold_res console_step ops) = Inr w
    \<and> (\<forall>i\<ge>byte_len fb. vram w i = mem i) \<and> displays fb w (fold t_step ops (t_start fb))"
proof -
  obtain w0 where w0: "vga_init fb (new_writer mem) = Inr w0" "\<forall>i\<ge>byte_len fb. vram w0 i = mem i"
      "displays fb w0 (t_start fb)"
    using displays_init [OF assms] by blast
  from displays_run [OF w0(3) assms(2), of ops] w0 show ?thesis by auto
qed

theorem console_is_terminal_witness:
  "\<exists>w. bind_res (vga_init \<lparr>address = 0x80000000, byte_len = 2048, width = 16, height = 32, stride = 16,
        pixel_format = Bgr\<rparr> (new_writer (\<lambda>_. 0))) (fold_res console_step [Set_Foreground Amber, Print [0x68, 0x0A, 0x69]])
      = Inr w \<and> pix \<lparr>address = 0x80000000, byte_len = 2048, width = 16, height = 32, stride = 16,
        pixel_format = Bgr\<rparr> (vram w) 0 2 = (0, 170, 255, 0)"
proof -
  let ?fb = "\<lparr>address = 0x80000000, byte_len = 2048, width = 16, height = 32, stride = 16, pixel_format = Bgr\<rparr>"
  let ?ops = "[Set_Foreground Amber, Print [0x68, 0x0A, 0x69]]"
  have "address ?fb \<noteq> 0" "fb_ok ?fb" "stride ?fb * height ?fb * 4 < usize_bound"
    by (simp_all add: fb_ok_def fb_sane_def usize_bound_def)
  from console_is_terminal [OF this, of "\<lambda>_. 0" ?ops] obtain w where
    w: "bind_res (vga_init ?fb (new_writer (\<lambda>_. 0))) (fold_res console_step ?ops) = Inr w"
      "displays ?fb w (fold t_step ?ops (t_start ?fb))"
    by blast
  have "fold t_step ?ops (t_start ?fb) = t_put 1 0 (0x69, Amber) (t_put 0 0 (0x68, Amber) (t_start ?fb))
      \<lparr>t_row := 1, t_col := 1, t_fg := Amber\<rparr>"
    by (simp add: t_start_def t_byte_def t_char_def t_put_def t_new_line_def Let_def)
  then have "grid (fold t_step ?ops (t_start ?fb)) 0 0 = (0x68, Amber)"
      "t_rows (fold t_step ?ops (t_start ?fb)) = 2" "t_cols (fold t_step ?ops (t_start ?fb)) = 2"
    by (simp_all add: t_put_def t_start_def)
  with w(2) have "pix ?fb (vram w) (0 * 8 + 0) (0 * 16 + 2) = enc ?fb (glyph_colour Amber Black 0x68 0 2)"
    unfolding displays_def shows_grid_def by (metis fst_conv snd_conv zero_less_numeral numeral_less_iff semiring_norm(76,78) less_numeral_extra(1))
  then have "pix ?fb (vram w) 0 2 = enc ?fb (glyph_colour Amber Black 0x68 0 2)"
    by (simp only: mult_0 add_0)
  moreover have "vga_font_8x16 ! (104 * 16 + 2) = 0xE0"
    using font_row [of 104 2] by (simp add: glyph_rows_def)
  then have "glyph_colour Amber Black 0x68 0 2 = rgb Amber"
    by (simp add: glyph_colour_def glyph_bit_def)
  moreover have "enc ?fb (rgb Amber) = (0, 170, 255, 0)" by (simp add: enc_def pixel_bytes_def)
  ultimately have "pix ?fb (vram w) 0 2 = (0, 170, 255, 0)" by (simp only:)
  with w(1) show ?thesis by blast
qed



text \<open>The screen is readable: two different printable characters differ in some pixel of their
  glyphs whenever the two colours differ, and the space is the only blank one.\<close>

theorem glyphs_readable:
  assumes "0x20 \<le> b" "b \<le> 0x7E" "0x20 \<le> c" "c \<le> 0x7E" "b \<noteq> c" "fg \<noteq> bg"
  shows "(\<exists>gx<8. \<exists>gy<16. glyph_colour fg bg b gx gy \<noteq> glyph_colour fg bg c gx gy)
    \<and> ((\<exists>gx<8. \<exists>gy<16. glyph_bit b gx gy) \<longleftrightarrow> b \<noteq> 0x20)"
proof -
  obtain gx gy where g: "gx < 8" "gy < 16" "glyph_bit b gx gy \<noteq> glyph_bit c gx gy"
    using glyph_bits_differ [OF assms(1-5)] by blast
  then have "glyph_colour fg bg b gx gy \<noteq> glyph_colour fg bg c gx gy"
    using assms(6) rgb_inj [of fg bg] by (auto simp: glyph_colour_def)
  moreover have "(\<exists>gx<8. \<exists>gy<16. glyph_bit b gx gy) \<longleftrightarrow> b \<noteq> 0x20"
  proof
    assume "\<exists>gx<8. \<exists>gy<16. glyph_bit b gx gy"
    then show "b \<noteq> 0x20" using space_unset by blast
  next
    assume "b \<noteq> 0x20"
    from glyph_bits_differ [OF assms(1,2) _ _ this] show "\<exists>gx<8. \<exists>gy<16. glyph_bit b gx gy"
      using space_unset by auto
  qed
  ultimately show ?thesis using g(1,2) by blast
qed

theorem glyphs_readable_witness:
  "\<exists>gx<8. \<exists>gy<16. glyph_colour Amber Black 0x6C gx gy \<noteq> glyph_colour Amber Black 0x31 gx gy"
  using glyphs_readable [of "0x6C" "0x31" Amber Black] by simp

end
