(* ===== verification/Display.thy ===== *)
theory Display
  imports Shell_Facts Vga
begin

text \<open>
  What the kernel prints, on the screen. \<^verbatim>\<open>_print\<close> of \<^verbatim>\<open>vga_buffer.rs\<close> hands every text to the
  writer; here the \<open>out\<close> values of the shell and of the interrupt handlers are drawn by the
  writer of theory Vga, and the text terminal says what is then seen. A printed text reaches
  the writer in several pieces, drawn one after the other, so drawing the whole text is the
  same.
\<close>

fun draw :: "out \<Rightarrow> writer \<Rightarrow> writer res" where
  "draw (Screen s) w = write_string (map of_char s) w"
| "draw (Set_Colors fg bg) w = Inr (set_colors fg bg w)"
| "draw Clear_Screen w = clear_screen w"
| "draw _ w = Inr w"

fun t_out :: "out \<Rightarrow> terminal \<Rightarrow> terminal" where
  "t_out (Screen s) t = fold t_byte (map of_char s) t"
| "t_out (Set_Colors fg bg) t = t\<lparr>t_fg := fg\<rparr>"
| "t_out Clear_Screen t = t_clear t"
| "t_out _ t = t"

text \<open>The kernel never changes the background.\<close>

definition dark :: "out list \<Rightarrow> bool" where
  "dark os = (\<forall>fg bg. Set_Colors fg bg \<in> set os \<longrightarrow> bg = Black)"

lemma dark_simps [simp]:
  "dark []" "dark (Screen s # os) = dark os" "dark (Serial s # os) = dark os"
  "dark (Clear_Screen # os) = dark os" "dark (Set_Colors fg bg # os) \<longleftrightarrow> bg = Black \<and> dark os"
  "dark (Port_Write_U8 a b # os) = dark os" "dark (Port_Write_U16 c d # os) = dark os"
  "dark (End_Of_Interrupt v # os) = dark os"
  "dark (xs @ ys) \<longleftrightarrow> dark xs \<and> dark ys"
  by (auto simp: dark_def)

lemma dark_both [simp]: "dark (both s)" "dark (both_ln s)"
  by (simp_all add: both_def both_ln_def)

lemma dark_lines: "(\<And>x. x \<in> set xs \<Longrightarrow> dark (f x)) \<Longrightarrow> dark (concat (map f xs))"
  by (auto simp: dark_def)

lemma draw_displays:
  assumes "displays fb w t" "fb_ok fb" "dark [out]"
  shows "\<exists>w'. draw out w = Inr w' \<and> (\<forall>i\<ge>byte_len fb. vram w' i = vram w i) \<and> displays fb w' (t_out out t)"
proof (cases out)
  case (Screen s)
  with displays_step [OF assms(1,2), of "Print (map of_char s)"] show ?thesis by simp
next
  case (Set_Colors fg bg)
  with assms(3) displays_step [OF assms(1,2), of "Set_Foreground fg"] show ?thesis by simp
next
  case Clear_Screen
  with displays_step [OF assms(1,2), of Clear] show ?thesis by simp
qed (use assms(1) in auto)

lemma draw_all_displays:
  assumes "displays fb w t" "fb_ok fb" "dark os"
  shows "\<exists>w'. fold_res draw os w = Inr w' \<and> (\<forall>i\<ge>byte_len fb. vram w' i = vram w i)
    \<and> displays fb w' (fold t_out os t)"
  using assms(1,3)
proof (induction os arbitrary: w t)
  case Nil
  then show ?case by simp
next
  case (Cons out os)
  have "dark [out]" "dark os" using Cons.prems(2) by (auto simp: dark_def)
  from draw_displays [OF Cons.prems(1) assms(2) this(1)] obtain w1 where
    w1: "draw out w = Inr w1" "\<forall>i\<ge>byte_len fb. vram w1 i = vram w i" "displays fb w1 (t_out out t)"
    by blast
  from Cons.IH [OF w1(3) \<open>dark os\<close>] w1 show ?case by auto
qed

subsection \<open>The background of what the kernel prints\<close>

lemma dark_listings [simp]:
  "dark (print_drivers mgr)" "dark (print_ifconfig st)" "dark print_netstat"
  "dark (print_vmap vu fs mm)" "dark (list_directory_cmd v path)" "dark (print_tree v)" "dark (ps_row t)"
  by (auto simp: print_drivers_def print_ifconfig_def print_netstat_def print_vmap_def Let_def split_beta
      list_directory_cmd_def print_tree_def ps_row_def intro!: dark_lines split: option.split)

lemma ping_dark: "ping st target = Inr (os, st') \<Longrightarrow> dark os"
  unfolding ping_def ping_reply_def Let_def
  by (auto simp: bind_res_eq_Inr intro!: dark_lines split: if_splits)

lemma file_command_dark: "dark (fst (file_command c args fs))"
  by (simp add: file_command_def cd_command_def split_beta Let_def)

lemma system_command_dark: "system_command e c k = Some os \<Longrightarrow> dark os"
  by (simp add: system_command_def heap_stats_def Let_def split: if_split_asm) auto

lemma listing_command_dark: "listing_command e c args k = Some os \<Longrightarrow> dark os"
  by (simp add: listing_command_def Let_def split: if_split_asm) auto

lemma console_command_dark: "console_command e c args k = Some os \<Longrightarrow> dark os"
  by (simp add: console_command_def Let_def split_beta split: if_split_asm) (auto intro!: dark_lines)

lemma power_command_dark: "power_command c = Some os \<Longrightarrow> dark os"
  by (auto simp: power_command_def split: if_split_asm)

lemma command_dark:
  assumes "handle_command e cmd k = Inr (os, k')"
  shows "dark os"
  using assms
proof (cases rule: handle_command_outcome)
  case info
  then show ?thesis
    using system_command_dark listing_command_dark console_command_dark power_command_dark
    by (auto simp: info_command_def split: option.splits)
next
  case (files fs)
  then show ?thesis by (metis file_command_dark fst_conv)
next
  case other
  then show ?thesis
  proof (cases rule: other_command_outcome)
    case prompt
    then show ?thesis by (auto simp: prompt_command_def Let_def split: if_splits)
  next
    case spawn
    then show ?thesis by (simp add: spawn_command_def split_beta Let_def)
  next
    case kill
    then show ?thesis by (auto simp: kill_command_def split_beta Let_def split: option.splits)
  next
    case ping
    then show ?thesis by (auto simp: ping_command_def bind_res_eq_Inr ping_dark)
  qed simp
qed

lemma run_line_dark: "run_line e k = Inr (os, k') \<Longrightarrow> dark os"
  by (auto simp: run_line_def split_beta Let_def bind_res_eq_Inr print_prompt_def command_dark split: option.splits)

lemma key_event_dark: "dark (fst (handle_key_event event b))"
  by (simp add: handle_key_event_def split_beta split: key_event.split)

lemma key_bytes_dark: "dark (fst (serial_byte x b))" "dark (fst (keyboard_byte x b))"
  by (simp_all add: serial_byte_def keyboard_byte_def on_event_def key_event_dark split: option.split)

subsection \<open>Properties\<close>

text \<open>What the shell says is seen: on a framebuffer the console was set up on, everything a round
  of the shell prints, and the echo of every byte typed, is drawn without a panic and without
  touching memory past the framebuffer, and the screen then shows the text terminal after
  that output.\<close>

theorem shell_on_screen:
  assumes "displays fb w t" "fb_ok fb"
    and "run_line e k = Inr (os, k') \<or> os = fst (keyboard_byte x b) \<or> os = fst (serial_byte x b)"
  shows "\<exists>w'. fold_res draw os w = Inr w' \<and> (\<forall>i\<ge>byte_len fb. vram w' i = vram w i)
    \<and> displays fb w' (fold t_out os t)"
proof -
  have "dark os" using assms(3) run_line_dark key_bytes_dark by metis
  from draw_all_displays [OF assms(1,2) this] show ?thesis .
qed

theorem shell_on_screen_witness:
  "\<exists>w w'. vga_init \<lparr>address = 0x80000000, byte_len = 2048, width = 16, height = 32, stride = 16,
        pixel_format = Bgr\<rparr> (new_writer (\<lambda>_. 0)) = Inr w
     \<and> fold_res draw (fst (keyboard_byte 0x1E new_input)) w = Inr w'
     \<and> displays \<lparr>address = 0x80000000, byte_len = 2048, width = 16, height = 32, stride = 16,
        pixel_format = Bgr\<rparr> w' (fold t_out (both ''a'')
          (t_start \<lparr>address = 0x80000000, byte_len = 2048, width = 16, height = 32, stride = 16,
             pixel_format = Bgr\<rparr>))"
proof -
  let ?fb = "\<lparr>address = 0x80000000, byte_len = 2048, width = 16, height = 32, stride = 16, pixel_format = Bgr\<rparr>"
  have fb: "address ?fb \<noteq> 0" "fb_ok ?fb" "stride ?fb * height ?fb * 4 < usize_bound"
    by (simp_all add: fb_ok_def fb_sane_def usize_bound_def)
  from displays_init [OF this, of "\<lambda>_. 0"] obtain w where
    w: "vga_init ?fb (new_writer (\<lambda>_. 0)) = Inr w" "displays ?fb w (t_start ?fb)" by blast
  have "fst (keyboard_byte 0x1E new_input) = both ''a''"
    by (simp add: keyboard_byte_def on_event_def scancode_to_event_def handle_key_event_def char_of_u8_def char_of_def
        bit_iff_odd)
  with w shell_on_screen [OF w(2) fb(2), where os = "fst (keyboard_byte 0x1E new_input)"] show ?thesis by metis
qed

end
