(* ===== verification/Transcript.thy ===== *)
theory Transcript
  imports Shell_Files Display "HOL-Library.Sublist"
begin

text \<open>
  From the keys to the effect and to the screen, over whole runs of the kernel. A line editor that only looks at the
  keys says which lines were entered; the shell takes these, in order, and the files follow
  them. What the run sends out is seen on the screen.
\<close>

subsection \<open>The lines the keys say\<close>

fun decoded :: "typed_byte \<Rightarrow> key_event option" where
  "decoded (Key_Byte x) = scancode_to_event x"
| "decoded (Serial_Byte x) = serial_byte_to_event x"

text \<open>The pending line and the lines entered, after a key.\<close>

fun edit :: "key_event \<Rightarrow> string \<times> string list \<Rightarrow> string \<times> string list" where
  "edit (Char c) (pending, entered) = (if length pending < max_line_len then pending @ [c] else pending, entered)"
| "edit Backspace (pending, entered) = (butlast pending, entered)"
| "edit Enter (pending, entered) = ([], entered @ [pending])"

definition type_byte :: "typed_byte \<Rightarrow> string \<times> string list \<Rightarrow> string \<times> string list" where
  "type_byte x s = (case decoded x of Some e \<Rightarrow> edit e s | None \<Rightarrow> s)"

definition entered_lines :: "typed_byte list \<Rightarrow> string list" where
  "entered_lines ins = snd (fold type_byte ins ([], []))"

text \<open>The line editor against it: the line is the pending one, and a suffix of the entered lines
  waits in the queue; the others went to the shell or were dropped.\<close>

lemma key_event_edit:
  "line (snd (handle_key_event e b)) = fst (edit e (line b, ls))"
  by (cases e) (simp_all add: handle_key_event_def push_char_def backspace_def commit_line_def split_beta Let_def)

lemma key_event_ready:
  "ready_lines (snd (handle_key_event e b)) =
     (if e = Enter then push_ready (line b) (ready_lines b) else ready_lines b)"
  by (cases e) (simp_all add: handle_key_event_def push_char_def backspace_def commit_line_def split_beta Let_def)

lemma edit_entered: "snd (edit e (pending, ls)) = (if e = Enter then ls @ [pending] else ls)"
  by (cases e) simp_all

lemma push_ready_subseq:
  "subseq (xs @ q) ls \<Longrightarrow> subseq (xs @ push_ready l q) (ls @ [l])"
proof -
  assume h: "subseq (xs @ q) ls"
  have "subseq (xs @ (if max_queue_depth \<le> length q then tl q else q)) (xs @ q)"
    by (cases q) (auto intro: list_emb_append_mono)
  with h have "subseq (xs @ (if max_queue_depth \<le> length q then tl q else q)) ls" by (rule subseq_order.trans [rotated])
  then have "subseq ((xs @ (if max_queue_depth \<le> length q then tl q else q)) @ [l]) (ls @ [l])"
    by (intro list_emb_append_mono) auto
  then show ?thesis by (simp add: push_ready_def)
qed

definition tracks :: "machine \<Rightarrow> string list \<Rightarrow> string \<times> string list \<Rightarrow> bool" where
  "tracks m xs s \<longleftrightarrow>
     line (k_input (kern m)) = fst s \<and> subseq (xs @ ready_lines (k_input (kern m))) (snd s)
     \<and> (length (snd s) \<le> max_queue_depth \<longrightarrow> xs @ ready_lines (k_input (kern m)) = snd s)"

lemma tracks_frame:
  "tracks m xs s \<Longrightarrow> line (k_input (kern m')) = line (k_input (kern m)) \<Longrightarrow>
     ys @ ready_lines (k_input (kern m')) = xs @ ready_lines (k_input (kern m)) \<Longrightarrow> tracks m' ys s"
  by (simp add: tracks_def)

lemma tracks_key:
  assumes "tracks m xs (line (k_input (kern m)), ls)"
    and "k_input (kern m') = snd (handle_key_event e (k_input (kern m)))"
  shows "tracks m' xs (edit e (line (k_input (kern m)), ls))"
proof (cases "e = Enter")
  case True
  let ?b = "k_input (kern m)"
  have "xs @ push_ready (line ?b) (ready_lines ?b) = ls @ [line ?b]" if "length ls < max_queue_depth"
  proof -
    have "xs @ ready_lines ?b = ls" using assms(1) that by (simp add: tracks_def)
    moreover from this have "length (ready_lines ?b) < max_queue_depth" using that by auto
    ultimately show ?thesis by (auto simp: push_ready_def)
  qed
  with push_ready_subseq assms True show ?thesis
    by (auto simp: tracks_def key_event_ready key_event_edit [where ls = ls])
next
  case False
  with assms show ?thesis
    by (auto simp: tracks_def key_event_ready edit_entered key_event_edit [where ls = ls])
qed

lemma tracks_byte:
  assumes "tracks m xs s" "k_input (kern m') = snd (on_event decode handle_key_event x (k_input (kern m)))"
    and "decoded b = decode x"
  shows "tracks m' xs (type_byte b s)"
proof (cases "decode x")
  case None
  then show ?thesis using assms by (simp add: on_event_def type_byte_def tracks_def)
next
  case (Some e)
  obtain ls where s: "s = (line (k_input (kern m)), ls)" using assms(1) by (cases s) (simp add: tracks_def)
  from assms(2) Some have "k_input (kern m') = snd (handle_key_event e (k_input (kern m)))"
    by (simp add: on_event_def)
  from tracks_key [OF assms(1) [unfolded s] this] show ?thesis
    using assms(3) Some s by (simp add: type_byte_def)
qed

lemma io_tracks:
  assumes "kernel_io E m i os m1" "tracks m xs s"
  shows "tracks m1 (xs @ lines_run (observed m m1)) (fold type_byte i s)"
  using assms(1)
proof cases
  case (io_keyboard x b)
  have "observed m m1 = []" using io_keyboard by (auto simp: observed_def split: cpu_state.split)
  moreover have "k_input (kern m1) = snd (on_event scancode_to_event handle_key_event x (k_input (kern m)))"
    using io_keyboard by (simp add: keyboard_byte_def [symmetric])
  ultimately show ?thesis using tracks_byte [OF assms(2), of m1 scancode_to_event x "Key_Byte x"] io_keyboard by simp
next
  case (io_serial x b)
  have "observed m m1 = []" using io_serial by (auto simp: observed_def split: cpu_state.split)
  moreover have "k_input (kern m1) = snd (on_event serial_byte_to_event handle_key_event x (k_input (kern m)))"
    using io_serial by (simp add: serial_byte_def [symmetric])
  ultimately show ?thesis using tracks_byte [OF assms(2), of m1 serial_byte_to_event x "Serial_Byte x"] io_serial by simp
next
  case (io_line idx ctx e k)
  have obs: "lines_run (observed m m1) = take 1 (ready_lines (k_input (kern m)))"
    using io_line by (simp add: observed_def)
  from io_line(5) have "line (k_input k) = line (k_input (kern m))
      \<and> take 1 (ready_lines (k_input (kern m))) @ ready_lines (k_input k) = ready_lines (k_input (kern m))"
  proof (cases rule: run_line_Inr)
    case (command l q os')
    with command_frame [OF command(2)] show ?thesis by simp
  qed simp
  then have "tracks m1 (xs @ take 1 (ready_lines (k_input (kern m)))) s"
    using io_line by (intro tracks_frame [OF assms(2)]) simp_all
  then show ?thesis using io_line(1) by (simp only: obs fold_simps)
qed (use assms(2) in \<open>auto simp: observed_def tracks_def split: cpu_state.split\<close>)

lemma talk_tracks:
  "kernel_talk E m ins os es m' \<Longrightarrow> tracks m xs s \<Longrightarrow> tracks m' (xs @ lines_run es) (fold type_byte ins s)"
proof (induction arbitrary: xs s rule: kernel_talk.induct)
  case (talk_go m i os m1 ins outs es m')
  from talk_go.IH [OF io_tracks [OF talk_go.hyps(1) talk_go.prems]] show ?case by simp
qed simp

subsection \<open>What a run shows\<close>

lemma key_byte_dark:
  "keyboard_byte x b = (os, b') \<Longrightarrow> dark os" "serial_byte x b = (os, b') \<Longrightarrow> dark os"
  by (metis key_bytes_dark fst_conv)+

lemma kernel_io_dark: "kernel_io E m i os m' \<Longrightarrow> dark os"
  by (erule kernel_io.cases) (auto simp: timer_handler_def intro: run_line_dark dest: key_byte_dark)

lemma talk_dark: "kernel_talk E m ins os es m' \<Longrightarrow> dark os"
  by (induction rule: kernel_talk.induct) (auto intro: kernel_io_dark)

lemma talk_on_screen:
  assumes "displays fb w t" "fb_ok fb" "kernel_talk E m ins os es m'"
  shows "\<exists>w'. fold_res draw os w = Inr w' \<and> (\<forall>i\<ge>byte_len fb. vram w' i = vram w i)
    \<and> displays fb w' (fold t_out os t)"
  by (rule draw_all_displays [OF assms(1,2) talk_dark [OF assms(3)]])

lemma boot_tracks: "kernel_boot m \<Longrightarrow> tracks m [] ([], [])"
proof -
  assume "kernel_boot m"
  then have "kern m = booted" by (simp add: kernel_boot_def booted_kernel_eq)
  then show ?thesis by (simp add: tracks_def booted_def new_input_def)
qed

subsection \<open>Properties\<close>





text \<open>C19. Everything is seen: on a framebuffer the console was set up on, all that a run of the kernel
  sends out, the shell's output and the echo of every key, in whatever interleaving, is
  drawn without a panic and without touching memory past the framebuffer, and the screen
  then shows the text terminal after that output.\<close>

theorem run_on_screen:
  assumes "displays fb w t" "fb_ok fb" "kernel_talk E m ins os es m'"
  shows "\<exists>w'. fold_res draw os w = Inr w' \<and> (\<forall>i\<ge>byte_len fb. vram w' i = vram w i)
    \<and> displays fb w' (fold t_out os t)"
  by (rule talk_on_screen [OF assms])

theorem run_on_screen_witness:
  "\<exists>os es m w w'. kernel_talk {sample_env} booted_machine (map Serial_Byte (typed ''rm bin'')) os es m
     \<and> lines_run es = [''rm bin'']
     \<and> vga_init \<lparr>address = 0x80000000, byte_len = 2048, width = 16, height = 32, stride = 16,
        pixel_format = Bgr\<rparr> (new_writer (\<lambda>_. 0)) = Inr w
     \<and> fold_res draw os w = Inr w'"
proof -
  let ?fb = "\<lparr>address = 0x80000000, byte_len = 2048, width = 16, height = 32, stride = 16, pixel_format = Bgr\<rparr>"
  have fb: "address ?fb \<noteq> 0" "fb_ok ?fb" "stride ?fb * height ?fb * 4 < usize_bound"
    by (simp_all add: fb_ok_def fb_sane_def usize_bound_def)
  from displays_init [OF this, of "\<lambda>_. 0"] obtain w where
    w: "vga_init ?fb (new_writer (\<lambda>_. 0)) = Inr w" "displays ?fb w (t_start ?fb)" by blast
  obtain os es m where "kernel_talk {sample_env} booted_machine (map Serial_Byte (typed ''rm bin'')) os es m"
    "lines_run es = [''rm bin'']" using rm_bin_talk by blast
  with w run_on_screen [OF w(2) fb(2), of "{sample_env}" booted_machine] show ?thesis by meson
qed

end
