(* ===== verification/Atomicity.thy ===== *)
theory Atomicity
  imports Shell_Facts
begin

text \<open>
  Why theory Kernel may run a command in one step. While the shell runs a command, interrupts
  are enabled: a handler may edit the input line or count a tick in the middle of it. A command
  writes neither, and of the input it reads only the modifiers, which no handler changes; so an
  interrupt in the middle of a command has the effect of one before it or behind it.
\<close>

text \<open>The effect of an interrupt on the result of a command.\<close>

definition after_command :: "(kernel \<Rightarrow> kernel) \<Rightarrow> (out list \<times> kernel) res \<Rightarrow> (out list \<times> kernel) res" where
  "after_command irq r = bind_res r (\<lambda>(os, k). Inr (os, irq k))"

definition on_input :: "(input_buffer \<Rightarrow> input_buffer) \<Rightarrow> kernel \<Rightarrow> kernel" where
  "on_input f k = k\<lparr>k_input := f (k_input k)\<rparr>"

definition on_ticks :: "(u64 \<Rightarrow> u64) \<Rightarrow> kernel \<Rightarrow> kernel" where
  "on_ticks f k = k\<lparr>k_ticks := f (k_ticks k)\<rparr>"

lemma on_input_simps [simp]:
  "k_vfs (on_input f k) = k_vfs k" "k_sched (on_input f k) = k_sched k" "k_ticks (on_input f k) = k_ticks k"
  "k_net (on_input f k) = k_net k" "k_prompt (on_input f k) = k_prompt k" "k_input (on_input f k) = f (k_input k)"
  by (simp_all add: on_input_def)

lemma on_ticks_simps [simp]:
  "k_vfs (on_ticks f k) = k_vfs k" "k_sched (on_ticks f k) = k_sched k" "k_ticks (on_ticks f k) = f (k_ticks k)"
  "k_net (on_ticks f k) = k_net k" "k_prompt (on_ticks f k) = k_prompt k" "k_input (on_ticks f k) = k_input k"
  by (simp_all add: on_ticks_def)

lemma on_input_commutes:
  "(on_input f k)\<lparr>k_vfs := v\<rparr> = on_input f (k\<lparr>k_vfs := v\<rparr>)"
  "(on_input f k)\<lparr>k_sched := s\<rparr> = on_input f (k\<lparr>k_sched := s\<rparr>)"
  "(on_input f k)\<lparr>k_net := n\<rparr> = on_input f (k\<lparr>k_net := n\<rparr>)"
  "(on_input f k)\<lparr>k_prompt := p\<rparr> = on_input f (k\<lparr>k_prompt := p\<rparr>)"
  by (simp_all add: on_input_def)

lemma on_ticks_commutes:
  "(on_ticks f k)\<lparr>k_vfs := v\<rparr> = on_ticks f (k\<lparr>k_vfs := v\<rparr>)"
  "(on_ticks f k)\<lparr>k_sched := s\<rparr> = on_ticks f (k\<lparr>k_sched := s\<rparr>)"
  "(on_ticks f k)\<lparr>k_net := n\<rparr> = on_ticks f (k\<lparr>k_net := n\<rparr>)"
  "(on_ticks f k)\<lparr>k_prompt := p\<rparr> = on_ticks f (k\<lparr>k_prompt := p\<rparr>)"
  by (simp_all add: on_ticks_def)

subsection \<open>What handlers leave alone\<close>

lemma key_event_modifiers: "modifiers (snd (handle_key_event event b)) = modifiers b"
  by (simp add: handle_key_event_def push_char_def backspace_def commit_line_def split_beta Let_def split: key_event.split)

lemma byte_modifiers:
  "modifiers (snd (keyboard_byte x b)) = modifiers b" "modifiers (snd (serial_byte x b)) = modifiers b"
  by (simp_all add: keyboard_byte_def serial_byte_def on_event_def key_event_modifiers split: option.split)

subsection \<open>Commands under an interrupt\<close>

lemma info_on_input:
  "modifiers (f (k_input k)) = modifiers (k_input k) \<Longrightarrow>
     info_command e c args (on_input f k) = info_command e c args k"
  by (simp add: info_command_def system_command_def listing_command_def console_command_def get_modifiers_def
      cong: if_cong option.case_cong)

lemma info_on_ticks:
  "c \<noteq> ''uptime'' \<Longrightarrow> c \<noteq> ''sysinfo'' \<Longrightarrow> info_command e c args (on_ticks f k) = info_command e c args k"
  by (simp add: info_command_def system_command_def listing_command_def console_command_def
      cong: if_cong option.case_cong)

lemma other_on_input: "other_command c args (on_input f k) = after_command (on_input f) (other_command c args k)"
  by (simp add: other_command_def prompt_command_def spawn_command_def kill_command_def ping_command_def after_command_def
      on_input_commutes Let_def split_beta bind_res_def split: sum.split option.split)

lemma other_on_ticks: "other_command c args (on_ticks f k) = after_command (on_ticks f) (other_command c args k)"
  by (simp add: other_command_def prompt_command_def spawn_command_def kill_command_def ping_command_def after_command_def
      on_ticks_commutes Let_def split_beta bind_res_def split: sum.split option.split)

lemma after_command_simps [simp]:
  "after_command irq (Inr (os, k)) = Inr (os, irq k)" "after_command irq (Inl p) = Inl p"
  by (simp_all add: after_command_def)

lemma handle_on_input:
  assumes "modifiers (f (k_input k)) = modifiers (k_input k)"
  shows "handle_command e cmd (on_input f k) = after_command (on_input f) (handle_command e cmd k)"
  using info_on_input [where f = f and k = k and e = e, OF assms] other_on_input [of _ _ f k]
  by (simp add: handle_command_def split_beta Let_def on_input_commutes split: option.split)

lemma handle_on_ticks:
  assumes "command_name cmd \<notin> {''uptime'', ''sysinfo''}"
  shows "handle_command e cmd (on_ticks f k) = after_command (on_ticks f) (handle_command e cmd k)"
  using info_on_ticks [of "fst (split_command cmd)" e "snd (split_command cmd)" f k] other_on_ticks [of _ _ f k] assms
  by (simp add: handle_command_def split_beta Let_def on_ticks_commutes split: option.split)

text \<open>The two commands that print the tick counter change nothing.\<close>

lemma clock_command_keeps:
  assumes "command_name cmd \<in> {''uptime'', ''sysinfo''}"
  shows "\<exists>os. handle_command e cmd k = Inr (os, k)"
proof -
  from assms have "\<exists>os. info_command e (fst (split_command cmd)) (snd (split_command cmd)) k = Some os"
    by (auto simp: info_command_def system_command_def heap_stats_def)
  then show ?thesis by (auto simp: handle_command_def split_beta)
qed

lemma state_on_ticks:
  "bind_res (handle_command e cmd (on_ticks f k)) (\<lambda>(os, k). Inr k)
     = bind_res (handle_command e cmd k) (\<lambda>(os, k). Inr (on_ticks f k))"
proof (cases "command_name cmd \<in> {''uptime'', ''sysinfo''}")
  case True
  from clock_command_keeps [OF True, of e k] clock_command_keeps [OF True, of e "on_ticks f k"]
  show ?thesis by auto
next
  case False
  then show ?thesis
    using handle_on_ticks [OF False, of e f k] by (cases "handle_command e cmd k") (auto simp: after_command_def)
qed

subsection \<open>Properties\<close>



end
