(* ===== verification/Memory.thy ===== *)
theory Memory
  imports Boot_Info
begin

text \<open>
  Physical frames and the kernel heap: the frame allocator of \<^verbatim>\<open>src/src/memory.rs\<close> over the
  bootloader's memory map and \<^verbatim>\<open>init_heap\<close> of \<^verbatim>\<open>src/src/allocator.rs\<close>. The address types of
  the \<^verbatim>\<open>x86_64\<close> crate are parameters: \<open>frame_of\<close> is
  \<^verbatim>\<open>PhysFrame::containing_address(PhysAddr::new(addr))\<close> (a panic for an address that is not
  a physical one) and \<open>map_to\<close> is the mapper's method. The two interfaces of the source, a
  frame allocator and its client, are locales.
\<close>

unbundle bit_operations_syntax

subsection \<open>The frame allocator\<close>

record frame_allocator =
  memory_map :: memory_map
  next_frame :: nat

definition init_frame_allocator :: "memory_map \<Rightarrow> frame_allocator" where
  "init_frame_allocator m = \<lparr>memory_map = m, next_frame = 0\<rparr>"

text \<open>\<^verbatim>\<open>(start..end).step_by(4096)\<close>, empty when the range is.\<close>

definition step_by_4096 :: "u64 \<Rightarrow> u64 \<Rightarrow> u64 list" where
  "step_by_4096 s e =
     map (\<lambda>k. s + of_nat (4096 * k)) [0..<(unat e - unat s + 4095) div 4096]"

definition usable_addrs :: "memory_map \<Rightarrow> u64 list" where
  "usable_addrs m =
     concat (map (\<lambda>r. step_by_4096 (start_addr (range r)) (end_addr (range r)))
       (filter (\<lambda>r. region_type r = Usable) (map_iter m)))"

text \<open>\<^verbatim>\<open>usable_frames().nth(n)\<close>: the iterator is lazy, so it converts the addresses up to the
  one it returns, and a conversion that panics stops it there.\<close>

fun nth_frame :: "(u64 \<Rightarrow> 'f res) \<Rightarrow> u64 list \<Rightarrow> nat \<Rightarrow> 'f option res" where
  "nth_frame frame_of [] n = Inr None"
| "nth_frame frame_of (a # as) n =
     bind_res (frame_of a) (\<lambda>f. case n of 0 \<Rightarrow> Inr (Some f) | Suc n \<Rightarrow> nth_frame frame_of as n)"

definition allocate_frame ::
  "(u64 \<Rightarrow> 'f res) \<Rightarrow> frame_allocator \<Rightarrow> ('f option \<times> frame_allocator) res" where
  "allocate_frame frame_of s =
     bind_res (nth_frame frame_of (usable_addrs (memory_map s)) (next_frame s)) (\<lambda>frame.
     bind_res (add_usize (next_frame s) 1) (\<lambda>n. Inr (frame, s\<lparr>next_frame := n\<rparr>)))"

subsection \<open>The heap\<close>

definition heap_start :: u64 where "heap_start = 0x444444440000"
definition heap_size :: nat where "heap_size = 256 * 1024"

datatype 'e map_error = Frame_Allocation_Failed | Map_Error 'e

text \<open>\<^verbatim>\<open>PageTableFlags::PRESENT | PageTableFlags::WRITABLE\<close>: bits 0 and 1.\<close>

definition heap_flags :: u64 where "heap_flags = 0x1 OR 0x2"

text \<open>The start addresses of \<^verbatim>\<open>Page::range_inclusive(start_page, end_page)\<close>; the heap starts on a
  page boundary.\<close>

definition heap_pages :: "u64 list" where
  "heap_pages = map (\<lambda>k. heap_start + of_nat (4096 * k))
     [0..<unat ((heap_start + of_nat heap_size - 1) div 4096) - unat (heap_start div 4096) + 1]"

text \<open>The loop of \<^verbatim>\<open>init_heap\<close>, over any allocator \<open>alloc\<close> and mapper \<open>map_to\<close> (which may take
  frames for page tables, so it passes the allocator on). The log lists the mappings made,
  in order.\<close>

type_synonym ('f, 'm, 'a, 'e) mapper = "u64 \<Rightarrow> 'f \<Rightarrow> u64 \<Rightarrow> 'm \<Rightarrow> 'a \<Rightarrow> (('e option) \<times> 'm \<times> 'a) res"

fun map_pages ::
  "('a \<Rightarrow> ('f option \<times> 'a) res) \<Rightarrow> ('f, 'm, 'a, 'e) mapper \<Rightarrow> u64 list \<Rightarrow> 'm \<Rightarrow> 'a
    \<Rightarrow> ('e map_error option \<times> (u64 \<times> 'f \<times> u64) list \<times> 'm \<times> 'a) res" where
  "map_pages alloc map_to [] m a = Inr (None, [], m, a)"
| "map_pages alloc map_to (page # pages) m a =
     bind_res (alloc a) (\<lambda>(frame, a).
       case frame of
         None \<Rightarrow> Inr (Some Frame_Allocation_Failed, [], m, a)
       | Some f \<Rightarrow>
           bind_res (map_to page f heap_flags m a) (\<lambda>(err, m, a).
             case err of
               Some e \<Rightarrow> Inr (Some (Map_Error e), [], m, a)
             | None \<Rightarrow>
                 bind_res (map_pages alloc map_to pages m a) (\<lambda>(r, log, m, a).
                   Inr (r, (page, f, heap_flags) # log, m, a))))"

text \<open>\<open>init_heap\<close> returns the result, the mappings made, what the global allocator is given (the
  heap's address and size, only at the end) and the two states.\<close>

definition init_heap ::
  "('a \<Rightarrow> ('f option \<times> 'a) res) \<Rightarrow> ('f, 'm, 'a, 'e) mapper \<Rightarrow> 'm \<Rightarrow> 'a
    \<Rightarrow> ('e map_error option \<times> (u64 \<times> 'f \<times> u64) list \<times> (u64 \<times> nat) option \<times> 'm \<times> 'a) res" where
  "init_heap alloc map_to m a =
     bind_res (map_pages alloc map_to heap_pages m a) (\<lambda>(r, log, m, a).
       case r of
         Some e \<Rightarrow> Inr (Some e, log, None, m, a)
       | None \<Rightarrow> Inr (None, log, Some (heap_start, heap_size), m, a))"

subsection \<open>The interface of a frame allocator\<close>

text \<open>
  What a user of an allocator may rely on: it hands out no frame twice. \<open>given\<close> is the list of
  frames handed out so far. The heap's pages then get distinct frames, fresh ones, whatever
  frames the mapper takes in between for its page tables.
\<close>

definition takes_only :: "('a \<Rightarrow> bool) \<Rightarrow> ('a \<Rightarrow> 'f list) \<Rightarrow> ('f, 'm, 'a, 'e) mapper \<Rightarrow> bool" where
  "takes_only ok given map_to = (\<forall>p f fl m a r m' a'. ok a \<longrightarrow> map_to p f fl m a = Inr (r, m', a') \<longrightarrow>
     ok a' \<and> (\<exists>fs. given a' = given a @ fs))"

locale frame_source =
  fixes alloc :: "'a \<Rightarrow> ('f option \<times> 'a) res"
    and ok :: "'a \<Rightarrow> bool"
    and given :: "'a \<Rightarrow> 'f list"
  assumes given_distinct: "ok a \<Longrightarrow> distinct (given a)"
    and alloc_some: "ok a \<Longrightarrow> alloc a = Inr (Some f, a') \<Longrightarrow> ok a' \<and> given a' = given a @ [f]"
    and alloc_none: "ok a \<Longrightarrow> alloc a = Inr (None, a') \<Longrightarrow> ok a' \<and> given a' = given a"
begin

lemma map_pages_frames:
  assumes "takes_only ok given map_to" "ok a" "map_pages alloc map_to pages m a = Inr (r, log, m', a')"
  shows "ok a' \<and> (\<exists>fs. given a' = given a @ fs \<and> set (map (fst \<circ> snd) log) \<subseteq> set fs)
    \<and> distinct (map (fst \<circ> snd) log)"
  using assms(2,3)
proof (induction pages arbitrary: r log m a)
  case Nil
  then show ?case by auto
next
  case (Cons page pages)
  obtain frame a1 where al: "alloc a = Inr (frame, a1)"
    using Cons.prems(2) by (cases "alloc a") auto
  show ?case
  proof (cases frame)
    case None
    with al Cons.prems alloc_none [OF Cons.prems(1)] show ?thesis by auto
  next
    case (Some f)
    note a1 = alloc_some [OF Cons.prems(1) al [unfolded Some]]
    obtain err m2 a2 where mt: "map_to page f heap_flags m a1 = Inr (err, m2, a2)"
      using Cons.prems(2) al Some by (cases "map_to page f heap_flags m a1") auto
    from assms(1) a1 mt obtain fs where a2: "ok a2" "given a2 = given a @ f # fs"
      unfolding takes_only_def by force
    show ?thesis
    proof (cases err)
      case (Some e)
      with Cons.prems al mt a2 \<open>frame = Some f\<close> show ?thesis by auto
    next
      case None
      with Cons.prems(2) al mt Some obtain log' where
        rest: "map_pages alloc map_to pages m2 a2 = Inr (r, log', m', a')"
        and log: "log = (page, f, heap_flags) # log'"
        by (auto simp: bind_res_eq_Inr)
      from Cons.IH [OF a2(1) rest] obtain gs where
        gs: "ok a'" "given a' = given a2 @ gs" "set (map (fst \<circ> snd) log') \<subseteq> set gs"
          "distinct (map (fst \<circ> snd) log')"
        by auto
      have "f \<notin> set gs" using given_distinct [OF gs(1)] a2(2) gs(2) by auto
      with gs a2 log show ?thesis by (auto simp: o_def)
    qed
  qed
qed

end

lemma map_pages_log:
  assumes "map_pages alloc map_to pages m a = Inr (r, log, m', a')"
  shows "map fst log = take (length log) pages \<and> (\<forall>x\<in>set log. snd (snd x) = heap_flags)
    \<and> (r = None \<longleftrightarrow> length log = length pages)"
  using assms
proof (induction pages arbitrary: r log m a)
  case Nil
  then show ?case by simp
next
  case (Cons page pages)
  then show ?case
    by (fastforce simp: bind_res_eq_Inr split: option.splits)
qed

subsection \<open>The frames of a memory map\<close>

lemma steps_iff: "k < (d + 4095) div 4096 \<longleftrightarrow> 4096 * k < d" for d k :: nat
proof -
  have "k < (d + 4095) div 4096 \<longleftrightarrow> Suc k * 4096 \<le> d + 4095"
    by (simp only: less_eq_div_iff_mult_less_eq Suc_le_eq [symmetric])
  then show ?thesis by auto
qed

lemma unat_step:
  fixes s e :: u64
  assumes "k < (unat e - unat s + 4095) div 4096"
  shows "unat (s + of_nat (4096 * k)) = unat s + 4096 * k"
proof -
  have "unat s + 4096 * k < unat e" using assms by (simp only: steps_iff)
  moreover have "unat e < 2 ^ 64" using unsigned_less [of e] by simp
  moreover from calculation have "unat (of_nat (4096 * k) :: u64) = 4096 * k"
    by (subst unat_of_nat) simp
  ultimately show ?thesis by (simp only: unat_word_ariths(1)) simp
qed

lemma distinct_step_by: "distinct (step_by_4096 s e)"
  unfolding step_by_4096_def distinct_map
proof (intro conjI inj_onI)
  fix j k
  assume "j \<in> set [0..<(unat e - unat s + 4095) div 4096]" "k \<in> set [0..<(unat e - unat s + 4095) div 4096]"
    and eq: "s + of_nat (4096 * j) = s + of_nat (4096 * k)"
  then have "j < (unat e - unat s + 4095) div 4096" "k < (unat e - unat s + 4095) div 4096"
    by (simp_all only: set_upt atLeastLessThan_iff)
  then have "unat s + 4096 * j = unat s + 4096 * k"
    using unat_step eq by metis
  then show "j = k" by simp
qed simp

lemma step_by_4096_mem:
  "a \<in> set (step_by_4096 s e) \<longleftrightarrow>
     unat s \<le> unat a \<and> unat a < unat e \<and> (\<exists>k. unat a = unat s + 4096 * k)"
proof
  assume "a \<in> set (step_by_4096 s e)"
  then obtain k where "k \<in> set [0..<(unat e - unat s + 4095) div 4096]" and a: "a = s + of_nat (4096 * k)"
    unfolding step_by_4096_def set_map by (rule imageE)
  then have "k < (unat e - unat s + 4095) div 4096" by (simp only: set_upt atLeastLessThan_iff)
  then have "unat a = unat s + 4096 * k" "unat s + 4096 * k < unat e"
    unfolding a by (rule unat_step, simp only: steps_iff)
  then show "unat s \<le> unat a \<and> unat a < unat e \<and> (\<exists>k. unat a = unat s + 4096 * k)" by auto
next
  assume "unat s \<le> unat a \<and> unat a < unat e \<and> (\<exists>k. unat a = unat s + 4096 * k)"
  then obtain k where k: "unat a = unat s + 4096 * k" "unat s + 4096 * k < unat e" by auto
  have "a = of_nat (unat s + 4096 * k)" by (simp only: k(1) [symmetric]) simp
  then have "a = s + of_nat (4096 * k)" by simp
  moreover have "k < (unat e - unat s + 4095) div 4096"
    using k(2) by (simp only: steps_iff)
  ultimately show "a \<in> set (step_by_4096 s e)"
    unfolding step_by_4096_def set_map by (intro image_eqI [of _ _ k]) simp_all
qed

text \<open>A memory map as firmware reports it: the usable regions are made of whole pages and do not
  overlap.\<close>

definition usable_regions :: "memory_map \<Rightarrow> memory_region list" where
  "usable_regions m = filter (\<lambda>r. region_type r = Usable) (map_iter m)"

definition region_start :: "memory_region \<Rightarrow> nat" where
  "region_start r = unat (start_addr (range r))"

definition region_end :: "memory_region \<Rightarrow> nat" where
  "region_end r = unat (end_addr (range r))"

definition page_aligned :: "memory_region \<Rightarrow> bool" where
  "page_aligned r = (region_start r mod 4096 = 0 \<and> region_end r mod 4096 = 0)"

definition regions_disjoint :: "memory_region \<Rightarrow> memory_region \<Rightarrow> bool" where
  "regions_disjoint r q = (region_end r \<le> region_start q \<or> region_end q \<le> region_start r)"

definition good_map :: "memory_map \<Rightarrow> bool" where
  "good_map m =
     (list_all page_aligned (usable_regions m) \<and> sorted_wrt regions_disjoint (usable_regions m))"

lemma usable_addrs_concat:
  "usable_addrs m = concat (map (\<lambda>r. step_by_4096 (start_addr (range r)) (end_addr (range r))) (usable_regions m))"
  by (simp add: usable_addrs_def usable_regions_def)

lemma aligned_next_page:
  assumes "x < y" "x mod 4096 = 0" "y mod 4096 = 0"
  shows "x + 4096 \<le> (y :: nat)"
proof -
  obtain p q where p: "x = 4096 * p" and q: "y = 4096 * q"
    using assms(2,3) by (metis mod_0_imp_dvd dvdE)
  with assms(1) have "p + 1 \<le> q" by simp
  then have "4096 * (p + 1) \<le> 4096 * q" by (rule mult_le_mono2)
  with p q show ?thesis by simp
qed

lemma usable_addr_region:
  assumes "a \<in> set (usable_addrs m)" "list_all page_aligned (usable_regions m)"
  obtains r where "r \<in> set (usable_regions m)" "region_start r \<le> unat a" "unat a + 4096 \<le> region_end r"
    "unat a mod 4096 = 0"
proof -
  from assms(1) obtain r where r: "r \<in> set (usable_regions m)"
    and a: "a \<in> set (step_by_4096 (start_addr (range r)) (end_addr (range r)))"
    unfolding usable_addrs_concat set_concat set_map by auto
  from a obtain k where k: "region_start r \<le> unat a" "unat a < region_end r" "unat a = region_start r + 4096 * k"
    by (auto simp: step_by_4096_mem region_start_def region_end_def)
  have al: "region_start r mod 4096 = 0" "region_end r mod 4096 = 0"
    using assms(2) r by (auto simp: list_all_iff page_aligned_def)
  then have a0: "unat a mod 4096 = 0" using k(3) by simp
  have "unat a + 4096 \<le> region_end r"
    by (rule aligned_next_page [OF k(2) a0 al(2)])
  from that [OF r k(1) this a0] show ?thesis .
qed

lemma distinct_usable_addrs:
  assumes "good_map m"
  shows "distinct (usable_addrs m)"
proof -
  have "distinct (concat (map (\<lambda>r. step_by_4096 (start_addr (range r)) (end_addr (range r))) rs))"
    if "sorted_wrt regions_disjoint rs" for rs
    using that
  proof (induction rs)
    case Nil
    then show ?case by simp
  next
    case (Cons r rs)
    have "a \<notin> set (step_by_4096 (start_addr (range q)) (end_addr (range q)))"
      if "q \<in> set rs" "a \<in> set (step_by_4096 (start_addr (range r)) (end_addr (range r)))" for a q
    proof -
      have "regions_disjoint r q" using Cons.prems that(1) by simp
      with that(2) show ?thesis
        by (auto simp: step_by_4096_mem regions_disjoint_def region_start_def region_end_def)
    qed
    with Cons show ?case by (auto simp: distinct_step_by)
  qed
  then show ?thesis using assms by (simp add: usable_addrs_concat good_map_def)
qed

subsection \<open>The boot allocator meets the interface\<close>

text \<open>
  What the boot allocator relies on: a good memory map, and that \<open>frame_of\<close> accepts the
  addresses in it and gives the same frame only to addresses of one page.
\<close>

locale phys_frames =
  fixes frame_of :: "u64 \<Rightarrow> 'f res" and m :: memory_map
  assumes map_good: "good_map m"
    and frame_ok: "a \<in> set (usable_addrs m) \<Longrightarrow> is_ok (frame_of a)"
    and frame_page: "frame_of a = Inr f \<Longrightarrow> frame_of b = Inr f \<Longrightarrow> unat a div 4096 = unat b div 4096"
begin

definition frames :: "'f list" where
  "frames = map (projr \<circ> frame_of) (usable_addrs m)"

lemma length_frames: "length frames = length (usable_addrs m)"
  by (simp add: frames_def)

lemma frame_of_usable: "a \<in> set (usable_addrs m) \<Longrightarrow> frame_of a = Inr (projr (frame_of a))"
  using frame_ok [of a] by (auto simp: is_ok_iff)

lemma distinct_frames: "distinct frames"
  unfolding frames_def distinct_map
proof (intro conjI inj_onI)
  show "distinct (usable_addrs m)" by (rule distinct_usable_addrs [OF map_good])
next
  fix a b
  assume a: "a \<in> set (usable_addrs m)" and b: "b \<in> set (usable_addrs m)"
    and eq: "(projr \<circ> frame_of) a = (projr \<circ> frame_of) b"
  have "unat a div 4096 = unat b div 4096"
    using frame_page [of a _ b] frame_of_usable [OF a] frame_of_usable [OF b] eq by simp
  moreover have "unat a mod 4096 = 0" "unat b mod 4096 = 0"
    using map_good a b by (auto elim!: usable_addr_region simp: good_map_def)
  ultimately have "unat a = unat b" by (metis div_mult_mod_eq)
  then show "a = b" by (simp add: word_unat_eq_iff)
qed

lemma nth_frame_eq:
  "set as \<subseteq> set (usable_addrs m) \<Longrightarrow>
    nth_frame frame_of as n = Inr (if n < length as then Some (map (projr \<circ> frame_of) as ! n) else None)"
proof (induction as arbitrary: n)
  case Nil
  then show ?case by simp
next
  case (Cons a as)
  obtain f where "frame_of a = Inr f" using frame_of_usable [of a] Cons.prems by auto
  with Cons show ?case by (cases n) simp_all
qed

lemma allocate_eq:
  assumes "memory_map s = m" "next_frame s + 1 < usize_bound"
  shows "allocate_frame frame_of s =
    Inr (if next_frame s < length frames then Some (frames ! next_frame s) else None,
         s\<lparr>next_frame := next_frame s + 1\<rparr>)"
  using assms nth_frame_eq [of "usable_addrs m" "next_frame s"]
  by (simp add: allocate_frame_def frames_def add_usize_def fits_usize_iff)

lemma allocate_InrD:
  assumes "memory_map s = m" "allocate_frame frame_of s = Inr (f, s')"
  shows "s' = s\<lparr>next_frame := next_frame s + 1\<rparr>"
    "f = (if next_frame s < length frames then Some (frames ! next_frame s) else None)"
  using assms nth_frame_eq [of "usable_addrs m" "next_frame s"]
  by (auto simp: allocate_frame_def frames_def bind_res_eq_Inr add_usize_Inr_iff)

end

sublocale phys_frames \<subseteq> boot: frame_source "allocate_frame frame_of" "\<lambda>s. memory_map s = m"
  "\<lambda>s. take (next_frame s) frames"
proof
  show "distinct (take (next_frame s) frames)" if "memory_map s = m" for s
    using distinct_frames by simp
  show "memory_map s' = m \<and> take (next_frame s') frames = take (next_frame s) frames @ [f]"
    if s: "memory_map s = m" "allocate_frame frame_of s = Inr (Some f, s')" for s f s'
    using allocate_InrD [OF s] s(1) by (auto simp: take_Suc_conv_app_nth split: if_splits)
  show "memory_map s' = m \<and> take (next_frame s') frames = take (next_frame s) frames"
    if s: "memory_map s = m" "allocate_frame frame_of s = Inr (None, s')" for s s'
    using allocate_InrD [OF s] s(1) by (auto split: if_splits)
qed

subsection \<open>Running the allocator\<close>

primrec allocs :: "('a \<Rightarrow> ('f option \<times> 'a) res) \<Rightarrow> nat \<Rightarrow> 'a \<Rightarrow> ('f option list \<times> 'a) res" where
  "allocs alloc 0 a = Inr ([], a)"
| "allocs alloc (Suc n) a =
     bind_res (alloc a) (\<lambda>(f, a). bind_res (allocs alloc n a) (\<lambda>(fs, a). Inr (f # fs, a)))"

context phys_frames begin

lemma allocs_eq:
  "memory_map s = m \<Longrightarrow> next_frame s + n < usize_bound \<Longrightarrow>
    allocs (allocate_frame frame_of) n s =
      Inr (map (\<lambda>i. if i < length frames then Some (frames ! i) else None) [next_frame s..<next_frame s + n],
           s\<lparr>next_frame := next_frame s + n\<rparr>)"
proof (induction n arbitrary: s)
  case 0
  then show ?case by simp
next
  case (Suc n)
  let ?s = "s\<lparr>next_frame := next_frame s + 1\<rparr>"
  have "[next_frame s..<next_frame s + Suc n] = next_frame s # [Suc (next_frame s)..<Suc (next_frame s) + n]"
    by (simp add: upt_conv_Cons)
  with Suc.IH [of ?s] Suc.prems show ?case by (simp add: allocate_eq)
qed

lemma allocs_from_start:
  assumes "n < usize_bound"
  shows "allocs (allocate_frame frame_of) n (init_frame_allocator m) =
    Inr (map Some (take n frames) @ replicate (n - length frames) None,
         \<lparr>memory_map = m, next_frame = n\<rparr>)"
proof -
  have "map (\<lambda>i. if i < length frames then Some (frames ! i) else None) [0..<n]
      = map Some (take n frames) @ replicate (n - length frames) None"
    by (rule nth_equalityI) (auto simp: nth_append)
  with allocs_eq [of "init_frame_allocator m" n] assms show ?thesis
    by (simp add: init_frame_allocator_def)
qed

lemma frame_in_region:
  assumes "f \<in> set frames"
  shows "\<exists>a r. frame_of a = Inr f \<and> r \<in> set (map_iter m) \<and> region_type r = Usable
    \<and> region_start r \<le> unat a \<and> unat a + 4096 \<le> region_end r"
proof -
  from assms obtain a where a: "a \<in> set (usable_addrs m)" "f = projr (frame_of a)"
    by (auto simp: frames_def)
  obtain r where "r \<in> set (usable_regions m)" "region_start r \<le> unat a" "unat a + 4096 \<le> region_end r"
    using usable_addr_region [OF a(1)] map_good by (auto simp: good_map_def)
  with frame_of_usable [OF a(1)] a(2) show ?thesis by (auto simp: usable_regions_def)
qed

end

text \<open>A mapper that never fails and needs no page tables of its own.\<close>

fun direct_map :: "('f, 'm, 'a, unit) mapper" where
  "direct_map p f fl m a = Inr (None, m, a)"

context phys_frames begin

lemma map_pages_direct:
  "memory_map s = m \<Longrightarrow> next_frame s + length pages \<le> length frames \<Longrightarrow> length frames < usize_bound \<Longrightarrow>
    \<exists>log s'. map_pages (allocate_frame frame_of) direct_map pages mp s = Inr (None, log, mp, s')"
proof (induction pages arbitrary: s)
  case Nil
  then show ?case by simp
next
  case (Cons p pages)
  let ?s = "s\<lparr>next_frame := next_frame s + 1\<rparr>"
  have "\<exists>log s'. map_pages (allocate_frame frame_of) direct_map pages mp ?s = Inr (None, log, mp, s')"
    by (rule Cons.IH) (use Cons.prems in simp_all)
  then obtain log s' where
    "map_pages (allocate_frame frame_of) direct_map pages mp ?s = Inr (None, log, mp, s')" by blast
  with Cons.prems show ?case
    by (simp add: allocate_eq del: direct_map.simps) (simp add: direct_map.simps [of p] del: direct_map.simps)
qed

end

text \<open>Frames as page numbers, with the 52-bit limit of physical addresses, and a memory map of
  one megabyte of usable memory after a reserved megabyte.\<close>

definition page_number :: "u64 \<Rightarrow> u64 res" where
  "page_number a =
     (if a < 0x10000000000000 then Inr (a div 4096) else Inl (Panic ''invalid physical address''))"

definition region :: "u64 \<Rightarrow> u64 \<Rightarrow> memory_region_type \<Rightarrow> memory_region" where
  "region s e t = \<lparr>range = \<lparr>start_addr = s, end_addr = e\<rparr>, region_type = t\<rparr>"

definition sample_map :: memory_map where
  "sample_map = fold add_region [region 0 0x100000 Reserved, region 0x100000 0x200000 Usable] new_map"

lemma sample_usable: "usable_regions sample_map = [region 0x100000 0x200000 Usable]"
  using map_iter_fold [OF map_wf_new, of "[region 0 0x100000 Reserved, region 0x100000 0x200000 Usable]"]
  by (simp add: usable_regions_def sample_map_def region_def)

interpretation sample: phys_frames page_number sample_map
proof
  show good: "good_map sample_map"
    by (simp add: good_map_def sample_usable page_aligned_def region_start_def region_end_def region_def)
  show "is_ok (page_number a)" if a: "a \<in> set (usable_addrs sample_map)" for a
  proof -
    obtain r where r: "r \<in> set (usable_regions sample_map)" "unat a + 4096 \<le> region_end r"
      using usable_addr_region [OF a] good unfolding good_map_def by metis
    from r(1) have "r = region 0x100000 0x200000 Usable" by (simp add: sample_usable)
    then have "region_end r = 2097152" by (simp add: region_end_def region_def)
    with r(2) have "unat a < 4503599627370496" by linarith
    then have "a < 0x10000000000000" by (simp add: word_less_nat_alt)
    then show ?thesis by (simp add: page_number_def)
  qed
  show "unat a div 4096 = unat b div 4096" if "page_number a = Inr f" "page_number b = Inr f" for a b f
    using that by (auto simp: page_number_def unat_div split: if_splits dest!: arg_cong [where f = unat])
qed

lemma length_sample_frames: "length sample.frames = 256"
  by (simp add: sample.length_frames usable_addrs_concat sample_usable region_def step_by_4096_def)

lemma sample_heap:
  "\<exists>log s. init_heap (allocate_frame page_number) direct_map () (init_frame_allocator sample_map)
     = Inr (None, log, Some (heap_start, heap_size), (), s)"
proof -
  let ?s = "init_frame_allocator sample_map"
  have "length heap_pages \<le> 64" by (simp add: heap_pages_def heap_start_def heap_size_def)
  then obtain log s where
    "map_pages (allocate_frame page_number) direct_map heap_pages () ?s = Inr (None, log, (), s)"
    using sample.map_pages_direct [of ?s heap_pages "()"] length_sample_frames
    by (auto simp: init_frame_allocator_def usize_bound_def)
  then show ?thesis by (simp add: init_heap_def)
qed

subsection \<open>Properties\<close>



text \<open>C22. The heap is mapped completely or not reported: when \<^verbatim>\<open>init_heap\<close> succeeds, the 64 pages from
  \<^verbatim>\<open>HEAP_START\<close> on were mapped in order, present and writable, each to a frame of its own
  that nothing else got, and only then the allocator is given the range; on an error it is
  given nothing and the mapped pages are a proper prefix.\<close>

theorem heap_mapped:
  assumes "frame_source alloc ok given" "takes_only ok given map_to" "ok a"
    and "init_heap alloc map_to m a = Inr (r, log, heap, m', a')"
  shows "map fst log = take (length log) heap_pages
    \<and> heap_pages = map (\<lambda>k. 0x444444440000 + 0x1000 * of_nat k) [0..<64]
    \<and> (\<forall>x\<in>set log. snd (snd x) = 3)
    \<and> distinct (map (fst \<circ> snd) log) \<and> set (map (fst \<circ> snd) log) \<inter> set (given a) = {}
    \<and> (if r = None then length log = 64 \<and> heap = Some (0x444444440000, 262144)
       else length log < 64 \<and> heap = None)"
proof -
  from assms(4) obtain r0 m1 a1 where run: "map_pages alloc map_to heap_pages m a = Inr (r0, log, m', a')"
    and r: "r = r0" "heap = (if r0 = None then Some (heap_start, heap_size) else None)"
    by (auto simp: init_heap_def bind_res_eq_Inr split: option.splits)
  have flags: "heap_flags = 3" by (simp add: heap_flags_def)
  have "unat ((heap_start + of_nat heap_size - 1) div 4096) - unat (heap_start div 4096) + 1 = 64"
    by (simp add: heap_start_def heap_size_def)
  then have pages: "heap_pages = map (\<lambda>k. 0x444444440000 + 0x1000 * of_nat k) [0..<64]"
    unfolding heap_pages_def by (simp only: heap_start_def of_nat_mult of_nat_numeral)
  have len: "length heap_pages = 64"
    unfolding pages length_map length_upt by (rule diff_zero)
  note log = map_pages_log [OF run]
  have "length log \<le> length heap_pages"
    using log by (metis length_map length_take min.bounded_iff nle_le)
  moreover obtain fs where fs: "ok a'" "given a' = given a @ fs" "set (map (fst \<circ> snd) log) \<subseteq> set fs"
    and "distinct (map (fst \<circ> snd) log)"
    using frame_source.map_pages_frames [OF assms(1-3) run] by blast
  moreover have "set (map (fst \<circ> snd) log) \<inter> set (given a) = {}"
    using frame_source.given_distinct [OF assms(1) fs(1)] fs(2,3) by auto
  ultimately show ?thesis
    using log pages len flags r by (auto simp: heap_start_def heap_size_def)
qed

theorem heap_mapped_witness:
  "\<exists>log s. init_heap (allocate_frame page_number) direct_map () (init_frame_allocator sample_map)
        = Inr (None, log, Some (0x444444440000, 262144), (), s)
     \<and> length log = 64 \<and> distinct (map (fst \<circ> snd) log)"
proof -
  let ?s = "init_frame_allocator sample_map"
  obtain log s where run: "init_heap (allocate_frame page_number) direct_map () ?s
      = Inr (None, log, Some (heap_start, heap_size), (), s)"
    using sample_heap by blast
  have only: "takes_only ok given direct_map" for ok :: "frame_allocator \<Rightarrow> bool" and given :: "frame_allocator \<Rightarrow> u64 list"
    by (auto simp: takes_only_def)
  have ok: "memory_map ?s = sample_map" by (simp add: init_frame_allocator_def)
  from heap_mapped [OF sample.boot.frame_source_axioms only ok run] run
  show ?thesis by (auto simp: heap_start_def heap_size_def)
qed

end
