(* ===== verification/Gdt.thy ===== *)
theory Gdt
  imports Rust_Prelude
begin

text \<open>
  Segments: \<^verbatim>\<open>src/src/gdt.rs\<close>. The descriptor table is the \<^verbatim>\<open>x86_64\<close> crate's: its constructor, its
  \<^verbatim>\<open>append\<close> (which panics on a full table) and the constructors of descriptors are a
  parameter. What the code relies on, that \<^verbatim>\<open>append\<close> returns the selector of the appended
  descriptor and leaves the other entries, is the hypothesis \<open>keeps_entries\<close>.
\<close>

definition double_fault_ist_index :: nat where
  "double_fault_ist_index = 0"

definition stack_size :: nat where
  "stack_size = 4096 * 5"

record tss =
  interrupt_stack_table :: "u64 list"

text \<open>\<^verbatim>\<open>TaskStateSegment::new()\<close>, whose seven entries are zero, with the top of the double
  fault's stack; \<open>stack\<close> is the address of the static array, and the sum is
  \<^verbatim>\<open>VirtAddr + u64\<close>, checked.\<close>

definition new_tss :: tss where
  "new_tss = \<lparr>interrupt_stack_table = replicate 7 0\<rparr>"

definition kernel_tss :: "u64 \<Rightarrow> tss res" where
  "kernel_tss stack =
     bind_res (checked_add stack (of_nat stack_size)) (\<lambda>top.
       Inr (new_tss\<lparr>interrupt_stack_table := (interrupt_stack_table new_tss)[double_fault_ist_index := top]\<rparr>))"

record ('t, 'd, 's) gdt_crate =
  gdt_new :: 't
  gdt_append :: "'t \<Rightarrow> 'd \<Rightarrow> ('s \<times> 't) res"
  kernel_code_segment :: 'd
  kernel_data_segment :: 'd
  tss_segment :: "tss \<Rightarrow> 'd"

record 's selectors =
  code_selector :: 's
  data_selector :: 's
  tss_selector :: 's

definition build_gdt :: "('t, 'd, 's) gdt_crate \<Rightarrow> tss \<Rightarrow> ('t \<times> 's selectors) res" where
  "build_gdt g t =
     bind_res (gdt_append g (gdt_new g) (kernel_code_segment g)) (\<lambda>(code, gdt).
     bind_res (gdt_append g gdt (kernel_data_segment g)) (\<lambda>(data, gdt).
     bind_res (gdt_append g gdt (tss_segment g t)) (\<lambda>(sel, gdt).
       Inr (gdt, \<lparr>code_selector = code, data_selector = data, tss_selector = sel\<rparr>))))"

record ('t, 's) segments =
  gdtr :: 't
  cs_reg :: 's
  ss_reg :: 's
  ds_reg :: 's
  es_reg :: 's
  task_reg :: 's

text \<open>\<^verbatim>\<open>gdt::init\<close>: the registers after it.\<close>

definition gdt_init :: "('t, 'd, 's) gdt_crate \<Rightarrow> u64 \<Rightarrow> ('t, 's) segments res" where
  "gdt_init g stack =
     bind_res (kernel_tss stack) (\<lambda>t.
     bind_res (build_gdt g t) (\<lambda>(gdt, sel).
       Inr \<lparr>gdtr = gdt, cs_reg = code_selector sel, ss_reg = data_selector sel,
            ds_reg = data_selector sel, es_reg = data_selector sel, task_reg = tss_selector sel\<rparr>))"

subsection \<open>What the crate promises\<close>

definition keeps_entries :: "('t, 'd, 's) gdt_crate \<Rightarrow> ('t \<Rightarrow> 's \<Rightarrow> 'd option) \<Rightarrow> bool" where
  "keeps_entries g entry =
     (\<forall>t d s t'. gdt_append g t d = Inr (s, t') \<longrightarrow>
        entry t' s = Some d \<and> (\<forall>s'. entry t s' \<noteq> None \<longrightarrow> entry t' s' = entry t s'))"

lemma keeps_entriesD:
  assumes "keeps_entries g entry" "gdt_append g t d = Inr (s, t')"
  shows "entry t' s = Some d" "entry t s' = Some d' \<Longrightarrow> entry t' s' = Some d'"
  using assms unfolding keeps_entries_def by (metis option.distinct(1))+

text \<open>A table as the processor has it, for the examples: the null descriptor first, a selector is
  eight times the index, and the TSS descriptor takes two entries. Eight entries fit.\<close>

datatype slot = Null | Code | Data | Tss tss | Tss_High

fun table_append :: "slot list \<Rightarrow> slot \<Rightarrow> (u16 \<times> slot list) res" where
  "table_append t d =
     (let new = (case d of Tss _ \<Rightarrow> [d, Tss_High] | _ \<Rightarrow> [d])
      in if length t + length new \<le> 8 then Inr (8 * of_nat (length t), t @ new)
         else Inl (Panic ''GDT full''))"

definition table_crate :: "(slot list, slot, u16) gdt_crate" where
  "table_crate = \<lparr>gdt_new = [Null], gdt_append = table_append, kernel_code_segment = Code,
     kernel_data_segment = Data, tss_segment = Tss\<rparr>"

definition table_entry :: "slot list \<Rightarrow> u16 \<Rightarrow> slot option" where
  "table_entry t s = (if unat s div 8 < length t then Some (t ! (unat s div 8)) else None)"

lemma table_keeps: "keeps_entries table_crate table_entry"
  unfolding keeps_entries_def
proof (intro allI impI)
  fix t d s t' assume a: "gdt_append table_crate t d = Inr (s, t')"
  define new where "new = (case d of Tss _ \<Rightarrow> [d, Tss_High] | _ \<Rightarrow> [d])"
  have n: "new \<noteq> []" "hd new = d" by (simp_all add: new_def split: slot.split)
  from a have len: "length t + length new \<le> 8" and s: "s = 8 * of_nat (length t)" and t': "t' = t @ new"
    by (auto simp: table_crate_def new_def Let_def split: if_splits)
  have "length t \<le> 8" using len by simp
  then have "unat (8 * of_nat (length t) :: u16) = 8 * length t"
    by (simp add: unat_word_ariths unat_of_nat)
  then have "table_entry t' s = Some d"
    using n by (cases new) (simp_all add: table_entry_def s t')
  then show "table_entry t' s = Some d \<and> (\<forall>s'. table_entry t s' \<noteq> None \<longrightarrow> table_entry t' s' = table_entry t s')"
    by (auto simp: table_entry_def t' nth_append split: if_splits)
qed

lemma table_gdt:
  "\<exists>r. gdt_init table_crate 0x270000 = Inr r \<and> cs_reg r = 8 \<and> ds_reg r = 16 \<and> task_reg r = 24"
proof -
  have seven: "replicate 7 (0 :: u64) = 0 # replicate 6 0" by (simp flip: replicate_Suc)
  have "kernel_tss 0x270000 = Inr \<lparr>interrupt_stack_table = 0x275000 # replicate 6 0\<rparr>"
    by (simp add: kernel_tss_def checked_add_def stack_size_def new_tss_def double_fault_ist_index_def seven)
  then show ?thesis by (simp add: gdt_init_def build_gdt_def table_crate_def Let_def)
qed

subsection \<open>Properties\<close>

text \<open>C30. The segment registers are right, and a double fault has a stack: after \<^verbatim>\<open>gdt::init\<close> CS
  selects the kernel's code descriptor in the loaded table, SS, DS and ES its data
  descriptor, the task register the TSS, and the TSS entry that the double fault handler
  names is the end of its own 20 KiB stack.\<close>

theorem segments_loaded:
  assumes "keeps_entries g entry" "gdt_init g stack = Inr r"
  shows "entry (gdtr r) (cs_reg r) = Some (kernel_code_segment g)
    \<and> (\<forall>s\<in>{ss_reg r, ds_reg r, es_reg r}. entry (gdtr r) s = Some (kernel_data_segment g))
    \<and> (\<exists>t. entry (gdtr r) (task_reg r) = Some (tss_segment g t)
        \<and> unat (interrupt_stack_table t ! double_fault_ist_index) = unat stack + 20480)"
proof -
  from assms(2) obtain t gdt sel where t: "kernel_tss stack = Inr t" and b: "build_gdt g t = Inr (gdt, sel)"
    and r: "r = \<lparr>gdtr = gdt, cs_reg = code_selector sel, ss_reg = data_selector sel,
      ds_reg = data_selector sel, es_reg = data_selector sel, task_reg = tss_selector sel\<rparr>"
    by (auto simp: gdt_init_def bind_res_eq_Inr)
  from b obtain code g1 data g2 ts where
    a: "gdt_append g (gdt_new g) (kernel_code_segment g) = Inr (code, g1)"
      "gdt_append g g1 (kernel_data_segment g) = Inr (data, g2)"
      "gdt_append g g2 (tss_segment g t) = Inr (ts, gdt)"
    and sel: "sel = \<lparr>code_selector = code, data_selector = data, tss_selector = ts\<rparr>"
    by (auto simp: build_gdt_def bind_res_eq_Inr)
  note k = keeps_entriesD [OF assms(1)]
  have "entry gdt code = Some (kernel_code_segment g)"
    by (intro k(2) [OF a(3)] k(2) [OF a(2)] k(1) [OF a(1)])
  moreover have "entry gdt data = Some (kernel_data_segment g)"
    by (intro k(2) [OF a(3)] k(1) [OF a(2)])
  moreover have "entry gdt ts = Some (tss_segment g t)" by (rule k(1) [OF a(3)])
  moreover from t obtain top where top: "checked_add stack (of_nat stack_size) = Inr top"
    and "interrupt_stack_table t ! double_fault_ist_index = top"
    by (auto simp: kernel_tss_def bind_res_eq_Inr new_tss_def double_fault_ist_index_def)
  moreover have "unat (of_nat stack_size :: u64) = 20480" by (simp add: stack_size_def)
  ultimately show ?thesis using checked_add_InrD [OF top] by (auto simp: r sel)
qed

theorem segments_loaded_witness:
  "\<exists>r. gdt_init table_crate 0x270000 = Inr r \<and> cs_reg r = 8 \<and> ds_reg r = 16 \<and> task_reg r = 24
     \<and> table_entry (gdtr r) (cs_reg r) = Some Code"
proof -
  obtain r where i: "gdt_init table_crate 0x270000 = Inr r" "cs_reg r = 8" "ds_reg r = 16" "task_reg r = 24"
    using table_gdt by blast
  have "kernel_code_segment table_crate = Code" by (simp add: table_crate_def)
  with i segments_loaded [OF table_keeps i(1)] show ?thesis by auto
qed

end
