(* ===== verification/Boot.thy ===== *)
theory Boot
  imports Kernel Memory Display Gdt
begin

text \<open>
  The way from the entry point to the main loop: \<^verbatim>\<open>kernel_main\<close> of \<^verbatim>\<open>src/src/main.rs\<close>, with
  \<^verbatim>\<open>memory::init\<close>, as a sequence of steps on the machine. A step may panic, and then the rest does
  not happen. The functions of the crates are the parameter \<open>crates\<close>, what the machine presents
  (addresses, the register CR3, the processor's text of a stack frame) is \<open>setting\<close>.
\<close>

unbundle bit_operations_syntax

record ('t, 'd, 's, 'v, 'f, 'm, 'e) crates =
  gdt_api :: "('t, 'd, 's) gdt_crate"
  virt_new :: "u64 \<Rightarrow> 'v res"
  virt_add :: "'v \<Rightarrow> u64 \<Rightarrow> 'v res"
  offset_page_table :: "'v \<Rightarrow> 'v \<Rightarrow> 'm"
  frame_containing :: "u64 \<Rightarrow> 'f res"
  map_to :: "('f, 'm, frame_allocator, 'e) mapper"
  show_map_error :: "'e map_error \<Rightarrow> string"

record setting =
  fault_stack :: u64
  cr3_start :: u64
  frame_text :: string
  box_address :: nat
  layout_text :: string

record ('t, 's, 'm) boot_machine =
  cr0 :: u64
  bm_segments :: "('t, 's) segments option"
  bm_idt :: "(u8 \<Rightarrow> handler option) option"
  bm_pics :: "(u8 \<times> u8 \<times> u8 \<times> u8) option"
  interrupts_on :: bool
  bm_uart :: "(u8 \<times> u8) option"
  bm_serial :: string
  bm_screen :: writer
  bm_mapper :: "'m option"
  bm_heap :: "(u64 \<times> nat) option"
  bm_kernel :: "kernel option"

type_synonym ('t, 's, 'm) boot_step = "('t, 's, 'm) boot_machine \<Rightarrow> ('t, 's, 'm) boot_machine res"

subsection \<open>The steps\<close>

text \<open>The serial port is set up when it is first used: its registers for interrupts (0x3F9) and for
  the modem lines (0x3FC), as \<^verbatim>\<open>SERIAL1\<close> leaves them.\<close>

definition serial1 :: "u8 \<times> u8" where
  "serial1 = (0x01, 0x0B)"

fun uses_serial :: "out \<Rightarrow> bool" where
  "uses_serial (Serial s) = True"
| "uses_serial _ = False"

definition print_out :: "out list \<Rightarrow> ('t, 's, 'm) boot_step" where
  "print_out os m =
     bind_res (fold_res draw os (bm_screen m)) (\<lambda>w.
       Inr (m\<lparr>bm_uart := (if bm_uart m = None \<and> list_ex uses_serial os then Some serial1 else bm_uart m),
              bm_serial := bm_serial m @ serial_text os, bm_screen := w\<rparr>))"

abbreviation say_serial :: "string \<Rightarrow> ('t, 's, 'm) boot_step" where
  "say_serial s \<equiv> print_out [Serial (s @ [lf])]"

text \<open>Bit 16 of CR0 is \<^verbatim>\<open>WRITE_PROTECT\<close>.\<close>

definition clear_write_protect :: "('t, 's, 'm) boot_step" where
  "clear_write_protect m = Inr (m\<lparr>cr0 := cr0 m AND NOT 0x10000\<rparr>)"

definition set_write_protect :: "('t, 's, 'm) boot_step" where
  "set_write_protect m = Inr (m\<lparr>cr0 := cr0 m OR 0x10000\<rparr>)"

definition init_screen :: "frame_buffer_info \<Rightarrow> ('t, 's, 'm) boot_step" where
  "init_screen fb m = bind_res (vga_init fb (bm_screen m)) (\<lambda>w. Inr (m\<lparr>bm_screen := w\<rparr>))"

definition load_gdt :: "('t, 'd, 's, 'v, 'f, 'm, 'e) crates \<Rightarrow> setting \<Rightarrow> ('t, 's, 'm) boot_step" where
  "load_gdt c h m = bind_res (gdt_init (gdt_api c) (fault_stack h)) (\<lambda>r. Inr (m\<lparr>bm_segments := Some r\<rparr>))"

definition load_idt :: "('t, 's, 'm) boot_step" where
  "load_idt m = Inr (m\<lparr>bm_idt := Some idt\<rparr>)"

definition init_pics :: "('t, 's, 'm) boot_step" where
  "init_pics m = Inr (m\<lparr>bm_pics := Some (pic_1_offset, pic_2_offset, fst pic_masks, snd pic_masks)\<rparr>)"

text \<open>The breakpoint of the self-test. Without a handler the processor would reset.\<close>

definition int3 :: "setting \<Rightarrow> ('t, 's, 'm) boot_step" where
  "int3 h m =
     (case Option.bind (bm_idt m) (\<lambda>table. table 3) of
        Some Breakpoint_Handler \<Rightarrow> print_out (breakpoint_handler (frame_text h)) m
      | _ \<Rightarrow> Inl (Panic ''triple fault''))"

text \<open>\<^verbatim>\<open>memory::init\<close> and \<^verbatim>\<open>active_level_4_table\<close>; the table at an address is the crate's.\<close>

definition active_level_4_table :: "('t, 'd, 's, 'v, 'f, 'm, 'e) crates \<Rightarrow> setting \<Rightarrow> 'v \<Rightarrow> 'v res" where
  "active_level_4_table c h offset = virt_add c offset (cr3_start h)"

definition memory_init :: "('t, 'd, 's, 'v, 'f, 'm, 'e) crates \<Rightarrow> setting \<Rightarrow> u64 \<Rightarrow> 'm res" where
  "memory_init c h off =
     bind_res (virt_new c off) (\<lambda>offset.
     bind_res (active_level_4_table c h offset) (\<lambda>l4. Inr (offset_page_table c l4 offset)))"

definition set_up_heap :: "('t, 'd, 's, 'v, 'f, 'm, 'e) crates \<Rightarrow> setting \<Rightarrow> boot_info \<Rightarrow> ('t, 's, 'm) boot_step" where
  "set_up_heap c h bi m =
     bind_res (memory_init c h (physical_memory_offset bi)) (\<lambda>mapper.
     bind_res (init_heap (allocate_frame (frame_containing c)) (map_to c) mapper
                 (init_frame_allocator (bi_memory_map bi))) (\<lambda>(r, log, hp, mapper, a).
       case r of
         Some e \<Rightarrow> Inl (Panic (''heap initialization failed: '' @ show_map_error c e))
       | None \<Rightarrow> Inr (m\<lparr>bm_mapper := Some mapper, bm_heap := hp\<rparr>)))"

text \<open>An allocation while the allocator has no memory ends in \<^verbatim>\<open>alloc_error\<close>.\<close>

definition alloc_error :: "setting \<Rightarrow> panic" where
  "alloc_error h = Panic (''allocation failed: '' @ layout_text h)"

definition show_list :: "nat list \<Rightarrow> string" where
  "show_list ns = ''['' @ join '', '' (map show_nat ns) @ '']''"

definition smoke_test :: "setting \<Rightarrow> ('t, 's, 'm) boot_step" where
  "smoke_test h m =
     (case bm_heap m of
        None \<Rightarrow> Inl (alloc_error h)
      | Some _ \<Rightarrow> print_out
          [Serial (''[OK] Box<u64>  = '' @ show_hex_alt 0xdeadbeef @ ''  (@ '' @ show_hex_alt (box_address h) @ '')'' @ [lf]),
           Serial (''[OK] Vec<u32>  = '' @ show_list (map (\<lambda>i. i * i) [0..<8]) @ [lf]),
           Serial (''[OK] String    = '' @ [CHR 0x22] @ ''hello from the kernel heap'' @ [CHR 0x22] @ [lf])] m)"

definition start_scheduler :: "('t, 's, 'm) boot_step" where
  "start_scheduler m =
     bind_res booted_kernel (\<lambda>k.
       print_out [Serial (''[OK] scheduler: '' @ show_nat (task_count (k_sched k)) @ '' task slots populated'' @ [lf]),
                  Screen (''[OK] scheduler ready'' @ [lf])]
         (m\<lparr>bm_kernel := Some k\<rparr>))"

definition start_shell :: "setting \<Rightarrow> ('t, 's, 'm) boot_step" where
  "start_shell h m =
     (case (bm_kernel m, bm_heap m) of
        (Some k, Some _) \<Rightarrow> print_out (shell_init k) m
      | _ \<Rightarrow> Inl (alloc_error h))"

definition enable_interrupts :: "('t, 's, 'm) boot_step" where
  "enable_interrupts m = Inr (m\<lparr>interrupts_on := True\<rparr>)"

text \<open>The invitation, on the screen only.\<close>

definition focus_says :: "out list" where
  "focus_says = [Screen (''focus this window and type: help'' @ [lf])]"

text \<open>\<^verbatim>\<open>kernel_main\<close> up to \<^verbatim>\<open>scheduler::run\<close>; the two characters outside ASCII are in UTF-8.\<close>

definition boot_steps ::
  "('t, 'd, 's, 'v, 'f, 'm, 'e) crates \<Rightarrow> setting \<Rightarrow> boot_info \<Rightarrow> ('t, 's, 'm) boot_step list" where
  "boot_steps c h bi =
     [clear_write_protect,
      init_screen (framebuffer bi),
      say_serial ''open_kernel booting...'',
      load_gdt c h,
      say_serial ''[OK] GDT + TSS'',
      load_idt,
      say_serial ''[OK] IDT'',
      init_pics,
      say_serial (''[OK] PIC  (IRQs '' @ [CHR 0xE2, CHR 0x86, CHR 0x92] @ '' IDT[32..47])''),
      int3 h,
      say_serial ''[OK] exception handling'',
      set_up_heap c h bi,
      set_write_protect,
      say_serial (''[OK] heap   ('' @ show_nat (heap_size div 1024) @ '' KiB at '' @ show_hex_alt (unat heap_start) @ '')''),
      smoke_test h,
      say_serial (''[  ] memory map: '' @ show_nat (length (map_iter (bi_memory_map bi))) @ '' regions''),
      start_scheduler,
      say_serial ''[OK] scheduler initialized'',
      start_shell h,
      enable_interrupts,
      say_serial (''[OK] interrupts enabled '' @ [CHR 0xE2, CHR 0x80, CHR 0x94] @ '' scheduler running''),
      print_out focus_says]"

definition kernel_main ::
  "('t, 'd, 's, 'v, 'f, 'm, 'e) crates \<Rightarrow> setting \<Rightarrow> boot_info \<Rightarrow> ('t, 's, 'm) boot_step" where
  "kernel_main c h bi = fold_res (\<lambda>step. step) (boot_steps c h bi)"

text \<open>The machine as the bootloader leaves it.\<close>

definition at_entry :: "u64 \<Rightarrow> (nat \<Rightarrow> u8) \<Rightarrow> ('t, 's, 'm) boot_machine" where
  "at_entry c0 mem =
     \<lparr>cr0 = c0, bm_segments = None, bm_idt = None, bm_pics = None, interrupts_on = False, bm_uart = None, bm_serial = [],
      bm_screen = new_writer mem, bm_mapper = None, bm_heap = None, bm_kernel = None\<rparr>"

text \<open>\<^verbatim>\<open>panic\<close>: the message on both consoles, then the processor halts for ever. The text of a
  \<^verbatim>\<open>PanicInfo\<close> (place and message) is the crate core's.\<close>

definition panic_output :: "string \<Rightarrow> out list" where
  "panic_output info = [Serial (''KERNEL PANIC: '' @ info @ [lf]), Screen (''KERNEL PANIC: '' @ info @ [lf])]"

subsection \<open>Running the steps\<close>

definition uart_used :: "(u8 \<times> u8) option \<Rightarrow> (u8 \<times> u8) option" where
  "uart_used u = (if u = None then Some serial1 else u)"

lemma uart_used_simps [simp]: "uart_used None = Some serial1" "uart_used (Some x) = Some x"
  by (simp_all add: uart_used_def)

lemma print_serial [simp]:
  "print_out [Serial s] m = Inr (m\<lparr>bm_uart := uart_used (bm_uart m), bm_serial := bm_serial m @ s\<rparr>)"
  by (simp add: print_out_def uart_used_def)

lemma print_serials [simp]:
  "print_out [Serial a, Serial b, Serial c] m =
     Inr (m\<lparr>bm_uart := uart_used (bm_uart m), bm_serial := bm_serial m @ a @ b @ c\<rparr>)"
  by (simp add: print_out_def uart_used_def)

text \<open>Once the port is set up, printing leaves it alone.\<close>

lemma print_drawn:
  "fold_res draw os w = Inr w' \<Longrightarrow> bm_screen m = w \<Longrightarrow> bm_uart m = Some u \<Longrightarrow>
     print_out os m = Inr (m\<lparr>bm_serial := bm_serial m @ serial_text os, bm_screen := w'\<rparr>)"
  by (simp add: print_out_def)

definition scheduler_says :: "out list" where
  "scheduler_says = [Serial (''[OK] scheduler: 4 task slots populated'' @ [lf]), Screen (''[OK] scheduler ready'' @ [lf])]"

lemma start_scheduler_eq: "start_scheduler m = print_out scheduler_says (m\<lparr>bm_kernel := Some booted\<rparr>)"
proof -
  have "task_count booted_scheduler = 4" by code_simp
  moreover have "show_nat 4 = ''4''" by code_simp
  ultimately show ?thesis
    by (simp add: start_scheduler_def booted_kernel_eq booted_def scheduler_says_def)
qed

lemma squares_text: "show_list (map (\<lambda>i. i * i) [0..<8]) = ''[0, 1, 4, 9, 16, 25, 36, 49]''"
  by code_simp

lemma box_text: "show_hex_alt 0xdeadbeef = ''0xdeadbeef''"
  by (simp add: show_hex_alt_def show_hex.simps hex_char_def char_of_def bit_iff_odd)

lemma smoke_test_eq:
  "bm_heap m = Some hp \<Longrightarrow> smoke_test h m = Inr (m\<lparr>bm_uart := uart_used (bm_uart m), bm_serial := bm_serial m
     @ (''[OK] Box<u64>  = '' @ ''0xdeadbeef'' @ ''  (@ '' @ show_hex_alt (box_address h) @ '')'' @ [lf])
     @ (''[OK] Vec<u32>  = '' @ ''[0, 1, 4, 9, 16, 25, 36, 49]'' @ [lf])
     @ (''[OK] String    = '' @ [CHR 0x22] @ ''hello from the kernel heap'' @ [CHR 0x22] @ [lf])\<rparr>)"
  by (simp only: smoke_test_def option.case print_serials squares_text box_text)

lemma heap_text: "show_nat (heap_size div 1024) = ''256''" "show_hex_alt (unat heap_start) = ''0x444444440000''"
  by (simp_all add: heap_size_def heap_start_def show_nat.simps digit_char_def show_hex_alt_def show_hex.simps
      hex_char_def char_of_def bit_iff_odd)

lemma boot_screen_dark: "dark (breakpoint_handler t)" "dark scheduler_says" "dark (shell_init k)" "dark focus_says"
  by (simp_all add: breakpoint_handler_def scheduler_says_def shell_init_def print_prompt_def focus_says_def)

lemma t_outs_screen:
  "screen_text os = s \<Longrightarrow> Clear_Screen \<notin> set os \<Longrightarrow> (\<forall>fg bg. Set_Colors fg bg \<notin> set os)
    \<Longrightarrow> fold t_out os t = fold t_byte (map of_char s) t"
proof (induction os arbitrary: s t)
  case (Cons out os)
  then show ?case by (cases out) auto
qed simp

text \<open>The screen after the four outputs.\<close>

lemma boot_draws:
  assumes "displays fb w0 (t_start fb)" "fb_ok fb"
  obtains w1 w2 w3 w4 where "fold_res draw (breakpoint_handler x) w0 = Inr w1"
    "fold_res draw scheduler_says w1 = Inr w2" "fold_res draw (shell_init booted) w2 = Inr w3"
    "fold_res draw focus_says w3 = Inr w4" "\<forall>i\<ge>byte_len fb. vram w4 i = vram w0 i"
    "displays fb w4 (fold t_byte (map of_char
       (''EXCEPTION: BREAKPOINT'' @ [lf] @ ''[OK] scheduler ready'' @ [lf] @ ''open_kernel shell ready'' @ [lf]
        @ ''root:/> focus this window and type: help'' @ [lf])) (t_start fb))"
proof -
  from draw_all_displays [OF assms boot_screen_dark(1) [of x]] obtain w1 where
    1: "fold_res draw (breakpoint_handler x) w0 = Inr w1" "\<forall>i\<ge>byte_len fb. vram w1 i = vram w0 i"
      "displays fb w1 (fold t_out (breakpoint_handler x) (t_start fb))" by blast
  from draw_all_displays [OF 1(3) assms(2) boot_screen_dark(2)] obtain w2 where
    2: "fold_res draw scheduler_says w1 = Inr w2" "\<forall>i\<ge>byte_len fb. vram w2 i = vram w1 i"
      "displays fb w2 (fold t_out scheduler_says (fold t_out (breakpoint_handler x) (t_start fb)))" by blast
  from draw_all_displays [OF 2(3) assms(2) boot_screen_dark(3) [of booted]] obtain w3 where
    3: "fold_res draw (shell_init booted) w2 = Inr w3" "\<forall>i\<ge>byte_len fb. vram w3 i = vram w2 i"
      "displays fb w3 (fold t_out (shell_init booted)
         (fold t_out scheduler_says (fold t_out (breakpoint_handler x) (t_start fb))))" by blast
  from draw_all_displays [OF 3(3) assms(2) boot_screen_dark(4)] obtain w4 where
    4: "fold_res draw focus_says w3 = Inr w4" "\<forall>i\<ge>byte_len fb. vram w4 i = vram w3 i"
      "displays fb w4 (fold t_out focus_says (fold t_out (shell_init booted)
         (fold t_out scheduler_says (fold t_out (breakpoint_handler x) (t_start fb)))))" by blast
  let ?os = "breakpoint_handler x @ scheduler_says @ shell_init booted @ focus_says"
  have "fold t_out ?os (t_start fb) = fold t_byte (map of_char (screen_text ?os)) (t_start fb)"
    by (rule t_outs_screen)
      (simp_all add: breakpoint_handler_def scheduler_says_def shell_init_def print_prompt_def focus_says_def both_def)
  moreover have "screen_text ?os = ''EXCEPTION: BREAKPOINT'' @ [lf] @ ''[OK] scheduler ready'' @ [lf]
      @ ''open_kernel shell ready'' @ [lf] @ ''root:/> focus this window and type: help'' @ [lf]"
    by (simp add: breakpoint_handler_def scheduler_says_def shell_init_def print_prompt_def focus_says_def both_def
        booted_def init_vfs_def get_current_directory_def)
  ultimately have "displays fb w4 (fold t_byte (map of_char
       (''EXCEPTION: BREAKPOINT'' @ [lf] @ ''[OK] scheduler ready'' @ [lf] @ ''open_kernel shell ready'' @ [lf]
        @ ''root:/> focus this window and type: help'' @ [lf])) (t_start fb))"
    using 4(3) by (simp only: fold_append o_apply)
  with 1 2 3 4 that show ?thesis by simp
qed

definition lines_ln :: "string list \<Rightarrow> string" where
  "lines_ln ls = concat (map (\<lambda>l. l @ [lf]) ls)"

text \<open>The serial line during start-up, as in the repository's \<^verbatim>\<open>serial.log\<close>, and the screen.\<close>

definition boot_transcript :: "setting \<Rightarrow> boot_info \<Rightarrow> string" where
  "boot_transcript h bi =
     lines_ln
       [''open_kernel booting...'',
        ''[OK] GDT + TSS'',
        ''[OK] IDT'',
        ''[OK] PIC  (IRQs '' @ [CHR 0xE2, CHR 0x86, CHR 0x92] @ '' IDT[32..47])'',
        ''EXCEPTION: BREAKPOINT'',
        frame_text h,
        ''[OK] exception handling'',
        ''[OK] heap   (256 KiB at 0x444444440000)'',
        ''[OK] Box<u64>  = 0xdeadbeef  (@ '' @ show_hex_alt (box_address h) @ '')'',
        ''[OK] Vec<u32>  = [0, 1, 4, 9, 16, 25, 36, 49]'',
        ''[OK] String    = '' @ [CHR 0x22] @ ''hello from the kernel heap'' @ [CHR 0x22],
        ''[  ] memory map: '' @ show_nat (length (map_iter (bi_memory_map bi))) @ '' regions'',
        ''[OK] scheduler: 4 task slots populated'',
        ''[OK] scheduler initialized'',
        ''[OK] shell ready'']
     @ ''root:/> '' @ lines_ln [''[OK] interrupts enabled '' @ [CHR 0xE2, CHR 0x80, CHR 0x94] @ '' scheduler running'']"

definition boot_screen_text :: string where
  "boot_screen_text =
     lines_ln [''EXCEPTION: BREAKPOINT'', ''[OK] scheduler ready'', ''open_kernel shell ready'',
       ''root:/> focus this window and type: help'']"

lemma boot_run:
  assumes fb: "address (framebuffer bi) \<noteq> 0" "fb_ok (framebuffer bi)"
      "stride (framebuffer bi) * height (framebuffer bi) * 4 < usize_bound"
    and gdt: "gdt_init (gdt_api c) (fault_stack h) = Inr r"
    and mapper: "memory_init c h (physical_memory_offset bi) = Inr mp"
    and heap: "init_heap (allocate_frame (frame_containing c)) (map_to c) mp (init_frame_allocator (bi_memory_map bi))
      = Inr (None, log, hp, mp', a)"
  shows "\<exists>m. kernel_main c h bi (at_entry c0 mem) = Inr m
    \<and> bm_kernel m = Some booted \<and> interrupts_on m
    \<and> bm_segments m = Some r \<and> bm_idt m = Some idt
    \<and> bm_pics m = Some (pic_1_offset, pic_2_offset, fst pic_masks, snd pic_masks)
    \<and> bm_uart m = Some serial1 \<and> bm_heap m = hp \<and> bm_mapper m = Some mp' \<and> cr0 m = (c0 AND NOT 0x10000) OR 0x10000
    \<and> bm_serial m = boot_transcript h bi
    \<and> (\<forall>i\<ge>byte_len (framebuffer bi). vram (bm_screen m) i = mem i)
    \<and> displays (framebuffer bi) (bm_screen m) (fold t_byte (map of_char boot_screen_text) (t_start (framebuffer bi)))"
proof -
  obtain w0 where w0: "vga_init (framebuffer bi) (new_writer mem) = Inr w0"
      "\<forall>i\<ge>byte_len (framebuffer bi). vram w0 i = mem i" "displays (framebuffer bi) w0 (t_start (framebuffer bi))"
    using displays_init [OF fb] by blast
  obtain w1 w2 w3 w4 where w: "fold_res draw (breakpoint_handler (frame_text h)) w0 = Inr w1"
    "fold_res draw scheduler_says w1 = Inr w2" "fold_res draw (shell_init booted) w2 = Inr w3"
    "fold_res draw focus_says w3 = Inr w4" "\<forall>i\<ge>byte_len (framebuffer bi). vram w4 i = vram w0 i"
    and shown: "displays (framebuffer bi) w4 (fold t_byte (map of_char boot_screen_text) (t_start (framebuffer bi)))"
    by (rule boot_draws [OF w0(3) fb(2)]) (simp add: boot_screen_text_def lines_ln_def)
  have hp: "hp \<noteq> None" using heap by (auto simp: init_heap_def bind_res_eq_Inr split: option.splits)
  then obtain x where x: "hp = Some x" by blast
  have three: "idt 3 = Some Breakpoint_Handler"
    by (simp add: idt_def pic_1_offset_def)
  note steps = clear_write_protect_def init_screen_def w0(1) load_gdt_def gdt load_idt_def init_pics_def int3_def three
    set_up_heap_def mapper heap set_write_protect_def start_scheduler_eq start_shell_def enable_interrupts_def
    print_drawn [OF w(1)] print_drawn [OF w(2)] print_drawn [OF w(3)] print_drawn [OF w(4)]
    smoke_test_eq [of _ x h] x
  define m where "m = projr (kernel_main c h bi (at_entry c0 mem))"
  have "kernel_main c h bi (at_entry c0 mem) = Inr m \<and> bm_kernel m = Some booted \<and> interrupts_on m
    \<and> bm_segments m = Some r \<and> bm_idt m = Some idt
    \<and> bm_pics m = Some (pic_1_offset, pic_2_offset, fst pic_masks, snd pic_masks)
    \<and> bm_uart m = Some serial1 \<and> bm_heap m = hp \<and> bm_mapper m = Some mp' \<and> cr0 m = (c0 AND NOT 0x10000) OR 0x10000 \<and> bm_screen m = w4
    \<and> bm_serial m =
        lines_ln [''open_kernel booting...'', ''[OK] GDT + TSS'', ''[OK] IDT'',
          ''[OK] PIC  (IRQs '' @ [CHR 0xE2, CHR 0x86, CHR 0x92] @ '' IDT[32..47])'']
        @ serial_text (breakpoint_handler (frame_text h))
        @ lines_ln [''[OK] exception handling'', ''[OK] heap   (256 KiB at 0x444444440000)'',
          ''[OK] Box<u64>  = 0xdeadbeef  (@ '' @ show_hex_alt (box_address h) @ '')'',
          ''[OK] Vec<u32>  = [0, 1, 4, 9, 16, 25, 36, 49]'',
          ''[OK] String    = '' @ [CHR 0x22] @ ''hello from the kernel heap'' @ [CHR 0x22],
          ''[  ] memory map: '' @ show_nat (length (map_iter (bi_memory_map bi))) @ '' regions'']
        @ serial_text scheduler_says @ lines_ln [''[OK] scheduler initialized'']
        @ serial_text (shell_init booted)
        @ lines_ln [''[OK] interrupts enabled '' @ [CHR 0xE2, CHR 0x80, CHR 0x94] @ '' scheduler running'']
        @ serial_text focus_says"
    unfolding m_def kernel_main_def boot_steps_def at_entry_def by (simp add: steps heap_text lines_ln_def)
  moreover have "bm_serial m = boot_transcript h bi"
    using calculation
    by (simp add: boot_transcript_def lines_ln_def breakpoint_handler_def scheduler_says_def shell_init_def
        print_prompt_def focus_says_def both_def booted_def init_vfs_def get_current_directory_def)
  ultimately show ?thesis using shown w(5) w0(2) by auto
qed

lemma boot_heap_fails:
  assumes fb: "address (framebuffer bi) \<noteq> 0" "fb_ok (framebuffer bi)"
      "stride (framebuffer bi) * height (framebuffer bi) * 4 < usize_bound"
    and gdt: "gdt_init (gdt_api c) (fault_stack h) = Inr r"
    and mapper: "memory_init c h (physical_memory_offset bi) = Inr mp"
    and heap: "init_heap (allocate_frame (frame_containing c)) (map_to c) mp (init_frame_allocator (bi_memory_map bi))
      = Inr (Some err, log, hp, mp', a)"
  shows "kernel_main c h bi (at_entry c0 mem) = Inl (Panic (''heap initialization failed: '' @ show_map_error c err))"
proof -
  obtain w0 where w0: "vga_init (framebuffer bi) (new_writer mem) = Inr w0"
      "displays (framebuffer bi) w0 (t_start (framebuffer bi))"
    using displays_init [OF fb] by blast
  from draw_all_displays [OF w0(2) fb(2) boot_screen_dark(1)] obtain w1 where
    w1: "fold_res draw (breakpoint_handler (frame_text h)) w0 = Inr w1" by blast
  have three: "idt 3 = Some Breakpoint_Handler"
    by (simp add: idt_def pic_1_offset_def)
  show ?thesis
    unfolding kernel_main_def boot_steps_def at_entry_def
    by (simp add: clear_write_protect_def init_screen_def w0(1) load_gdt_def gdt load_idt_def init_pics_def int3_def
        three print_drawn [OF w1] set_up_heap_def mapper heap)
qed

subsection \<open>Properties\<close>

text \<open>A small machine for the examples: addresses are numbers, frames page numbers.\<close>

definition sample_crates :: "(slot list, slot, u16, u64, u64, unit, unit) crates" where
  "sample_crates = \<lparr>gdt_api = table_crate, virt_new = Inr, virt_add = (\<lambda>v x. Inr (v + x)),
     offset_page_table = (\<lambda>_ _. ()), frame_containing = page_number, map_to = direct_map,
     show_map_error = (\<lambda>_. ''FrameAllocationFailed'')\<rparr>"

definition sample_setting :: setting where
  "sample_setting = \<lparr>fault_stack = 0x270000, cr3_start = 0x1000, frame_text = ''InterruptStackFrame'',
     box_address = 0x444444440000, layout_text = ''Layout''\<rparr>"

definition sample_boot_info :: "memory_map \<Rightarrow> boot_info" where
  "sample_boot_info mm = \<lparr>bi_memory_map = mm, physical_memory_offset = 0, framebuffer =
     \<lparr>address = 0x80000000, byte_len = 2048, width = 16, height = 32, stride = 16, pixel_format = Bgr\<rparr>\<rparr>"

lemma sample_fb:
  "address (framebuffer (sample_boot_info mm)) \<noteq> 0" "fb_ok (framebuffer (sample_boot_info mm))"
  "stride (framebuffer (sample_boot_info mm)) * height (framebuffer (sample_boot_info mm)) * 4 < usize_bound"
  by (simp_all add: sample_boot_info_def fb_ok_def fb_sane_def usize_bound_def)

lemma sample_gdt: "\<exists>r. gdt_init (gdt_api sample_crates) (fault_stack sample_setting) = Inr r"
  using table_gdt by (auto simp: sample_crates_def sample_setting_def)

lemma sample_memory_init: "memory_init sample_crates sample_setting off = Inr ()"
  by (simp add: memory_init_def active_level_4_table_def sample_crates_def)



text \<open>Start-up fails in one way only: on a usable framebuffer the kernel reaches the main loop
  exactly when the heap's pages can be mapped; when a frame is missing or a page cannot be
  mapped it panics with that error, and interrupts are never enabled.\<close>

theorem boot_fails_on_heap:
  assumes "address (framebuffer bi) \<noteq> 0" "fb_ok (framebuffer bi)"
      "stride (framebuffer bi) * height (framebuffer bi) * 4 < usize_bound"
    and "gdt_init (gdt_api c) (fault_stack h) = Inr r"
    and "memory_init c h (physical_memory_offset bi) = Inr mp"
    and "init_heap (allocate_frame (frame_containing c)) (map_to c) mp (init_frame_allocator (bi_memory_map bi))
      = Inr (result, log, hp, mp', a)"
  shows "kernel_main c h bi (at_entry c0 mem) = Inl p \<longleftrightarrow>
    (\<exists>err. result = Some err \<and> p = Panic (''heap initialization failed: '' @ show_map_error c err))"
proof (cases result)
  case None
  with assms(6) obtain m where "kernel_main c h bi (at_entry c0 mem) = Inr m"
    using boot_run [OF assms(1-5), of log hp mp' a c0 mem] by blast
  with None show ?thesis by simp
next
  case (Some err)
  with boot_heap_fails [OF assms(1-5), of err log hp mp' a] assms(6) show ?thesis by auto
qed

theorem boot_fails_on_heap_witness:
  "kernel_main sample_crates sample_setting (sample_boot_info new_map) (at_entry 0x80010033 (\<lambda>_. 0))
     = Inl (Panic ''heap initialization failed: FrameAllocationFailed'')"
proof -
  obtain r where r: "gdt_init (gdt_api sample_crates) (fault_stack sample_setting) = Inr r" using sample_gdt by blast
  have pages: "heap_pages = heap_start # tl heap_pages"
    by (simp add: heap_pages_def heap_start_def heap_size_def upt_conv_Cons)
  have "init_heap (allocate_frame page_number) direct_map () (init_frame_allocator new_map)
      = Inr (Some Frame_Allocation_Failed, [], None, (), \<lparr>memory_map = new_map, next_frame = 1\<rparr>)"
    unfolding init_heap_def
    by (subst pages) (simp add: allocate_frame_def init_frame_allocator_def usable_addrs_def add_usize_def fits_usize_def)
  then have hp: "init_heap (allocate_frame (frame_containing sample_crates)) (map_to sample_crates) ()
      (init_frame_allocator (bi_memory_map (sample_boot_info new_map)))
      = Inr (Some Frame_Allocation_Failed, [], None, (), \<lparr>memory_map = new_map, next_frame = 1\<rparr>)"
    by (simp add: sample_crates_def sample_boot_info_def)
  have "show_map_error sample_crates Frame_Allocation_Failed = ''FrameAllocationFailed''"
    by (simp add: sample_crates_def)
  then show ?thesis
    unfolding boot_fails_on_heap [OF sample_fb r sample_memory_init hp] by simp
qed

end
