(* ===== verification/Loader.thy ===== *)
theory Loader
  imports Boot_Info
begin

text \<open>
  The bootloader, \<^verbatim>\<open>src/bootloader/src/main.rs\<close>: reading \<^verbatim>\<open>kernel.elf\<close>, placing its LOAD
  segments, and building the boot information. The firmware's answers and the ELF parser
  (crates \<^verbatim>\<open>uefi\<close> and \<^verbatim>\<open>xmas_elf\<close>) are the fields of a record, the parameter of \<open>efi_main\<close>;
  physical memory is a function from addresses to bytes, and a raw-pointer write outside the
  pages the firmware allocated is a wild access. What is printed is in theory Loader_Console.
\<close>

unbundle bit_operations_syntax

subsection \<open>What the firmware and the parser answer\<close>

datatype segment_type = Load | Other_Segment | Unknown_Segment

record segment =
  seg_type :: segment_type
  physical_addr :: u64
  mem_size :: u64
  file_size :: u64
  offset :: u64

datatype gop_format = Gop_Rgb | Gop_Bgr | Gop_Other string

record memory_descriptor =
  ty :: u32
  phys_start :: u64
  page_count :: u64

record firmware =
  fw_open :: "bool option"
  fw_file_size :: nat
  fw_read :: "u8 list"
  fw_parse :: "u8 list \<Rightarrow> (segment list \<times> u64) option"
  fw_allocate :: "u64 \<Rightarrow> nat \<Rightarrow> u64 option"
  fw_resolution :: "nat \<times> nat"
  fw_stride :: nat
  fw_format :: gop_format
  fw_frame_buffer :: "u64 \<times> nat"
  fw_memory_map :: "memory_descriptor list"

datatype status = NOT_FOUND | INVALID_PARAMETER | DEVICE_ERROR

type_synonym memory = "nat \<Rightarrow> u8"

subsection \<open>First pass: the range to allocate\<close>

text \<open>\<^verbatim>\<open>ph.get_type().unwrap()\<close>: is it a LOAD segment?\<close>

definition is_load :: "segment \<Rightarrow> bool res" where
  "is_load ph =
     (case seg_type ph of
        Load \<Rightarrow> Inr True
      | Other_Segment \<Rightarrow> Inr False
      | Unknown_Segment \<Rightarrow> Inl (Panic ''called `Result::unwrap()` on an `Err` value''))"

fun load_range :: "segment list \<Rightarrow> u64 \<Rightarrow> u64 \<Rightarrow> (u64 \<times> u64) res" where
  "load_range [] load_min load_max = Inr (load_min, load_max)"
| "load_range (ph # phs) load_min load_max =
     bind_res (is_load ph) (\<lambda>load.
       if load then
         bind_res (checked_add (physical_addr ph) (mem_size ph)) (\<lambda>e.
           load_range phs (if physical_addr ph < load_min then physical_addr ph else load_min)
             (if e > load_max then e else load_max))
       else load_range phs load_min load_max)"

subsection \<open>Second pass: copying the segments\<close>

definition fill :: "nat \<Rightarrow> nat \<Rightarrow> u8 \<Rightarrow> memory \<Rightarrow> memory" where
  "fill start len v mem = (\<lambda>a. if start \<le> a \<and> a < start + len then v else mem a)"

definition copy_to :: "nat \<Rightarrow> u8 list \<Rightarrow> memory \<Rightarrow> memory" where
  "copy_to start src mem = (\<lambda>a. if start \<le> a \<and> a < start + length src then src ! (a - start) else mem a)"

text \<open>One LOAD segment; \<open>(lo, len)\<close> is the range the firmware allocated.\<close>

definition copy_segment :: "nat \<times> nat \<Rightarrow> u8 list \<Rightarrow> segment \<Rightarrow> memory \<Rightarrow> memory res" where
  "copy_segment pages elf ph mem =
     (if mem_size ph = 0 then Inr mem
      else
        bind_res (add_usize (unat (offset ph)) (unat (file_size ph))) (\<lambda>e.
          if e > length elf then Inl (Panic ''range end index out of range for slice'')
          else if fst pages \<le> unat (physical_addr ph)
                \<and> unat (physical_addr ph) + unat (file_size ph) \<le> fst pages + snd pages
          then Inr (copy_to (unat (physical_addr ph))
                     (take (unat (file_size ph)) (drop (unat (offset ph)) elf)) mem)
          else Inl (Wild_Access (unat (physical_addr ph)))))"

fun copy_segments :: "nat \<times> nat \<Rightarrow> u8 list \<Rightarrow> segment list \<Rightarrow> memory \<Rightarrow> memory res" where
  "copy_segments pages elf [] mem = Inr mem"
| "copy_segments pages elf (ph # phs) mem =
     bind_res (is_load ph) (\<lambda>load.
     bind_res (if load then copy_segment pages elf ph mem else Inr mem) (\<lambda>mem.
     copy_segments pages elf phs mem))"

text \<open>From the parsed headers to the loaded kernel: \<^verbatim>\<open>None\<close> when there is nothing to load.\<close>

definition load_segments ::
  "(u64 \<Rightarrow> nat \<Rightarrow> u64 option) \<Rightarrow> u8 list \<Rightarrow> segment list \<Rightarrow> memory \<Rightarrow> memory option res" where
  "load_segments allocate_pages elf phs mem =
     bind_res (load_range phs (- 1) 0) (\<lambda>(load_min, load_max).
       if load_min \<ge> load_max then Inr None
       else
         (let alloc_start = load_min AND NOT 0xFFF in
          bind_res (checked_add load_max 0xFFF) (\<lambda>e.
            let alloc_end = e AND NOT 0xFFF;
                total_pages = unat ((alloc_end - alloc_start) div 0x1000)
            in case allocate_pages alloc_start total_pages of
                 None \<Rightarrow> Inl (Panic ''Failed to allocate pages for kernel'')
               | Some alloc_addr \<Rightarrow>
                   bind_res (copy_segments (unat alloc_addr, total_pages * 0x1000) elf phs
                     (fill (unat alloc_addr) (total_pages * 0x1000) 0 mem)) (\<lambda>mem. Inr (Some mem)))))"

subsection \<open>The boot information\<close>

text \<open>UEFI memory type 7 is \<^verbatim>\<open>CONVENTIONAL\<close>.\<close>

definition region_of_descriptor :: "memory_descriptor \<Rightarrow> memory_region res" where
  "region_of_descriptor desc =
     bind_res (checked_mul (page_count desc) 4096) (\<lambda>n.
     bind_res (checked_add (phys_start desc) n) (\<lambda>e.
       Inr \<lparr>range = \<lparr>start_addr = phys_start desc, end_addr = e\<rparr>,
            region_type = (if ty desc = 7 then Usable else Reserved)\<rparr>))"

fun fill_memory_map :: "memory_descriptor list \<Rightarrow> memory_map \<Rightarrow> memory_map res" where
  "fill_memory_map [] m = Inr m"
| "fill_memory_map (desc # descs) m =
     bind_res (region_of_descriptor desc) (\<lambda>r. fill_memory_map descs (add_region r m))"

definition frame_buffer_of :: "firmware \<Rightarrow> frame_buffer_info res" where
  "frame_buffer_of fw =
     bind_res (case fw_format fw of
         Gop_Rgb \<Rightarrow> Inr Rgb
       | Gop_Bgr \<Rightarrow> Inr Bgr
       | Gop_Other name \<Rightarrow> Inl (Panic (''Unsupported GOP pixel format: '' @ name))) (\<lambda>fmt.
       Inr \<lparr>address = fst (fw_frame_buffer fw), byte_len = snd (fw_frame_buffer fw),
            width = fst (fw_resolution fw), height = snd (fw_resolution fw),
            stride = fw_stride fw, pixel_format = fmt\<rparr>)"

text \<open>After \<^verbatim>\<open>exit_boot_services\<close>: the boot information is filled in and the kernel entered.\<close>

definition hand_over ::
  "firmware \<Rightarrow> u64 \<Rightarrow> frame_buffer_info \<Rightarrow> memory \<Rightarrow> (status + u64 \<times> boot_info \<times> memory) res" where
  "hand_over fw entry fb mem =
     bind_res (fill_memory_map (fw_memory_map fw) new_map) (\<lambda>m.
       Inr (Inr (entry, \<lparr>bi_memory_map = m, physical_memory_offset = 0, framebuffer = fb\<rparr>, mem)))"

text \<open>The entry point: a status for the firmware, or the jump to the kernel with the boot
  information and the memory as loaded.\<close>

definition efi_main :: "firmware \<Rightarrow> memory \<Rightarrow> (status + u64 \<times> boot_info \<times> memory) res" where
  "efi_main fw mem =
     (case fw_open fw of
        None \<Rightarrow> Inr (Inl NOT_FOUND)
      | Some regular \<Rightarrow>
          if \<not> regular then Inr (Inl INVALID_PARAMETER)
          else if length (fw_read fw) \<noteq> fw_file_size fw then Inr (Inl DEVICE_ERROR)
          else
            (case fw_parse fw (fw_read fw) of
               None \<Rightarrow> Inl (Panic ''Failed to parse ELF'')
             | Some (phs, entry) \<Rightarrow>
                 bind_res (load_segments (fw_allocate fw) (fw_read fw) phs mem) (\<lambda>loaded.
                   case loaded of
                     None \<Rightarrow> Inr (Inl NOT_FOUND)
                   | Some mem \<Rightarrow>
                       bind_res (frame_buffer_of fw) (\<lambda>fb. hand_over fw entry fb mem))))"

subsection \<open>The range covers every segment\<close>

definition loads :: "segment list \<Rightarrow> segment list" where
  "loads phs = filter (\<lambda>ph. seg_type ph = Load) phs"

abbreviation seg_start :: "segment \<Rightarrow> nat" where
  "seg_start ph \<equiv> unat (physical_addr ph)"

lemma load_range_Inr:
  assumes "load_range phs lo hi = Inr (a, b)"
  shows "a \<le> lo \<and> hi \<le> b \<and> list_all (\<lambda>ph. seg_type ph \<noteq> Unknown_Segment) phs
    \<and> (\<forall>ph\<in>set (loads phs). a \<le> physical_addr ph \<and> seg_start ph + unat (mem_size ph) \<le> unat b)"
  using assms
proof (induction phs arbitrary: lo hi)
  case Nil
  then show ?case by (simp add: loads_def)
next
  case (Cons ph phs)
  show ?case
  proof (cases "seg_type ph")
    case Load
    let ?p = "physical_addr ph"
    from Cons.prems Load obtain e where e: "checked_add ?p (mem_size ph) = Inr e"
      and rest: "load_range phs (if ?p < lo then ?p else lo) (if e > hi then e else hi) = Inr (a, b)"
      by (auto simp: is_load_def bind_res_eq_Inr)
    have le: "a \<le> (if ?p < lo then ?p else lo)" "(if e > hi then e else hi) \<le> b"
      using Cons.IH [OF rest] by auto
    have "a \<le> ?p" "a \<le> lo" using le(1) by (auto split: if_splits)
    moreover have "e \<le> b" "hi \<le> b" using le(2) by (auto split: if_splits)
    ultimately show ?thesis
      using Cons.IH [OF rest] Load checked_add_InrD [OF e] by (auto simp: loads_def word_le_nat_alt)
  next
    case Other_Segment
    with Cons show ?thesis by (auto simp: is_load_def loads_def)
  next
    case Unknown_Segment
    with Cons show ?thesis by (simp add: is_load_def)
  qed
qed

lemma unat_align_down: "unat (x AND NOT 0xFFF) = unat x div 4096 * 4096" for x :: u64
proof -
  have "x AND NOT 0xFFF = push_bit 12 (drop_bit 12 x)"
  proof -
    have m: "(0xFFF :: u64) = mask 12" by (simp add: mask_eq_exp_minus_1)
    have "x AND NOT (mask 12) = push_bit 12 (drop_bit 12 x)"
      by (auto intro!: bit_eqI simp: bit_simps)
    then show ?thesis unfolding m .
  qed
  then have "x AND NOT 0xFFF = x div 4096 * 4096"
    by (simp add: push_bit_eq_mult drop_bit_eq_div)
  moreover have "unat x < 2 ^ 64" using unsigned_less [of x] by simp
  then have "unat x div 4096 * 4096 < 2 ^ 64"
    by (rule le_less_trans [rotated]) simp
  ultimately show ?thesis by (simp add: unat_word_ariths unat_div)
qed

text \<open>The pages requested: from the page of the lowest address to the page end after the
  highest.\<close>

definition page_span :: "u64 \<Rightarrow> u64 \<Rightarrow> nat \<times> nat" where
  "page_span lo hi = (unat lo div 4096 * 4096, (unat hi + 4095) div 4096 * 4096 - unat lo div 4096 * 4096)"

lemma load_segments_eq:
  assumes "load_range phs (- 1) 0 = Inr (lo, hi)" "lo < hi" "unat hi + 4095 < 2 ^ 64"
    and "allocate_pages (lo AND NOT 0xFFF) (snd (page_span lo hi) div 4096) = Some a"
  shows "load_segments allocate_pages elf phs mem =
    bind_res (copy_segments (unat a, snd (page_span lo hi)) elf phs
      (fill (unat a) (snd (page_span lo hi)) 0 mem)) (\<lambda>mem. Inr (Some mem))"
proof -
  let ?e = "(hi + 0xFFF) AND NOT 0xFFF" and ?s = "lo AND NOT 0xFFF"
  have add: "checked_add hi 0xFFF = Inr (hi + 0xFFF)"
    using assms(3) by (simp add: checked_add_Inr_iff)
  have "unat (hi + 0xFFF) = unat hi + 4095" using checked_add_InrD [OF add] by simp
  then have e: "unat ?e = (unat hi + 4095) div 4096 * 4096" by (simp only: unat_align_down)
  have s: "unat ?s = unat lo div 4096 * 4096" by (rule unat_align_down)
  have "unat ?s \<le> unat ?e"
    using assms(2) unfolding e s by (intro mult_right_mono div_le_mono) (simp_all add: word_less_nat_alt)
  then have "?s \<le> ?e" unfolding word_le_nat_alt .
  then have "unat (?e - ?s) = unat ?e - unat ?s" by (rule unat_sub)
  then have diff: "unat (?e - ?s) = snd (page_span lo hi)" by (simp only: page_span_def e s snd_conv)
  have n: "unat ((?e - ?s) div 0x1000) = snd (page_span lo hi) div 4096"
    unfolding unat_div diff by simp
  have "snd (page_span lo hi) div 4096 * 4096 = snd (page_span lo hi)"
    by (simp add: page_span_def flip: diff_mult_distrib)
  moreover have "\<not> hi \<le> lo" using assms(2) by simp
  ultimately show ?thesis using assms add n by (simp add: load_segments_def Let_def)
qed

lemma page_span_covers:
  assumes "lo \<le> p" "unat p + n \<le> unat hi"
  shows "fst (page_span lo hi) \<le> unat p" "unat p + n \<le> fst (page_span lo hi) + snd (page_span lo hi)"
proof -
  have "unat lo div 4096 * 4096 \<le> unat lo" by simp
  then show "fst (page_span lo hi) \<le> unat p"
    using assms(1) by (simp add: page_span_def word_le_nat_alt)
  have "unat hi \<le> (unat hi + 4095) div 4096 * 4096"
    using div_mult_mod_eq [of "unat hi + 4095" 4096] mod_less_divisor [of 4096 "unat hi + 4095"] by linarith
  moreover have "(unat hi + 4095) div 4096 * 4096 \<le> fst (page_span lo hi) + snd (page_span lo hi)"
    by (simp add: page_span_def)
  ultimately show "unat p + n \<le> fst (page_span lo hi) + snd (page_span lo hi)"
    using assms(2) by linarith
qed

subsection \<open>The content after loading\<close>

text \<open>The bytes a segment may touch, and what it should leave there.\<close>

definition extent :: "segment \<Rightarrow> nat" where
  "extent ph = max (unat (mem_size ph)) (unat (file_size ph))"

definition seg_disjoint :: "segment \<Rightarrow> segment \<Rightarrow> bool" where
  "seg_disjoint p q = (seg_start p + extent p \<le> seg_start q \<or> seg_start q + extent q \<le> seg_start p)"

definition placed :: "u8 list \<Rightarrow> segment \<Rightarrow> memory \<Rightarrow> bool" where
  "placed elf ph mem = (\<forall>i<unat (mem_size ph).
     mem (seg_start ph + i) = (if i < unat (file_size ph) then elf ! (unat (offset ph) + i) else 0))"

lemma copy_segment_Inr:
  assumes "copy_segment pages elf ph mem = Inr mem'" "mem_size ph \<noteq> 0"
  shows "mem' = copy_to (seg_start ph) (take (unat (file_size ph)) (drop (unat (offset ph)) elf)) mem"
    "unat (offset ph) + unat (file_size ph) \<le> length elf"
    "fst pages \<le> seg_start ph" "seg_start ph + unat (file_size ph) \<le> fst pages + snd pages"
  using assms by (auto simp: copy_segment_def bind_res_eq_Inr add_usize_Inr_iff split: if_splits)

lemma copy_segment_frame:
  assumes "copy_segment pages elf ph mem = Inr mem'"
    "mem_size ph = 0 \<or> x < seg_start ph \<or> seg_start ph + unat (file_size ph) \<le> x"
  shows "mem' x = mem x"
proof (cases "mem_size ph = 0")
  case True
  with assms(1) show ?thesis by (simp add: copy_segment_def)
next
  case False
  from copy_segment_Inr [OF assms(1) this] assms(2) False show ?thesis
    by (auto simp: copy_to_def)
qed

lemma copy_segments_frame:
  assumes "copy_segments pages elf phs mem = Inr mem'"
    "\<forall>ph\<in>set (loads phs). mem_size ph = 0 \<or> x < seg_start ph \<or> seg_start ph + unat (file_size ph) \<le> x"
  shows "mem' x = mem x"
  using assms
proof (induction phs arbitrary: mem)
  case Nil
  then show ?case by simp
next
  case (Cons ph phs)
  show ?case
  proof (cases "seg_type ph = Load")
    case True
    with Cons.prems(1) obtain mem1 where
      one: "copy_segment pages elf ph mem = Inr mem1" and rest: "copy_segments pages elf phs mem1 = Inr mem'"
      by (auto simp: is_load_def bind_res_eq_Inr)
    have "mem' x = mem1 x" using Cons.prems(2) by (intro Cons.IH [OF rest]) (auto simp: loads_def)
    moreover have "mem1 x = mem x"
      using Cons.prems(2) True by (intro copy_segment_frame [OF one]) (auto simp: loads_def)
    ultimately show ?thesis by simp
  next
    case False
    with Cons show ?thesis by (auto simp: is_load_def loads_def bind_res_eq_Inr split: segment_type.splits)
  qed
qed

lemma copy_segment_placed:
  assumes "copy_segment pages elf ph mem = Inr mem'"
    "\<forall>i<unat (mem_size ph). mem (seg_start ph + i) = 0"
  shows "placed elf ph mem'"
proof (cases "mem_size ph = 0")
  case True
  then show ?thesis by (simp add: placed_def)
next
  case False
  note c = copy_segment_Inr [OF assms(1) False]
  show ?thesis using c(2) assms(2) unfolding placed_def c(1) by (auto simp: copy_to_def)
qed

lemma placed_cong:
  "placed elf ph mem \<Longrightarrow> (\<And>i. i < unat (mem_size ph) \<Longrightarrow> mem' (seg_start ph + i) = mem (seg_start ph + i))
    \<Longrightarrow> placed elf ph mem'"
  by (simp add: placed_def)

lemma copy_segments_placed:
  assumes "copy_segments pages elf phs mem = Inr mem'" "sorted_wrt seg_disjoint (loads phs)"
    "\<forall>ph\<in>set (loads phs). \<forall>i<unat (mem_size ph). mem (seg_start ph + i) = 0"
  shows "\<forall>ph\<in>set (loads phs). placed elf ph mem'"
  using assms
proof (induction phs arbitrary: mem)
  case Nil
  then show ?case by (simp add: loads_def)
next
  case (Cons ph phs)
  show ?case
  proof (cases "seg_type ph = Load")
    case False
    with Cons show ?thesis by (auto simp: is_load_def loads_def bind_res_eq_Inr split: segment_type.splits)
  next
    case True
    with Cons.prems(1) obtain mem1 where
      one: "copy_segment pages elf ph mem = Inr mem1" and rest: "copy_segments pages elf phs mem1 = Inr mem'"
      by (auto simp: is_load_def bind_res_eq_Inr)
    have dis: "seg_disjoint ph q" if "q \<in> set (loads phs)" for q
      using Cons.prems(2) True that by (simp add: loads_def)
    have "mem1 (seg_start q + i) = 0" if "q \<in> set (loads phs)" "i < unat (mem_size q)" for q i
    proof -
      have "mem1 (seg_start q + i) = mem (seg_start q + i)"
        using dis [OF that(1)] that(2)
        by (intro copy_segment_frame [OF one]) (auto simp: seg_disjoint_def extent_def)
      with Cons.prems(3) True that show ?thesis by (simp add: loads_def)
    qed
    then have "\<forall>q\<in>set (loads phs). placed elf q mem'"
      using Cons.prems(2) True by (intro Cons.IH [OF rest]) (auto simp: loads_def)
    moreover have "placed elf ph mem'"
    proof (rule placed_cong)
      show "placed elf ph mem1"
        using Cons.prems(3) True by (intro copy_segment_placed [OF one]) (simp add: loads_def)
      show "mem' (seg_start ph + i) = mem1 (seg_start ph + i)" if "i < unat (mem_size ph)" for i
        using dis that by (intro copy_segments_frame [OF rest]) (fastforce simp: seg_disjoint_def extent_def)
    qed
    ultimately show ?thesis using True by (simp add: loads_def)
  qed
qed

lemma copy_segments_inside:
  assumes "copy_segments pages elf phs mem = Inr mem'"
  shows "\<forall>ph\<in>set (loads phs). mem_size ph = 0
    \<or> fst pages \<le> seg_start ph \<and> seg_start ph + unat (file_size ph) \<le> fst pages + snd pages"
  using assms
proof (induction phs arbitrary: mem)
  case Nil
  then show ?case by (simp add: loads_def)
next
  case (Cons ph phs)
  show ?case
  proof (cases "seg_type ph = Load")
    case True
    with Cons.prems obtain mem1 where
      one: "copy_segment pages elf ph mem = Inr mem1" and rest: "copy_segments pages elf phs mem1 = Inr mem'"
      by (auto simp: is_load_def bind_res_eq_Inr)
    with Cons.IH [OF rest] copy_segment_Inr(3,4) [OF one] True show ?thesis by (auto simp: loads_def)
  next
    case False
    with Cons show ?thesis by (auto simp: is_load_def loads_def bind_res_eq_Inr split: segment_type.splits)
  qed
qed

text \<open>No wild write when no segment has more file bytes than memory bytes.\<close>

lemma copy_segments_safe:
  assumes "copy_segments pages elf phs mem = Inl e"
    "\<forall>ph\<in>set (loads phs). fst pages \<le> seg_start ph \<and> seg_start ph + unat (file_size ph) \<le> fst pages + snd pages"
  shows "\<not> (\<exists>a. e = Wild_Access a)"
  using assms
proof (induction phs arbitrary: mem)
  case Nil
  then show ?case by simp
next
  case (Cons ph phs)
  then show ?case
    by (cases "seg_type ph"; cases "copy_segment pages elf ph mem")
      (auto simp: is_load_def loads_def copy_segment_def add_usize_def split: if_splits)
qed

lemma checked_add_no_wild: "checked_add a b \<noteq> Inl (Wild_Access x)"
  by (simp add: checked_add_def)

lemma load_range_no_wild: "load_range phs lo hi \<noteq> Inl (Wild_Access x)"
proof (induction phs arbitrary: lo hi)
  case Nil
  then show ?case by simp
next
  case (Cons ph phs)
  then show ?case
    by (cases "seg_type ph"; cases "checked_add (physical_addr ph) (mem_size ph)")
      (auto simp: is_load_def checked_add_def split: if_splits)
qed

lemma fill_memory_map_fold:
  "fill_memory_map descs m = bind_res (map_res region_of_descriptor descs) (\<lambda>rs. Inr (fold add_region rs m))"
proof (induction descs arbitrary: m)
  case Nil
  then show ?case by simp
next
  case (Cons d descs)
  then show ?case
    by (cases "region_of_descriptor d"; cases "map_res region_of_descriptor descs") auto
qed

subsection \<open>Properties\<close>

text \<open>The inputs of a successful load: what the firmware returned for the address it was asked
  for.\<close>

lemma load_segments_InrD:
  assumes "load_segments allocate_pages elf phs mem = Inr (Some mem')"
    "\<And>s n a. allocate_pages s n = Some a \<Longrightarrow> a = s"
  obtains lo hi where "load_range phs (- 1) 0 = Inr (lo, hi)"
    "copy_segments (page_span lo hi) elf phs (fill (fst (page_span lo hi)) (snd (page_span lo hi)) 0 mem) = Inr mem'"
proof -
  from assms(1) obtain lo hi e a where r: "load_range phs (- 1) 0 = Inr (lo, hi)" "lo < hi"
    and e: "checked_add hi 0xFFF = Inr e"
    and al: "allocate_pages (lo AND NOT 0xFFF) (unat (((e AND NOT 0xFFF) - (lo AND NOT 0xFFF)) div 0x1000)) = Some a"
    by (auto simp: load_segments_def bind_res_eq_Inr Let_def split: if_splits option.splits)
  have a: "a = lo AND NOT 0xFFF" using assms(2) [OF al] .
  have "unat hi + 4095 < 2 ^ 64" using e by (simp add: checked_add_Inr_iff)
  note eq = load_segments_eq [OF r this, where allocate_pages = "\<lambda>_ _. Some (lo AND NOT 0xFFF)", OF refl, of elf mem]
  have "load_segments allocate_pages elf phs mem = load_segments (\<lambda>_ _. Some (lo AND NOT 0xFFF)) elf phs mem"
    using r e al a by (simp add: load_segments_def Let_def)
  moreover have "unat (lo AND NOT 0xFFF) = fst (page_span lo hi)"
    by (simp only: unat_align_down page_span_def fst_conv)
  ultimately have "bind_res (copy_segments (page_span lo hi) elf phs
      (fill (fst (page_span lo hi)) (snd (page_span lo hi)) 0 mem)) (\<lambda>mem. Inr (Some mem)) = Inr (Some mem')"
    using assms(1) eq by simp
  then have "copy_segments (page_span lo hi) elf phs (fill (fst (page_span lo hi)) (snd (page_span lo hi)) 0 mem) = Inr mem'"
    by (simp add: bind_res_eq_Inr)
  with that r(1) show ?thesis by blast
qed

text \<open>C23. A kernel that loads is loaded right: if no two LOAD segments touch the same bytes and the
  firmware allocates where it is asked to, every byte of a segment's memory image is its
  byte of the file, or zero past the file part, and memory outside the pages of the
  segments' range is as before.\<close>

theorem kernel_loaded:
  assumes "load_segments allocate_pages elf phs mem = Inr (Some mem')"
    and "\<forall>s n a. allocate_pages s n = Some a \<longrightarrow> a = s"
    and "sorted_wrt seg_disjoint (loads phs)"
  shows "(\<forall>ph\<in>set (loads phs). placed elf ph mem')
    \<and> (\<exists>lo hi. load_range phs (- 1) 0 = Inr (lo, hi)
        \<and> (\<forall>x. x < fst (page_span lo hi) \<or> fst (page_span lo hi) + snd (page_span lo hi) \<le> x \<longrightarrow> mem' x = mem x))"
proof -
  obtain lo hi where r: "load_range phs (- 1) 0 = Inr (lo, hi)"
    and c: "copy_segments (page_span lo hi) elf phs (fill (fst (page_span lo hi)) (snd (page_span lo hi)) 0 mem) = Inr mem'"
    using load_segments_InrD [OF assms(1)] assms(2) by blast
  let ?mem = "fill (fst (page_span lo hi)) (snd (page_span lo hi)) 0 mem"
  have "?mem (seg_start ph + i) = 0" if "ph \<in> set (loads phs)" "i < unat (mem_size ph)" for ph i
    using load_range_Inr [OF r] that page_span_covers [of lo "physical_addr ph" "unat (mem_size ph)" hi]
    by (auto simp: fill_def)
  then have "\<forall>ph\<in>set (loads phs). placed elf ph mem'"
    using copy_segments_placed [OF c assms(3)] by blast
  moreover have "mem' x = mem x"
    if x: "x < fst (page_span lo hi) \<or> fst (page_span lo hi) + snd (page_span lo hi) \<le> x" for x
  proof -
    have "mem' x = ?mem x"
      using x copy_segments_inside [OF c] by (intro copy_segments_frame [OF c]) fastforce
    then show ?thesis using x by (auto simp: fill_def)
  qed
  ultimately show ?thesis using r by blast
qed

definition sample_segment :: segment where
  "sample_segment = \<lparr>seg_type = Load, physical_addr = 0x200010, mem_size = 3, file_size = 2, offset = 1\<rparr>"

lemma sample_loads:
  "load_segments (\<lambda>s n. Some s) [7, 8, 9, 10] [sample_segment] mem
   = Inr (Some (copy_to 0x200010 [8, 9] (fill 0x200000 0x1000 0 mem)))"
proof -
  have r: "load_range [sample_segment] (- 1) 0 = Inr (0x200010, 0x200013)"
    by (simp add: sample_segment_def is_load_def checked_add_def)
  have span: "page_span 0x200010 0x200013 = (0x200000, 0x1000)"
    by (simp add: page_span_def)
  have "copy_segments (0x200000, 0x1000) [7, 8, 9, 10] [sample_segment] m = Inr (copy_to 0x200010 [8, 9] m)" for m
    by (simp add: sample_segment_def is_load_def copy_segment_def add_usize_def fits_usize_def)
  moreover have "unat (0x200010 AND NOT 0xFFF :: u64) = 0x200000" by (simp only: unat_align_down) simp
  ultimately show ?thesis
    using load_segments_eq [OF r, of "\<lambda>s n. Some s" "0x200010 AND NOT 0xFFF" "[7, 8, 9, 10]" mem]
    by (simp add: span)
qed

theorem kernel_loaded_witness:
  "placed [7, 8, 9, 10] sample_segment (copy_to 0x200010 [8, 9] (fill 0x200000 0x1000 0 (\<lambda>_. 0xCC)))"
proof -
  have "\<forall>s n a. (\<lambda>s n. Some s) s n = Some a \<longrightarrow> a = (s :: u64)" for n :: nat by simp
  then show ?thesis
    using kernel_loaded [OF sample_loads] by (simp add: loads_def sample_segment_def)
qed

text \<open>A wild write while loading is one of the copying pass, which has the pages that hold the range.\<close>

lemma load_segments_wildD:
  assumes wild: "load_segments allocate_pages elf phs mem = Inl (Wild_Access x)"
    and at_start: "\<forall>s n a. allocate_pages s n = Some a \<longrightarrow> a = s"
  obtains lo hi where "load_range phs (- 1) 0 = Inr (lo, hi)"
    "copy_segments (page_span lo hi) elf phs (fill (fst (page_span lo hi)) (snd (page_span lo hi)) 0 mem)
       = Inl (Wild_Access x)"
proof -
  from wild obtain lo hi where r: "load_range phs (- 1) 0 = Inr (lo, hi)" and lt: "lo < hi"
    using load_range_no_wild [of phs "- 1" 0 x]
    by (cases "load_range phs (- 1) 0") (auto simp: load_segments_def not_less split: if_splits)
  have nle: "\<not> hi \<le> lo" using lt by simp
  with wild r obtain e where e: "checked_add hi 0xFFF = Inr e"
    using checked_add_no_wild [of hi "0xFFF" x]
    by (cases "checked_add hi 0xFFF") (auto simp: load_segments_def Let_def)
  obtain a where al: "allocate_pages (lo AND NOT 0xFFF) (unat (((e AND NOT 0xFFF) - (lo AND NOT 0xFFF)) div 0x1000)) = Some a"
    using wild r nle e
    by (cases "allocate_pages (lo AND NOT 0xFFF) (unat (((e AND NOT 0xFFF) - (lo AND NOT 0xFFF)) div 0x1000))")
      (auto simp: load_segments_def Let_def)
  then have a: "a = lo AND NOT 0xFFF" using at_start by blast
  have "unat hi + 4095 < 2 ^ 64" using e by (simp add: checked_add_Inr_iff)
  note eq = load_segments_eq [OF r lt this, where allocate_pages = "\<lambda>_ _. Some (lo AND NOT 0xFFF)", OF refl, of elf mem]
  have "load_segments allocate_pages elf phs mem = load_segments (\<lambda>_ _. Some (lo AND NOT 0xFFF)) elf phs mem"
    using r lt nle e al a by (simp add: load_segments_def Let_def)
  moreover have "unat (lo AND NOT 0xFFF) = fst (page_span lo hi)"
    by (simp only: unat_align_down page_span_def fst_conv)
  ultimately have bad: "copy_segments (page_span lo hi) elf phs (fill (fst (page_span lo hi)) (snd (page_span lo hi)) 0 mem)
      = Inl (Wild_Access x)"
    using wild eq
    by (cases "copy_segments (page_span lo hi) elf phs (fill (fst (page_span lo hi)) (snd (page_span lo hi)) 0 mem)")
      simp_all
  with r show ?thesis by (rule that)
qed

text \<open>C36. Loading never writes outside the allocated pages as long as no LOAD segment has more file
  bytes than memory bytes, which the code does not check: a segment with one page of memory
  and more file bytes is written past the allocation.\<close>

theorem load_stays_inside:
  assumes "\<forall>ph\<in>set (loads phs). unat (file_size ph) \<le> unat (mem_size ph)"
    and "\<forall>s n a. allocate_pages s n = Some a \<longrightarrow> a = s"
  shows "load_segments allocate_pages elf phs mem \<noteq> Inl (Wild_Access x)
    \<and> load_segments (\<lambda>s n. Some s) (replicate 20 0)
        [\<lparr>seg_type = Load, physical_addr = 0xFF0, mem_size = 16, file_size = 17, offset = 0\<rparr>] mem
      = Inl (Wild_Access 0xFF0)"
proof (intro conjI notI)
  assume "load_segments allocate_pages elf phs mem = Inl (Wild_Access x)"
  then obtain lo hi where r: "load_range phs (- 1) 0 = Inr (lo, hi)"
    and bad: "copy_segments (page_span lo hi) elf phs (fill (fst (page_span lo hi)) (snd (page_span lo hi)) 0 mem)
      = Inl (Wild_Access x)"
    using load_segments_wildD assms(2) by metis
  have "fst (page_span lo hi) \<le> seg_start ph \<and>
      seg_start ph + unat (file_size ph) \<le> fst (page_span lo hi) + snd (page_span lo hi)"
    if "ph \<in> set (loads phs)" for ph
    using load_range_Inr [OF r] that assms(1) page_span_covers [of lo "physical_addr ph" "unat (mem_size ph)" hi]
    by fastforce
  with copy_segments_safe [OF bad] show False by blast
next
  let ?ph = "\<lparr>seg_type = Load, physical_addr = 0xFF0, mem_size = 16, file_size = 17, offset = 0\<rparr>"
  have r: "load_range [?ph] (- 1) 0 = Inr (0xFF0, 0x1000)"
    by (simp add: is_load_def checked_add_def)
  have span: "page_span 0xFF0 0x1000 = (0, 0x1000)" by (simp add: page_span_def)
  have "copy_segments (0, 0x1000) (replicate 20 0) [?ph] m = Inl (Wild_Access 0xFF0)" for m
    by (simp add: is_load_def copy_segment_def add_usize_def fits_usize_def)
  moreover have "unat (0xFF0 AND NOT 0xFFF :: u64) = 0" by (simp only: unat_align_down) simp
  ultimately show "load_segments (\<lambda>s n. Some s) (replicate 20 0) [?ph] mem = Inl (Wild_Access 0xFF0)"
    using load_segments_eq [OF r, of "\<lambda>s n. Some s" "0xFF0 AND NOT 0xFFF" "replicate 20 0" mem]
    by (simp add: span)
qed

theorem load_stays_inside_witness:
  "load_segments (\<lambda>s n. Some s) [7, 8, 9, 10] [sample_segment] (\<lambda>_. 0) \<noteq> Inl (Wild_Access 0x200010)"
  using load_stays_inside [of "[sample_segment]" "\<lambda>s n. Some s"]
  by (simp add: loads_def sample_segment_def)


text \<open>When every step succeeds, the kernel is entered.\<close>

lemma efi_main_enters:
  assumes "fw_open fw = Some True" "length (fw_read fw) = fw_file_size fw" "fw_parse fw (fw_read fw) = Some (phs, entry)"
    and "load_segments (fw_allocate fw) (fw_read fw) phs mem = Inr (Some mem')"
    and "is_ok (frame_buffer_of fw)" "is_ok (map_res region_of_descriptor (fw_memory_map fw))"
  shows "\<exists>info. efi_main fw mem = Inr (Inr (entry, info, mem'))"
  using assms fill_memory_map_fold [of "fw_memory_map fw" new_map]
  by (auto simp: efi_main_def hand_over_def is_ok_iff)

definition sample_firmware :: firmware where
  "sample_firmware =
     \<lparr>fw_open = Some True, fw_file_size = 4, fw_read = [7, 8, 9, 10],
      fw_parse = \<lambda>_. Some ([sample_segment], 0x200010), fw_allocate = \<lambda>s n. Some s,
      fw_resolution = (1024, 768), fw_stride = 1024, fw_format = Gop_Bgr,
      fw_frame_buffer = (0x80000000, 3145728),
      fw_memory_map = [\<lparr>ty = 7, phys_start = 0x100000, page_count = 16\<rparr>,
                       \<lparr>ty = 2, phys_start = 0x200000, page_count = 1\<rparr>]\<rparr>"

lemma sample_regions: "map_res region_of_descriptor (fw_memory_map sample_firmware) =
      Inr [\<lparr>range = \<lparr>start_addr = 0x100000, end_addr = 0x110000\<rparr>, region_type = Usable\<rparr>,
         \<lparr>range = \<lparr>start_addr = 0x200000, end_addr = 0x201000\<rparr>, region_type = Reserved\<rparr>]"
  by (simp add: sample_firmware_def region_of_descriptor_def checked_add_def checked_mul_def)

lemma sample_efi_main: "\<exists>info mem'. efi_main sample_firmware (\<lambda>_. 0) = Inr (Inr (0x200010, info, mem'))"
proof -
  let ?mem = "copy_to 0x200010 [8, 9] (fill 0x200000 0x1000 0 (\<lambda>_. 0))"
  have "is_ok (frame_buffer_of sample_firmware)" "is_ok (map_res region_of_descriptor (fw_memory_map sample_firmware))"
    using sample_regions by (simp_all add: frame_buffer_of_def) (simp add: sample_firmware_def)
  then have "\<exists>info. efi_main sample_firmware (\<lambda>_. 0) = Inr (Inr (0x200010, info, ?mem))"
    using sample_loads by (intro efi_main_enters) (simp_all add: sample_firmware_def)
  then show ?thesis by blast
qed


end
