(* ===== verification/Chain.thy ===== *)
theory Chain
  imports Loader Memory
begin

text \<open>
  From the firmware to the frame allocator: what \<^verbatim>\<open>efi_main\<close> writes into the memory map and
  what \<^verbatim>\<open>BootInfoFrameAllocator\<close> hands out of it. What is relied on of the firmware is what
  the UEFI specification says of a memory map: a conventional descriptor starts on a page
  boundary, conventional descriptors do not overlap, and pages that were allocated are not
  conventional memory.
\<close>

definition conventional :: "memory_descriptor list \<Rightarrow> memory_descriptor list" where
  "conventional ds = filter (\<lambda>d. ty d = 7) ds"

definition desc_end :: "memory_descriptor \<Rightarrow> nat" where
  "desc_end d = unat (phys_start d) + unat (page_count d) * 4096"

definition desc_disjoint :: "memory_descriptor \<Rightarrow> memory_descriptor \<Rightarrow> bool" where
  "desc_disjoint d e = (desc_end d \<le> unat (phys_start e) \<or> desc_end e \<le> unat (phys_start d))"

definition sane_descriptors :: "memory_descriptor list \<Rightarrow> bool" where
  "sane_descriptors ds =
     (list_all (\<lambda>d. unat (phys_start d) mod 4096 = 0) (conventional ds)
      \<and> sorted_wrt desc_disjoint (conventional ds))"

text \<open>The pages the bootloader allocated for these program headers.\<close>

definition not_reported_free :: "segment list \<Rightarrow> memory_descriptor list \<Rightarrow> bool" where
  "not_reported_free phs ds =
     (\<forall>lo hi. load_range phs (- 1) 0 = Inr (lo, hi) \<longrightarrow>
        list_all (\<lambda>d. desc_end d \<le> fst (page_span lo hi)
          \<or> fst (page_span lo hi) + snd (page_span lo hi) \<le> unat (phys_start d)) (conventional ds))"

subsection \<open>Descriptors and regions\<close>

lemma region_of_descriptorD:
  assumes "region_of_descriptor d = Inr r"
  shows "region_start r = unat (phys_start d)" "region_end r = desc_end d"
    "region_type r = Usable \<longleftrightarrow> ty d = 7"
proof -
  from assms obtain n e where n: "checked_mul (page_count d) 4096 = Inr n"
    and e: "checked_add (phys_start d) n = Inr e"
    and r: "r = \<lparr>range = \<lparr>start_addr = phys_start d, end_addr = e\<rparr>,
      region_type = (if ty d = 7 then Usable else Reserved)\<rparr>"
    by (auto simp: region_of_descriptor_def bind_res_eq_Inr)
  show "region_start r = unat (phys_start d)" "region_type r = Usable \<longleftrightarrow> ty d = 7"
    by (simp_all add: r region_start_def)
  show "region_end r = desc_end d"
    using checked_mul_InrD [OF n] checked_add_InrD [OF e] by (simp add: r region_end_def desc_end_def)
qed

lemma usable_of_descriptors:
  assumes "map_res region_of_descriptor ds = Inr rs"
  shows "\<exists>f. filter (\<lambda>r. region_type r = Usable) rs = map f (conventional ds)
    \<and> (\<forall>d\<in>set (conventional ds). region_start (f d) = unat (phys_start d) \<and> region_end (f d) = desc_end d)"
proof (intro exI [of _ "\<lambda>d. projr (region_of_descriptor d)"])
  have "filter (\<lambda>r. region_type r = Usable) rs = map (\<lambda>d. projr (region_of_descriptor d)) (conventional ds)
      \<and> (\<forall>d\<in>set ds. is_ok (region_of_descriptor d))"
    using assms
  proof (induction ds arbitrary: rs)
    case Nil
    then show ?case by (simp add: conventional_def)
  next
    case (Cons d ds)
    then show ?case by (auto simp: conventional_def bind_res_eq_Inr region_of_descriptorD)
  qed
  then show "filter (\<lambda>r. region_type r = Usable) rs = map (\<lambda>d. projr (region_of_descriptor d)) (conventional ds)
    \<and> (\<forall>d\<in>set (conventional ds). region_start (projr (region_of_descriptor d)) = unat (phys_start d)
        \<and> region_end (projr (region_of_descriptor d)) = desc_end d)"
    by (auto simp: conventional_def is_ok_iff region_of_descriptorD)
qed

lemma sorted_wrt_filter_take: "sorted_wrt R (filter P rs) \<Longrightarrow> sorted_wrt R (filter P (take n rs))"
  by (metis append_take_drop_id filter_append sorted_wrt_append)

text \<open>The memory map of the boot information meets what the frame allocator expects.\<close>

lemma handed_map_good:
  assumes rs: "map_res region_of_descriptor ds = Inr rs" "map_iter m = take 256 rs"
    and sane: "sane_descriptors ds"
  shows "good_map m"
proof -
  obtain f where f: "filter (\<lambda>r. region_type r = Usable) rs = map f (conventional ds)"
    "\<forall>d\<in>set (conventional ds). region_start (f d) = unat (phys_start d) \<and> region_end (f d) = desc_end d"
    using usable_of_descriptors [OF rs(1)] by blast
  have "sorted_wrt regions_disjoint (map f (conventional ds))"
    unfolding sorted_wrt_map
    using sane by (auto simp: sane_descriptors_def regions_disjoint_def desc_disjoint_def f(2)
        elim!: sorted_wrt_mono_rel [rotated])
  then have "sorted_wrt regions_disjoint (usable_regions m)"
    unfolding usable_regions_def rs(2) f(1) [symmetric] by (rule sorted_wrt_filter_take)
  moreover have "page_aligned r" if "r \<in> set (usable_regions m)" for r
  proof -
    from that have "r \<in> set (filter (\<lambda>r. region_type r = Usable) rs)"
      by (auto simp: usable_regions_def rs(2) dest: in_set_takeD)
    then obtain d where "d \<in> set (conventional ds)" "r = f d" unfolding f(1) by auto
    with f(2) sane show ?thesis
      by (auto simp: page_aligned_def sane_descriptors_def list_all_iff desc_end_def mod_add_eq)
  qed
  ultimately show ?thesis by (simp add: good_map_def list_all_iff)
qed

lemma usable_region_descriptor:
  assumes rs: "map_res region_of_descriptor ds = Inr rs" "map_iter m = take 256 rs"
    and "r \<in> set (map_iter m)" "region_type r = Usable"
  obtains d where "d \<in> set (conventional ds)" "region_start r = unat (phys_start d)" "region_end r = desc_end d"
proof -
  obtain f where f: "filter (\<lambda>r. region_type r = Usable) rs = map f (conventional ds)"
    "\<forall>d\<in>set (conventional ds). region_start (f d) = unat (phys_start d) \<and> region_end (f d) = desc_end d"
    using usable_of_descriptors [OF rs(1)] by blast
  have "r \<in> set (filter (\<lambda>r. region_type r = Usable) rs)"
    using assms(3,4) by (auto simp: rs(2) dest: in_set_takeD)
  then obtain d where "d \<in> set (conventional ds)" "r = f d" unfolding f(1) by auto
  with f(2) that show ?thesis by auto
qed

lemma efi_main_loaded:
  assumes "efi_main fw mem = Inr (Inr (entry, info, mem'))"
  obtains phs lo hi where "fw_parse fw (fw_read fw) = Some (phs, entry)" "load_range phs (- 1) 0 = Inr (lo, hi)"
    "load_segments (fw_allocate fw) (fw_read fw) phs mem = Inr (Some mem')"
proof -
  from assms obtain phs where "fw_parse fw (fw_read fw) = Some (phs, entry)"
    "load_segments (fw_allocate fw) (fw_read fw) phs mem = Inr (Some mem')"
    by (auto simp: efi_main_def hand_over_def bind_res_eq_Inr split: option.splits if_splits)
  moreover from this(2) obtain lo hi where "load_range phs (- 1) 0 = Inr (lo, hi)"
    by (auto simp: load_segments_def bind_res_eq_Inr)
  ultimately show ?thesis using that by blast
qed

lemma efi_main_map:
  assumes "efi_main fw mem = Inr (Inr (entry, info, mem'))"
  obtains rs where "map_res region_of_descriptor (fw_memory_map fw) = Inr rs"
    "map_iter (bi_memory_map info) = take 256 rs"
proof -
  from assms obtain m where "fill_memory_map (fw_memory_map fw) new_map = Inr m" "bi_memory_map info = m"
    by (auto simp: efi_main_def hand_over_def bind_res_eq_Inr split: option.splits if_splits)
  then obtain rs where "map_res region_of_descriptor (fw_memory_map fw) = Inr rs"
    and "bi_memory_map info = fold add_region rs new_map"
    using fill_memory_map_fold [of "fw_memory_map fw" new_map]
    by (cases "map_res region_of_descriptor (fw_memory_map fw)") auto
  with that map_iter_fold [OF map_wf_new, of rs] show ?thesis by simp
qed

subsection \<open>Properties\<close>

text \<open>C21. The loaded kernel is never handed out: with a firmware that reports its memory as the
  specification says, however many frames the kernel allocates from the memory map it was
  given, they are distinct and none shares a byte with a LOAD segment of the kernel.\<close>

theorem kernel_image_kept:
  assumes "efi_main fw mem = Inr (Inr (entry, info, mem'))" "fw_parse fw (fw_read fw) = Some (phs, entry)"
    and "sane_descriptors (fw_memory_map fw)" "not_reported_free phs (fw_memory_map fw)"
    and "\<forall>a\<in>set (usable_addrs (bi_memory_map info)). is_ok (frame_of a)"
    and "\<forall>a b f. frame_of a = Inr f \<longrightarrow> frame_of b = Inr f \<longrightarrow> unat a div 4096 = unat b div 4096"
    and "n < usize_bound"
  shows "\<exists>fs a. allocs (allocate_frame frame_of) n (init_frame_allocator (bi_memory_map info)) = Inr (fs, a)
    \<and> distinct [f. Some f \<leftarrow> fs]
    \<and> (\<forall>f. Some f \<in> set fs \<longrightarrow> (\<exists>x. frame_of x = Inr f \<and> (\<forall>ph\<in>set (loads phs).
          unat x + 4096 \<le> seg_start ph \<or> seg_start ph + unat (mem_size ph) \<le> unat x)))"
proof -
  let ?m = "bi_memory_map info"
  obtain rs where rs: "map_res region_of_descriptor (fw_memory_map fw) = Inr rs" "map_iter ?m = take 256 rs"
    by (rule efi_main_map [OF assms(1)])
  obtain lo hi where range: "load_range phs (- 1) 0 = Inr (lo, hi)"
    using efi_main_loaded [OF assms(1)] assms(2) by (metis Pair_inject option.inject)
  have frames: "phys_frames frame_of ?m"
    using handed_map_good [OF rs assms(3)] assms(5,6) by unfold_locales blast+
  note all = phys_frames.allocs_from_start [OF frames assms(7)]
  let ?fs = "map Some (take n (phys_frames.frames frame_of ?m))
      @ replicate (n - length (phys_frames.frames frame_of ?m)) None"
  have "[f. Some f \<leftarrow> ?fs] = take n (phys_frames.frames frame_of ?m)"
    by (simp add: concat_map_singleton o_def)
  then have "distinct [f. Some f \<leftarrow> ?fs]"
    using phys_frames.distinct_frames [OF frames] by simp
  moreover have "\<exists>x. frame_of x = Inr f \<and> (\<forall>ph\<in>set (loads phs).
        unat x + 4096 \<le> seg_start ph \<or> seg_start ph + unat (mem_size ph) \<le> unat x)"
    if "Some f \<in> set ?fs" for f
  proof -
    have "f \<in> set (phys_frames.frames frame_of ?m)" using that by (auto dest: in_set_takeD)
    then obtain x r where x: "frame_of x = Inr f" "r \<in> set (map_iter ?m)" "region_type r = Usable"
      "region_start r \<le> unat x" "unat x + 4096 \<le> region_end r"
      using phys_frames.frame_in_region [OF frames] by blast
    obtain d where d: "d \<in> set (conventional (fw_memory_map fw))"
      "region_start r = unat (phys_start d)" "region_end r = desc_end d"
      by (rule usable_region_descriptor [OF rs x(2,3)])
    have free: "desc_end d \<le> fst (page_span lo hi)
        \<or> fst (page_span lo hi) + snd (page_span lo hi) \<le> unat (phys_start d)"
      using assms(4) range d(1) by (simp add: not_reported_free_def list_all_iff)
    have "unat x + 4096 \<le> seg_start ph \<or> seg_start ph + unat (mem_size ph) \<le> unat x"
      if "ph \<in> set (loads phs)" for ph
      using load_range_Inr [OF range] that page_span_covers [of lo "physical_addr ph" "unat (mem_size ph)" hi]
        free x(4,5) d(2,3) by fastforce
    with x(1) show ?thesis by blast
  qed
  ultimately show ?thesis using all by blast
qed

theorem kernel_image_kept_witness:
  "\<exists>info mem' fs a. efi_main sample_firmware (\<lambda>_. 0) = Inr (Inr (0x200010, info, mem'))
     \<and> allocs (allocate_frame page_number) 20 (init_frame_allocator (bi_memory_map info)) = Inr (fs, a)
     \<and> distinct [f. Some f \<leftarrow> fs]"
proof -
  obtain info mem' where run: "efi_main sample_firmware (\<lambda>_. 0) = Inr (Inr (0x200010, info, mem'))"
    using sample_efi_main by blast
  have parse: "fw_parse sample_firmware (fw_read sample_firmware) = Some ([sample_segment], 0x200010)"
    by (simp add: sample_firmware_def)
  have sane: "sane_descriptors (fw_memory_map sample_firmware)"
    by (simp add: sane_descriptors_def conventional_def sample_firmware_def)
  have range: "load_range [sample_segment] (- 1) 0 = Inr (0x200010, 0x200013)"
    by (simp add: sample_segment_def is_load_def checked_add_def)
  have free: "not_reported_free [sample_segment] (fw_memory_map sample_firmware)"
    unfolding not_reported_free_def range
    by (simp add: conventional_def sample_firmware_def desc_end_def page_span_def)
  obtain rs where rs: "map_res region_of_descriptor (fw_memory_map sample_firmware) = Inr rs"
    "map_iter (bi_memory_map info) = take 256 rs"
    by (rule efi_main_map [OF run])
  have ok: "is_ok (page_number a)" if a: "a \<in> set (usable_addrs (bi_memory_map info))" for a
  proof -
    obtain r where r: "r \<in> set (usable_regions (bi_memory_map info))" "unat a + 4096 \<le> region_end r"
      using usable_addr_region [OF a] handed_map_good [OF rs sane] unfolding good_map_def by metis
    from r(1) have m: "r \<in> set (map_iter (bi_memory_map info))" "region_type r = Usable"
      by (simp_all add: usable_regions_def)
    obtain d where d: "d \<in> set (conventional (fw_memory_map sample_firmware))" "region_end r = desc_end d"
      using usable_region_descriptor [OF rs m] by blast
    then have "desc_end d = 0x110000"
      by (simp add: conventional_def sample_firmware_def desc_end_def)
    with d r have "unat a < 4503599627370496" by simp
    then have "a < 0x10000000000000" by (simp add: word_less_nat_alt)
    then show ?thesis by (simp add: page_number_def)
  qed
  have page: "\<forall>a b f. page_number a = Inr f \<longrightarrow> page_number b = Inr f \<longrightarrow> unat a div 4096 = unat b div 4096"
    by (auto simp: page_number_def unat_div split: if_splits dest!: arg_cong [where f = unat])
  have "\<forall>a\<in>set (usable_addrs (bi_memory_map info)). is_ok (page_number a)" using ok by blast
  from kernel_image_kept [OF run parse sane free this page, of 20] run show ?thesis
    by (auto simp: usize_bound_def)
qed

end
