(* ===== verification/Power_On.thy ===== *)
theory Power_On
  imports Boot Chain
begin

text \<open>
  From power-on to the main loop: the boot information the bootloader writes is what
  \<^verbatim>\<open>kernel_main\<close> starts from. What is relied on of the page table crate is that mapping a page
  that is not mapped succeeds as long as frames are left for up to three tables.
\<close>

definition maps_pages ::
  "('f, 'm, frame_allocator, 'e) mapper \<Rightarrow> ('m \<Rightarrow> u64 set) \<Rightarrow> nat \<Rightarrow> bool" where
  "maps_pages mapf mapped n =
     (\<forall>p f m a. p \<notin> mapped m \<longrightarrow> next_frame a + 3 \<le> n \<longrightarrow>
        (\<exists>m' k. k \<le> 3 \<and> mapf p f heap_flags m a = Inr (None, m', a\<lparr>next_frame := next_frame a + k\<rparr>)
          \<and> mapped m' = insert p (mapped m)))"

subsection \<open>Enough frames for the heap\<close>

lemma map_pages_succeeds:
  assumes "phys_frames frame_of mm" "maps_pages mapf mapped n" "n \<le> length (usable_addrs mm)" "n < usize_bound"
  shows "distinct pages \<Longrightarrow> set pages \<inter> mapped m = {} \<Longrightarrow> memory_map a = mm
    \<Longrightarrow> next_frame a + 4 * length pages \<le> n
    \<Longrightarrow> \<exists>log m' a'. map_pages (allocate_frame frame_of) mapf pages m a = Inr (None, log, m', a')"
proof (induction pages arbitrary: m a)
  case Nil
  then show ?case by simp
next
  case (Cons p pages)
  note frames = phys_frames.length_frames [OF assms(1)]
  let ?a = "a\<lparr>next_frame := next_frame a + 1\<rparr>" and ?f = "phys_frames.frames frame_of mm ! next_frame a"
  have "next_frame a + 4 + 4 * length pages \<le> n" using Cons.prems(4) by simp
  then have room: "next_frame a < length (usable_addrs mm)" "next_frame a + 1 < usize_bound" "next_frame ?a + 3 \<le> n"
    using assms(3,4) by simp_all
  then have al: "allocate_frame frame_of a = Inr (Some ?f, ?a)"
    using phys_frames.allocate_eq [OF assms(1) Cons.prems(3)] by (simp add: frames)
  have "p \<notin> mapped m" using Cons.prems(2) by simp
  then obtain m1 k where k: "k \<le> 3"
    and m1: "mapf p ?f heap_flags m ?a = Inr (None, m1, ?a\<lparr>next_frame := next_frame ?a + k\<rparr>)"
      "mapped m1 = insert p (mapped m)"
    using assms(2) room(3) unfolding maps_pages_def by blast
  let ?a1 = "?a\<lparr>next_frame := next_frame ?a + k\<rparr>"
  have "\<exists>log m' a'. map_pages (allocate_frame frame_of) mapf pages m1 ?a1 = Inr (None, log, m', a')"
    using Cons.prems m1(2) k by (intro Cons.IH) auto
  then obtain log m' a' where "map_pages (allocate_frame frame_of) mapf pages m1 ?a1 = Inr (None, log, m', a')" by blast
  then show ?case using al m1(1) by simp
qed

lemma distinct_heap_pages: "distinct heap_pages"
proof -
  have "heap_pages = step_by_4096 heap_start (heap_start + of_nat heap_size)"
    by (simp add: heap_pages_def step_by_4096_def heap_start_def heap_size_def)
  then show ?thesis by (metis distinct_step_by)
qed

lemma length_heap_pages: "length heap_pages = 64"
  by (simp add: heap_pages_def heap_start_def heap_size_def)

lemma heap_maps:
  assumes "phys_frames frame_of mm" "maps_pages mapf mapped (length (usable_addrs mm))" "256 \<le> length (usable_addrs mm)"
    and "set heap_pages \<inter> mapped mp = {}"
  shows "\<exists>log mp' a. init_heap (allocate_frame frame_of) mapf mp (init_frame_allocator mm)
    = Inr (None, log, Some (heap_start, heap_size), mp', a)"
proof -
  have "maps_pages mapf mapped 256" using assms(2,3) by (auto simp: maps_pages_def)
  moreover have "256 < usize_bound" by (simp add: usize_bound_def)
  moreover note assms(1,3)
  ultimately have "\<exists>log m' a'. map_pages (allocate_frame frame_of) mapf heap_pages mp (init_frame_allocator mm)
      = Inr (None, log, m', a')"
    using distinct_heap_pages assms(4)
    by (intro map_pages_succeeds [where mm = mm and n = 256]) (simp_all add: init_frame_allocator_def length_heap_pages)
  then show ?thesis by (auto simp: init_heap_def)
qed

lemma efi_main_info:
  assumes "efi_main fw mem = Inr (Inr (entry, info, mem'))"
  shows "physical_memory_offset info = 0" "frame_buffer_of fw = Inr (framebuffer info)"
  using assms by (auto simp: efi_main_def hand_over_def bind_res_eq_Inr split: option.splits if_splits)

subsection \<open>Properties\<close>

text \<open>C9. From power-on to the prompt: when the bootloader starts the kernel, on a firmware that
  reports its memory as specified and a usable display, one mebibyte of usable memory is
  enough: \<^verbatim>\<open>kernel_main\<close> maps the heap and reaches the main loop with interrupts enabled.\<close>

theorem power_on:
  assumes "efi_main fw mem = Inr (Inr (entry, info, mem'))" "sane_descriptors (fw_memory_map fw)"
    and "address (framebuffer info) \<noteq> 0" "fb_ok (framebuffer info)"
      "stride (framebuffer info) * height (framebuffer info) * 4 < usize_bound"
    and "\<forall>a\<in>set (usable_addrs (bi_memory_map info)). is_ok (frame_containing c a)"
    and "\<forall>a b f. frame_containing c a = Inr f \<longrightarrow> frame_containing c b = Inr f \<longrightarrow> unat a div 4096 = unat b div 4096"
    and "256 \<le> length (usable_addrs (bi_memory_map info))"
    and "maps_pages (map_to c) mapped (length (usable_addrs (bi_memory_map info)))"
    and "gdt_init (gdt_api c) (fault_stack h) = Inr r" "memory_init c h 0 = Inr mp" "set heap_pages \<inter> mapped mp = {}"
  shows "\<exists>m k. kernel_main c h info (at_entry c0 vid) = Inr m \<and> bm_kernel m = Some k
    \<and> kernel_boot \<lparr>kern = k, cpu = Between\<rparr> \<and> interrupts_on m \<and> bm_heap m = Some (0x444444440000, 262144)"
proof -
  obtain rs where rs: "map_res region_of_descriptor (fw_memory_map fw) = Inr rs"
    "map_iter (bi_memory_map info) = take 256 rs"
    by (rule efi_main_map [OF assms(1)])
  have frames: "phys_frames (frame_containing c) (bi_memory_map info)"
    using handed_map_good [OF rs assms(2)] assms(6,7) by unfold_locales blast+
  obtain log mp' a where heap: "init_heap (allocate_frame (frame_containing c)) (map_to c) mp
      (init_frame_allocator (bi_memory_map info)) = Inr (None, log, Some (heap_start, heap_size), mp', a)"
    using heap_maps [OF frames assms(9,8,12)] by blast
  have "memory_init c h (physical_memory_offset info) = Inr mp"
    using assms(11) efi_main_info(1) [OF assms(1)] by simp
  from boot_run [OF assms(3-5,10) this heap, of c0 vid] obtain m where
    "kernel_main c h info (at_entry c0 vid) = Inr m" "bm_kernel m = Some booted" "interrupts_on m"
    "bm_heap m = Some (heap_start, heap_size)" by blast
  moreover have "kernel_boot \<lparr>kern = booted, cpu = Between\<rparr>" by (simp add: kernel_boot_def booted_kernel_eq)
  ultimately show ?thesis by (simp add: heap_start_def heap_size_def)
qed

text \<open>For the example: a mapper that records the pages it maps, and a firmware with one mebibyte.\<close>

definition recording_map :: "(u64, u64 list, frame_allocator, unit) mapper" where
  "recording_map p f fl m a = (if p \<in> set m then Inr (Some (), m, a) else Inr (None, p # m, a))"

lemma recording_maps: "maps_pages recording_map set n"
  unfolding maps_pages_def
proof (intro allI impI)
  fix p f :: u64 and m and a :: frame_allocator assume "p \<notin> set m"
  then show "\<exists>m' k. k \<le> 3 \<and> recording_map p f heap_flags m a = Inr (None, m', a\<lparr>next_frame := next_frame a + k\<rparr>)
      \<and> set m' = insert p (set m)"
    by (intro exI [of _ "p # m"] exI [of _ 0]) (simp add: recording_map_def)
qed

definition mebibyte_firmware :: firmware where
  "mebibyte_firmware = sample_firmware\<lparr>fw_memory_map := [\<lparr>ty = 7, phys_start = 0x100000, page_count = 256\<rparr>]\<rparr>"

definition recording_crates :: "(slot list, slot, u16, u64, u64, u64 list, unit) crates" where
  "recording_crates = \<lparr>gdt_api = table_crate, virt_new = Inr, virt_add = (\<lambda>v x. Inr (v + x)),
     offset_page_table = (\<lambda>_ _. []), frame_containing = page_number, map_to = recording_map,
     show_map_error = (\<lambda>_. ''FrameAllocationFailed'')\<rparr>"

lemma mebibyte_regions: "map_res region_of_descriptor (fw_memory_map mebibyte_firmware) = Inr [region 0x100000 0x200000 Usable]"
  by (simp add: mebibyte_firmware_def region_of_descriptor_def checked_add_def checked_mul_def region_def)

lemma mebibyte_efi_main: "\<exists>info mem'. efi_main mebibyte_firmware (\<lambda>_. 0) = Inr (Inr (0x200010, info, mem'))"
proof -
  let ?mem = "copy_to 0x200010 [8, 9] (fill 0x200000 0x1000 0 (\<lambda>_. 0))"
  have "is_ok (frame_buffer_of mebibyte_firmware)" "is_ok (map_res region_of_descriptor (fw_memory_map mebibyte_firmware))"
    using mebibyte_regions by (simp_all add: frame_buffer_of_def) (simp add: mebibyte_firmware_def sample_firmware_def)
  then have "\<exists>info. efi_main mebibyte_firmware (\<lambda>_. 0) = Inr (Inr (0x200010, info, ?mem))"
    using sample_loads by (intro efi_main_enters) (simp_all add: mebibyte_firmware_def sample_firmware_def)
  then show ?thesis by blast
qed

theorem power_on_witness:
  "\<exists>info mem' m k. efi_main mebibyte_firmware (\<lambda>_. 0) = Inr (Inr (0x200010, info, mem'))
     \<and> kernel_main recording_crates sample_setting info (at_entry 0x80010033 (\<lambda>_. 0)) = Inr m
     \<and> bm_kernel m = Some k \<and> kernel_boot \<lparr>kern = k, cpu = Between\<rparr>"
proof -
  obtain info mem' where run: "efi_main mebibyte_firmware (\<lambda>_. 0) = Inr (Inr (0x200010, info, mem'))"
    using mebibyte_efi_main by blast
  have sane: "sane_descriptors (fw_memory_map mebibyte_firmware)"
    by (simp add: sane_descriptors_def conventional_def mebibyte_firmware_def)
  obtain rs where "map_res region_of_descriptor (fw_memory_map mebibyte_firmware) = Inr rs"
    "map_iter (bi_memory_map info) = take 256 rs"
    by (rule efi_main_map [OF run])
  then have "usable_regions (bi_memory_map info) = usable_regions sample_map"
    unfolding sample_usable by (auto simp: usable_regions_def mebibyte_regions region_def)
  then have addrs: "usable_addrs (bi_memory_map info) = usable_addrs sample_map"
    by (simp add: usable_addrs_concat)
  then have n: "256 \<le> length (usable_addrs (bi_memory_map info))"
    using length_sample_frames sample.length_frames by simp
  have fc: "frame_containing recording_crates = page_number" by (simp add: recording_crates_def)
  have ok: "\<forall>a\<in>set (usable_addrs (bi_memory_map info)). is_ok (frame_containing recording_crates a)"
    unfolding fc addrs using sample.frame_ok by blast
  have page: "\<forall>a b f. frame_containing recording_crates a = Inr f \<longrightarrow> frame_containing recording_crates b = Inr f
      \<longrightarrow> unat a div 4096 = unat b div 4096"
    unfolding fc using sample.frame_page by blast
  have "frame_buffer_of mebibyte_firmware = Inr \<lparr>address = 0x80000000, byte_len = 3145728, width = 1024,
      height = 768, stride = 1024, pixel_format = Bgr\<rparr>"
    by (simp add: frame_buffer_of_def mebibyte_firmware_def sample_firmware_def)
  then have fb: "framebuffer info = \<lparr>address = 0x80000000, byte_len = 3145728, width = 1024,
      height = 768, stride = 1024, pixel_format = Bgr\<rparr>"
    using efi_main_info(2) [OF run] by simp
  have "address (framebuffer info) \<noteq> 0" "fb_ok (framebuffer info)"
    "stride (framebuffer info) * height (framebuffer info) * 4 < usize_bound"
    by (simp_all add: fb fb_ok_def fb_sane_def usize_bound_def)
  note fb = this
  obtain r where r: "gdt_init (gdt_api recording_crates) (fault_stack sample_setting) = Inr r"
    using table_gdt by (auto simp: recording_crates_def sample_setting_def)
  have mp: "memory_init recording_crates sample_setting 0 = Inr []"
    by (simp add: memory_init_def active_level_4_table_def recording_crates_def)
  have maps: "maps_pages (map_to recording_crates) set (length (usable_addrs (bi_memory_map info)))"
    using recording_maps by (simp add: recording_crates_def)
  have "set heap_pages \<inter> set [] = {}" by simp
  from power_on [OF run sane fb ok page n maps r mp this] run show ?thesis by blast
qed

end
