(* ===== verification/Loader_Console.thy ===== *)
theory Loader_Console
  imports Loader Rust_Format
begin

text \<open>
  What the bootloader (\<^verbatim>\<open>src/bootloader/src/main.rs\<close>) prints on the firmware's console, line by
  line, up to the jump to the kernel, the status it returns or the panic; the message of a
  panic is the crate \<^verbatim>\<open>uefi_services\<close>' and not among them.
\<close>

definition hex64 :: "u64 \<Rightarrow> string" where
  "hex64 x = show_hex_alt (unat x)"

definition range_says :: "u64 \<Rightarrow> u64 \<Rightarrow> nat \<Rightarrow> string" where
  "range_says alloc_start alloc_end total_pages =
     ''  Kernel range: '' @ hex64 alloc_start @ '' - '' @ hex64 alloc_end @ '' ('' @ show_nat total_pages @ '' pages)''"

definition segment_says :: "segment \<Rightarrow> string" where
  "segment_says ph =
     ''  Segment: paddr='' @ hex64 (physical_addr ph) @ '', filesz='' @ hex64 (file_size ph)
       @ '', memsz='' @ hex64 (mem_size ph)"

text \<open>A segment is announced before it is copied, an empty one not at all.\<close>

fun copy_says :: "nat \<times> nat \<Rightarrow> u8 list \<Rightarrow> segment list \<Rightarrow> memory \<Rightarrow> string list" where
  "copy_says pages elf [] mem = []"
| "copy_says pages elf (ph # phs) mem =
     (case is_load ph of
        Inl p \<Rightarrow> []
      | Inr load \<Rightarrow>
          (if load \<and> mem_size ph \<noteq> 0 then [segment_says ph] else [])
          @ (case (if load then copy_segment pages elf ph mem else Inr mem) of
               Inl p \<Rightarrow> []
             | Inr mem \<Rightarrow> copy_says pages elf phs mem))"

definition load_says ::
  "(u64 \<Rightarrow> nat \<Rightarrow> u64 option) \<Rightarrow> u8 list \<Rightarrow> segment list \<Rightarrow> memory \<Rightarrow> string list" where
  "load_says allocate_pages elf phs mem =
     (case load_range phs (- 1) 0 of
        Inl p \<Rightarrow> []
      | Inr (load_min, load_max) \<Rightarrow>
          if load_min \<ge> load_max then [''No LOAD segments found!'']
          else
            (case checked_add load_max 0xFFF of
               Inl p \<Rightarrow> []
             | Inr e \<Rightarrow>
                 (let alloc_start = load_min AND NOT 0xFFF;
                      alloc_end = e AND NOT 0xFFF;
                      total_pages = unat ((alloc_end - alloc_start) div 0x1000)
                  in range_says alloc_start alloc_end total_pages
                     # (case allocate_pages alloc_start total_pages of
                          None \<Rightarrow> []
                        | Some alloc_addr \<Rightarrow>
                            copy_says (unat alloc_addr, total_pages * 0x1000) elf phs
                              (fill (unat alloc_addr) (total_pages * 0x1000) 0 mem)))))"

definition open_says :: "string list" where
  "open_says =
     [''Welcome to the Custom UEFI Bootloader!'',
      ''Attempting to locate the file system protocol...'',
      ''Attempting to open the kernel file...'']"

definition efi_says :: "firmware \<Rightarrow> memory \<Rightarrow> string list" where
  "efi_says fw mem =
     open_says
     @ (case fw_open fw of
          None \<Rightarrow> [''Failed to find kernel.elf. Ensure the kernel is present in the EFI partition root.'']
        | Some regular \<Rightarrow>
            if \<not> regular then [''kernel.elf is not a regular file!'']
            else ''Found kernel.elf! Reading file size...'' #
              (if length (fw_read fw) \<noteq> fw_file_size fw then
                 [''Failed to read kernel.elf completely: expected '' @ show_nat (fw_file_size fw)
                    @ '' bytes, got '' @ show_nat (length (fw_read fw))]
               else ''Parsing ELF...'' #
                 (case fw_parse fw (fw_read fw) of
                    None \<Rightarrow> []
                  | Some (phs, entry) \<Rightarrow>
                      ''Loading ELF segments...'' # load_says (fw_allocate fw) (fw_read fw) phs mem
                      @ (if (case load_segments (fw_allocate fw) (fw_read fw) phs mem of
                              Inr (Some loaded) \<Rightarrow> is_ok (frame_buffer_of fw) | _ \<Rightarrow> False)
                         then [''Exiting boot services and jumping to kernel at '' @ hex64 entry @ ''...''] else []))))"

lemma copy_says_all:
  "copy_segments pages elf phs mem = Inr mem' \<Longrightarrow>
     copy_says pages elf phs mem = map segment_says (filter (\<lambda>ph. mem_size ph \<noteq> 0) (loads phs))"
proof (induction phs arbitrary: mem)
  case (Cons ph phs)
  then show ?case
    by (cases "seg_type ph") (auto simp: bind_res_eq_Inr is_load_def loads_def)
qed (simp add: loads_def)

text \<open>What is printed while loading, by the outcome.\<close>

lemma load_says_loaded:
  assumes "load_segments al elf phs mem = Inr (Some mem')"
  obtains lo hi e where "load_range phs (- 1) 0 = Inr (lo, hi)" "checked_add hi 0xFFF = Inr e"
    "load_says al elf phs mem =
       range_says (lo AND NOT 0xFFF) (e AND NOT 0xFFF) (unat (((e AND NOT 0xFFF) - (lo AND NOT 0xFFF)) div 0x1000))
       # map segment_says (filter (\<lambda>ph. mem_size ph \<noteq> 0) (loads phs))"
proof -
  from assms obtain lo hi e a where r: "load_range phs (- 1) 0 = Inr (lo, hi)" "lo < hi" "checked_add hi 0xFFF = Inr e"
    and al: "al (lo AND NOT 0xFFF) (unat (((e AND NOT 0xFFF) - (lo AND NOT 0xFFF)) div 0x1000)) = Some a"
    and c: "copy_segments (unat a, unat (((e AND NOT 0xFFF) - (lo AND NOT 0xFFF)) div 0x1000) * 0x1000) elf phs
      (fill (unat a) (unat (((e AND NOT 0xFFF) - (lo AND NOT 0xFFF)) div 0x1000) * 0x1000) 0 mem) = Inr mem'"
    by (auto simp: load_segments_def bind_res_eq_Inr Let_def split: if_splits option.splits)
  have nle: "\<not> hi \<le> lo" using r(2) by simp
  have "load_says al elf phs mem =
       range_says (lo AND NOT 0xFFF) (e AND NOT 0xFFF) (unat (((e AND NOT 0xFFF) - (lo AND NOT 0xFFF)) div 0x1000))
       # map segment_says (filter (\<lambda>ph. mem_size ph \<noteq> 0) (loads phs))"
    unfolding load_says_def r(1,3) sum.case prod.case Let_def al option.case copy_says_all [OF c]
    using nle by simp
  with r(1,3) show ?thesis by (rule that)
qed

lemma load_says_nothing:
  "load_segments al elf phs mem = Inr None \<Longrightarrow> load_says al elf phs mem = [''No LOAD segments found!'']"
  by (auto simp: load_segments_def load_says_def bind_res_eq_Inr Let_def split: if_splits option.splits sum.splits)

subsection \<open>Properties\<close>

text \<open>C37. The bootloader's report is true: when it jumps to the kernel it has printed its stages, the
  page range it allocated, one line for each LOAD segment that is not empty, in order and
  with its numbers, and the entry point it jumps to; when it returns a status, its last line
  names the reason for exactly that status.\<close>

theorem loader_reports:
  "(efi_main fw mem = Inr (Inr (entry, info, mem')) \<longrightarrow>
      (\<exists>phs lo hi e. fw_parse fw (fw_read fw) = Some (phs, entry)
        \<and> load_range phs (- 1) 0 = Inr (lo, hi) \<and> checked_add hi 0xFFF = Inr e
        \<and> efi_says fw mem = open_says
            @ [''Found kernel.elf! Reading file size...'', ''Parsing ELF...'', ''Loading ELF segments...'',
               range_says (lo AND NOT 0xFFF) (e AND NOT 0xFFF)
                 (unat (((e AND NOT 0xFFF) - (lo AND NOT 0xFFF)) div 0x1000))]
            @ map segment_says (filter (\<lambda>ph. mem_size ph \<noteq> 0) (loads phs))
            @ [''Exiting boot services and jumping to kernel at '' @ hex64 entry @ ''...'']))
   \<and> (efi_main fw mem = Inr (Inl st) \<longrightarrow>
        last (efi_says fw mem) =
          (if fw_open fw = None then ''Failed to find kernel.elf. Ensure the kernel is present in the EFI partition root.''
           else if fw_open fw = Some False then ''kernel.elf is not a regular file!''
           else if length (fw_read fw) \<noteq> fw_file_size fw then
             ''Failed to read kernel.elf completely: expected '' @ show_nat (fw_file_size fw)
               @ '' bytes, got '' @ show_nat (length (fw_read fw))
           else ''No LOAD segments found!''))"
proof (intro conjI impI)
  assume "efi_main fw mem = Inr (Inr (entry, info, mem'))"
  then obtain phs where p: "fw_open fw = Some True" "length (fw_read fw) = fw_file_size fw"
      "fw_parse fw (fw_read fw) = Some (phs, entry)"
      "load_segments (fw_allocate fw) (fw_read fw) phs mem = Inr (Some mem')" "is_ok (frame_buffer_of fw)"
    by (auto simp: efi_main_def hand_over_def bind_res_eq_Inr is_ok_iff split: option.splits if_splits)
  from p(4) obtain lo hi e where l: "load_range phs (- 1) 0 = Inr (lo, hi)" "checked_add hi 0xFFF = Inr e"
    "load_says (fw_allocate fw) (fw_read fw) phs mem =
       range_says (lo AND NOT 0xFFF) (e AND NOT 0xFFF) (unat (((e AND NOT 0xFFF) - (lo AND NOT 0xFFF)) div 0x1000))
       # map segment_says (filter (\<lambda>ph. mem_size ph \<noteq> 0) (loads phs))"
    by (rule load_says_loaded)
  show "\<exists>phs lo hi e. fw_parse fw (fw_read fw) = Some (phs, entry)
        \<and> load_range phs (- 1) 0 = Inr (lo, hi) \<and> checked_add hi 0xFFF = Inr e
        \<and> efi_says fw mem = open_says
            @ [''Found kernel.elf! Reading file size...'', ''Parsing ELF...'', ''Loading ELF segments...'',
               range_says (lo AND NOT 0xFFF) (e AND NOT 0xFFF)
                 (unat (((e AND NOT 0xFFF) - (lo AND NOT 0xFFF)) div 0x1000))]
            @ map segment_says (filter (\<lambda>ph. mem_size ph \<noteq> 0) (loads phs))
            @ [''Exiting boot services and jumping to kernel at '' @ hex64 entry @ ''...'']"
    by (intro exI [of _ phs] exI [of _ lo] exI [of _ hi] exI [of _ e]) (simp add: efi_says_def p l)
next
  assume "efi_main fw mem = Inr (Inl st)"
  then show "last (efi_says fw mem) =
          (if fw_open fw = None then ''Failed to find kernel.elf. Ensure the kernel is present in the EFI partition root.''
           else if fw_open fw = Some False then ''kernel.elf is not a regular file!''
           else if length (fw_read fw) \<noteq> fw_file_size fw then
             ''Failed to read kernel.elf completely: expected '' @ show_nat (fw_file_size fw)
               @ '' bytes, got '' @ show_nat (length (fw_read fw))
           else ''No LOAD segments found!'')"
    by (auto simp: efi_main_def hand_over_def efi_says_def bind_res_eq_Inr load_says_nothing split: option.splits if_splits)
qed

text \<open>The run that the repository's \<^verbatim>\<open>serial.log\<close> records: its segments and entry point, in a file of
  zeros with the segments one page into it.\<close>

definition logged_segment :: "u64 \<Rightarrow> u64 \<Rightarrow> u64 \<Rightarrow> segment" where
  "logged_segment paddr filesz memsz =
     \<lparr>seg_type = Load, physical_addr = paddr, mem_size = memsz, file_size = filesz, offset = paddr - 0x1FF000\<rparr>"

definition logged_segments :: "segment list" where
  "logged_segments =
     [logged_segment 0x200000 0x6b2dc 0x6b2dc, logged_segment 0x26b2e0 0xc55c 0xc55c,
      logged_segment 0x277840 0xd0 0xd0, logged_segment 0x277910 0x79f8 0xde08]"

definition logged_firmware :: firmware where
  "logged_firmware = sample_firmware
     \<lparr>fw_file_size := 0x81000, fw_read := replicate 0x81000 0, fw_parse := \<lambda>_. Some (logged_segments, 0x219cc0)\<rparr>"

lemma logged_range: "load_range logged_segments (- 1) 0 = Inr (0x200000, 0x285718)"
  by (simp add: logged_segments_def logged_segment_def is_load_def checked_add_def)

lemma logged_load: "\<exists>mem'. load_segments (\<lambda>s n. Some s) (replicate 0x81000 0) logged_segments mem = Inr (Some mem')"
proof -
  have span: "page_span 0x200000 0x285718 = (0x200000, 0x86000)" by (simp add: page_span_def)
  have "unat (0x200000 AND NOT 0xFFF :: u64) = 0x200000" by (simp only: unat_align_down) simp
  moreover have "\<exists>mem'. copy_segments (0x200000, 0x86000) (replicate 0x81000 0) logged_segments m = Inr mem'" for m
    by (simp add: logged_segments_def logged_segment_def is_load_def copy_segment_def add_usize_def fits_usize_def)
  ultimately show ?thesis
    using load_segments_eq [OF logged_range, of "\<lambda>s n. Some s" "0x200000 AND NOT 0xFFF" "replicate 0x81000 0" mem]
    by (auto simp: span) (metis bind_res_simps(2))
qed

lemma logged_main: "\<exists>info mem'. efi_main logged_firmware mem = Inr (Inr (0x219cc0, info, mem'))"
proof -
  obtain mem' where load: "load_segments (\<lambda>s n. Some s) (replicate 0x81000 0) logged_segments mem = Inr (Some mem')"
    using logged_load by blast
  have "fw_memory_map logged_firmware = fw_memory_map sample_firmware" by (simp add: logged_firmware_def)
  then have "is_ok (frame_buffer_of logged_firmware)" "is_ok (map_res region_of_descriptor (fw_memory_map logged_firmware))"
    using sample_regions by (simp_all add: frame_buffer_of_def) (simp add: logged_firmware_def sample_firmware_def)
  then have "\<exists>info. efi_main logged_firmware mem = Inr (Inr (0x219cc0, info, mem'))"
    using load by (intro efi_main_enters) (simp_all add: logged_firmware_def sample_firmware_def)
  then show ?thesis by blast
qed

theorem loader_reports_witness:
  "efi_says logged_firmware (\<lambda>_. 0) =
     [''Welcome to the Custom UEFI Bootloader!'',
      ''Attempting to locate the file system protocol...'',
      ''Attempting to open the kernel file...'',
      ''Found kernel.elf! Reading file size...'',
      ''Parsing ELF...'',
      ''Loading ELF segments...'',
      ''  Kernel range: 0x200000 - 0x286000 (134 pages)'',
      ''  Segment: paddr=0x200000, filesz=0x6b2dc, memsz=0x6b2dc'',
      ''  Segment: paddr=0x26b2e0, filesz=0xc55c, memsz=0xc55c'',
      ''  Segment: paddr=0x277840, filesz=0xd0, memsz=0xd0'',
      ''  Segment: paddr=0x277910, filesz=0x79f8, memsz=0xde08'',
      ''Exiting boot services and jumping to kernel at 0x219cc0...'']"
proof -
  obtain info mem' where "efi_main logged_firmware (\<lambda>_. 0) = Inr (Inr (0x219cc0, info, mem'))"
    using logged_main by blast
  then obtain phs lo hi e where r: "fw_parse logged_firmware (fw_read logged_firmware) = Some (phs, 0x219cc0)"
      "load_range phs (- 1) 0 = Inr (lo, hi)" "checked_add hi 0xFFF = Inr e"
    and says: "efi_says logged_firmware (\<lambda>_. 0) = open_says
            @ [''Found kernel.elf! Reading file size...'', ''Parsing ELF...'', ''Loading ELF segments...'',
               range_says (lo AND NOT 0xFFF) (e AND NOT 0xFFF)
                 (unat (((e AND NOT 0xFFF) - (lo AND NOT 0xFFF)) div 0x1000))]
            @ map segment_says (filter (\<lambda>ph. mem_size ph \<noteq> 0) (loads phs))
            @ [''Exiting boot services and jumping to kernel at '' @ hex64 0x219cc0 @ ''...'']"
    using loader_reports [of logged_firmware "\<lambda>_. 0"] by blast
  have phs: "phs = logged_segments" using r(1) by (simp add: logged_firmware_def)
  then have lh: "lo = 0x200000" "hi = 0x285718" using r(2) logged_range by simp_all
  then have e: "e = 0x286717" using r(3) by (simp add: checked_add_def split: if_splits)
  have al: "(0x200000 AND NOT 0xFFF :: u64) = 0x200000" "(0x286717 AND NOT 0xFFF :: u64) = 0x286000" by simp_all
  note printed = hex64_def show_hex_alt_def show_hex.simps hex_char_def show_nat.simps digit_char_def char_of_def bit_iff_odd
  have "range_says 0x200000 0x286000 (unat ((0x286000 - 0x200000 :: u64) div 0x1000))
      = ''  Kernel range: 0x200000 - 0x286000 (134 pages)''" by (simp add: range_says_def printed)
  moreover have "map segment_says (filter (\<lambda>ph. mem_size ph \<noteq> 0) (loads logged_segments)) =
     [''  Segment: paddr=0x200000, filesz=0x6b2dc, memsz=0x6b2dc'',
      ''  Segment: paddr=0x26b2e0, filesz=0xc55c, memsz=0xc55c'',
      ''  Segment: paddr=0x277840, filesz=0xd0, memsz=0xd0'',
      ''  Segment: paddr=0x277910, filesz=0x79f8, memsz=0xde08'']"
    by (simp add: logged_segments_def logged_segment_def loads_def segment_says_def printed)
  moreover have "hex64 0x219cc0 = ''0x219cc0''" by (simp add: printed)
  ultimately show ?thesis by (simp only: says phs lh e al open_says_def append.simps)
qed

end
