(* ===== verification/Locks.thy ===== *)
theory Locks
  imports Interrupts
begin

text \<open>
  The spin locks of the kernel and the interrupts. Every global of the source is behind a
  \<^verbatim>\<open>spin::Mutex\<close>; a guard lives to the end of its scope, so what a function does with locks
  and the interrupt flag has the shape of its source, a \<open>code\<close>: nested locked scopes,
  \<^verbatim>\<open>without_interrupts\<close> blocks, branches and loops. The heap's lock counts as well: whatever
  allocates takes it for a moment. The machine runs the main loop's events and, wherever the
  interrupt flag is set, a handler's; a context that wants a lock that is held waits for
  ever, because the holder is itself or the context it interrupted. Shown is which lock that
  can happen to.
\<close>

subsection \<open>Locks and their order\<close>

datatype lock =
    DRIVERS | VM_MANAGER | NET_STACK | PROMPT | FS | CURRENT_DIR | SCHEDULER
  | INPUT | SERIAL1 | WRITER | PICS | ALLOCATOR

text \<open>An order in which no function takes two locks the other way round.\<close>

fun rank :: "lock \<Rightarrow> nat" where
  "rank DRIVERS = 0" | "rank VM_MANAGER = 1" | "rank NET_STACK = 2" | "rank PROMPT = 3"
| "rank FS = 4" | "rank CURRENT_DIR = 5" | "rank SCHEDULER = 6" | "rank INPUT = 7"
| "rank SERIAL1 = 8" | "rank WRITER = 9" | "rank PICS = 10" | "rank ALLOCATOR = 11"

lemma rank_inj: "rank a = rank b \<longleftrightarrow> a = b"
  by (cases a; cases b) simp_all

instantiation lock :: linorder
begin

definition less_eq_lock :: "lock \<Rightarrow> lock \<Rightarrow> bool" where
  "less_eq_lock a b = (rank a \<le> rank b)"

definition less_lock :: "lock \<Rightarrow> lock \<Rightarrow> bool" where
  "less_lock a b = (rank a < rank b)"

instance
  by standard (auto simp: less_eq_lock_def less_lock_def rank_inj)

end

subsection \<open>The shape of a function\<close>

datatype code =
    Locked lock "code list"
  | Without_Interrupts "code list"
  | Choice "code list list"
  | Loop "code list"

datatype event = Acquire lock | Release lock | Cli | Sti

text \<open>The events of one execution, the flag telling whether interrupts are enabled on entry:
  \<^verbatim>\<open>without_interrupts\<close> enables them again only if they were.\<close>

inductive trace :: "bool \<Rightarrow> code list \<Rightarrow> event list \<Rightarrow> bool" where
  finish: "trace on [] []"
| locked: "trace on body es \<Longrightarrow> trace on rest es' \<Longrightarrow>
     trace on (Locked l body # rest) (Acquire l # es @ Release l # es')"
| masked: "trace False body es \<Longrightarrow> trace True rest es' \<Longrightarrow>
     trace True (Without_Interrupts body # rest) (Cli # es @ Sti # es')"
| nested: "trace False body es \<Longrightarrow> trace False rest es' \<Longrightarrow>
     trace False (Without_Interrupts body # rest) (es @ es')"
| choice: "c \<in> set cs \<Longrightarrow> trace on c es \<Longrightarrow> trace on rest es' \<Longrightarrow> trace on (Choice cs # rest) (es @ es')"
| loop_end: "trace on rest es \<Longrightarrow> trace on (Loop body # rest) es"
| loop: "trace on body es \<Longrightarrow> trace on (Loop body # rest) es' \<Longrightarrow> trace on (Loop body # rest) (es @ es')"

subsection \<open>Consoles, input and handlers\<close>

text \<open>Anything that may allocate or free, any number of times.\<close>

definition alloc_code :: code where
  "alloc_code = Loop [Locked ALLOCATOR []]"

definition serial_print_code :: "code list" where
  "serial_print_code = [Without_Interrupts [Locked SERIAL1 []]]"

definition print_code :: "code list" where
  "print_code = [Without_Interrupts [Locked WRITER []]]"

definition clear_screen_code :: "code list" where
  "clear_screen_code = [Without_Interrupts [Locked WRITER []]]"

definition set_colors_code :: "code list" where
  "set_colors_code = [Without_Interrupts [Locked WRITER []]]"

text \<open>A text on both consoles, and one that is formatted into a \<^verbatim>\<open>String\<close> first.\<close>

definition both_code :: "code list" where
  "both_code = serial_print_code @ print_code"

definition say_code :: "code list" where
  "say_code = [alloc_code] @ both_code @ [alloc_code]"

definition push_char_code :: "code list" where
  "push_char_code = [Without_Interrupts [Locked INPUT [alloc_code]]]"

definition backspace_code :: "code list" where
  "backspace_code = [Without_Interrupts [Locked INPUT []]]"

definition commit_line_code :: "code list" where
  "commit_line_code = [Without_Interrupts [Locked INPUT [alloc_code]]]"

definition pop_line_code :: "code list" where
  "pop_line_code = [Without_Interrupts [Locked INPUT []]]"

definition get_modifiers_code :: "code list" where
  "get_modifiers_code = [Without_Interrupts [Locked INPUT []]]"

text \<open>\<^verbatim>\<open>handle_key_event\<close>, and the shell's copy of it.\<close>

definition key_event_code :: "code list" where
  "key_event_code =
     [Choice [push_char_code @ both_code, backspace_code @ [Choice [both_code, []]], commit_line_code @ both_code]]"

definition timer_code :: "code list" where
  "timer_code = [Locked PICS []]"

definition keyboard_code :: "code list" where
  "keyboard_code = [Choice [key_event_code, []], Locked PICS []]"

definition serial_code :: "code list" where
  "serial_code = [Loop [Choice [key_event_code, []]], Locked PICS []]"

definition handler_codes :: "code list list" where
  "handler_codes = [timer_code, keyboard_code, serial_code]"

definition poll_code :: "code list" where
  "poll_code = [Loop [Choice [key_event_code, []]]]"

subsection \<open>The commands\<close>

definition current_dir_code :: "code list" where
  "current_dir_code = [Locked CURRENT_DIR [alloc_code]]"

definition resolve_code :: "code list" where
  "resolve_code = [Choice [[alloc_code], current_dir_code], alloc_code]"

text \<open>\<^verbatim>\<open>cd\<close> assigns the current directory while it holds the tree.\<close>

definition change_directory_code :: "code list" where
  "change_directory_code =
     resolve_code @ [Locked FS [alloc_code, Choice [[Locked CURRENT_DIR [alloc_code]], []]], alloc_code]"

definition list_directory_code :: "code list" where
  "list_directory_code =
     [Choice [current_dir_code, resolve_code],
      Locked FS [alloc_code, Choice [both_code @ [Choice [both_code, [Loop say_code]]], both_code], alloc_code], alloc_code]"

definition print_tree_code :: "code list" where
  "print_tree_code = [Locked FS (both_code @ [alloc_code, Loop say_code, alloc_code])]"

text \<open>\<^verbatim>\<open>read_file_string\<close>, \<^verbatim>\<open>write_file_string\<close>, \<^verbatim>\<open>create_dir\<close> and \<^verbatim>\<open>remove_node\<close>.\<close>

definition node_op_code :: "code list" where
  "node_op_code = resolve_code @ [Locked FS [alloc_code], alloc_code]"

definition print_drivers_code :: "code list" where
  "print_drivers_code = [Locked DRIVERS ([alloc_code] @ both_code @ [Loop say_code, alloc_code])]"

definition print_ifconfig_code :: "code list" where
  "print_ifconfig_code = [Locked NET_STACK [Loop say_code]]"

definition ping_code :: "code list" where
  "ping_code =
     [Locked NET_STACK
        ([alloc_code] @ both_code @ [alloc_code, Choice [[Loop say_code] @ say_code, say_code], alloc_code])]"

definition print_vmap_code :: "code list" where
  "print_vmap_code = [Locked VM_MANAGER (both_code @ [Loop say_code])]"

definition heap_stats_code :: "code list" where
  "heap_stats_code = [Locked ALLOCATOR []]"

definition snapshot_tasks_code :: "code list \<Rightarrow> code list" where
  "snapshot_tasks_code visit = [Locked SCHEDULER [Loop visit]]"

definition kill_task_code :: "code list" where
  "kill_task_code = [Locked SCHEDULER []]"

definition spawn_task_code :: "code list" where
  "spawn_task_code = [Locked SCHEDULER []]"

definition print_prompt_code :: "code list" where
  "print_prompt_code = [Locked PROMPT (current_dir_code @ both_code @ [alloc_code])]"

definition prompt_code :: "code list" where
  "prompt_code = [Choice [[Locked PROMPT say_code], both_code]]"

text \<open>The arms of \<^verbatim>\<open>handle_command\<close>, arms of one shape once: nothing; only a text; a formatted
  text; then the arms with locks of their own. Of \<^verbatim>\<open>panic\<close> the two messages.\<close>

definition command_code :: "code list" where
  "command_code =
     [Choice
       [[], both_code, say_code,
        print_drivers_code, print_ifconfig_code, ping_code, print_vmap_code,
        get_modifiers_code @ say_code,
        heap_stats_code @ say_code,
        change_directory_code @ [Choice [current_dir_code @ both_code @ [alloc_code], both_code]],
        current_dir_code @ both_code @ [alloc_code],
        prompt_code,
        set_colors_code @ both_code,
        list_directory_code, print_tree_code,
        node_op_code @ both_code @ [alloc_code],
        both_code @ snapshot_tasks_code both_code,
        clear_screen_code @ serial_print_code,
        spawn_task_code @ [Choice [say_code, both_code]],
        kill_task_code @ say_code]]"

definition run_once_code :: "code list" where
  "run_once_code =
     poll_code @ poll_code @ pop_line_code @ [Choice [[], command_code @ print_prompt_code @ [alloc_code]]]"

text \<open>A round: prepare a task, run it (only the shell takes locks), commit the result.\<close>

definition main_loop_code :: "code list" where
  "main_loop_code = [Loop [Locked SCHEDULER [], Choice [[], [Choice [[], run_once_code], Locked SCHEDULER []]]]]"

subsection \<open>Start-up\<close>

definition scheduler_init_code :: "code list" where
  "scheduler_init_code = [Locked SCHEDULER both_code]"

definition shell_init_code :: "code list" where
  "shell_init_code = both_code @ print_prompt_code"

text \<open>\<^verbatim>\<open>kernel_main\<close> up to \<^verbatim>\<open>cpu_irq::enable\<close>, with the breakpoint handler of its self-test, and
  the two messages after it.\<close>

definition boot_code :: "code list" where
  "boot_code =
     [Without_Interrupts [Locked WRITER []]] @ serial_print_code @ serial_print_code @ serial_print_code
     @ [Locked PICS []] @ serial_print_code
     @ both_code @ serial_print_code
     @ [Locked ALLOCATOR []] @ serial_print_code
     @ [alloc_code] @ serial_print_code @ [alloc_code] @ serial_print_code @ [alloc_code] @ serial_print_code
     @ serial_print_code @ scheduler_init_code @ serial_print_code @ shell_init_code"

definition ready_code :: "code list" where
  "ready_code = serial_print_code @ print_code"

subsection \<open>The machine\<close>

record lock_machine =
  todo :: "event list"
  isr :: "event list option"
  held_main :: "lock set"
  held_isr :: "lock set"
  irq :: bool

fun main_event :: "event \<Rightarrow> lock_machine \<Rightarrow> lock_machine" where
  "main_event (Acquire l) m = m\<lparr>held_main := insert l (held_main m)\<rparr>"
| "main_event (Release l) m = m\<lparr>held_main := held_main m - {l}\<rparr>"
| "main_event Cli m = m\<lparr>irq := False\<rparr>"
| "main_event Sti m = m\<lparr>irq := True\<rparr>"

fun isr_event :: "event \<Rightarrow> lock_machine \<Rightarrow> lock_machine" where
  "isr_event (Acquire l) m = m\<lparr>held_isr := insert l (held_isr m)\<rparr>"
| "isr_event (Release l) m = m\<lparr>held_isr := held_isr m - {l}\<rparr>"
| "isr_event Cli m = m\<lparr>irq := False\<rparr>"
| "isr_event Sti m = m\<lparr>irq := True\<rparr>"

definition next_event :: "lock_machine \<Rightarrow> event option" where
  "next_event m =
     (case isr m of
        Some (e # _) \<Rightarrow> Some e
      | Some [] \<Rightarrow> None
      | None \<Rightarrow> (case todo m of e # _ \<Rightarrow> Some e | [] \<Rightarrow> None))"

text \<open>The running context spins on a lock that is held.\<close>

definition waits_for :: "lock_machine \<Rightarrow> lock \<Rightarrow> bool" where
  "waits_for m l = (next_event m = Some (Acquire l) \<and> l \<in> held_main m \<union> held_isr m)"

inductive lock_step :: "lock_machine \<Rightarrow> lock_machine \<Rightarrow> bool" where
  main: "isr m = None \<Longrightarrow> todo m = e # es \<Longrightarrow> \<nexists>l. waits_for m l \<Longrightarrow>
     lock_step m (main_event e (m\<lparr>todo := es\<rparr>))"
| interrupt: "isr m = None \<Longrightarrow> irq m \<Longrightarrow> h \<in> set handler_codes \<Longrightarrow> trace False h es \<Longrightarrow>
     lock_step m (m\<lparr>isr := Some es, irq := False\<rparr>)"
| isr: "isr m = Some (e # es) \<Longrightarrow> \<nexists>l. waits_for m l \<Longrightarrow> lock_step m (isr_event e (m\<lparr>isr := Some es\<rparr>))"
| iret: "isr m = Some [] \<Longrightarrow> lock_step m (m\<lparr>isr := None, irq := True\<rparr>)"

text \<open>The kernel is entered with interrupts disabled (nothing in the source disables them), no
  lock held, and runs \<^verbatim>\<open>kernel_main\<close>.\<close>

definition lock_start :: "lock_machine \<Rightarrow> bool" where
  "lock_start m =
     ((\<exists>boot es. trace False boot_code boot \<and> trace True (ready_code @ main_loop_code) es
         \<and> todo m = boot @ Sti # es)
      \<and> isr m = None \<and> held_main m = {} \<and> held_isr m = {} \<and> \<not> irq m)"

subsection \<open>The discipline, checked on the code\<close>

text \<open>The locks that interrupt handlers take, the heap's aside.\<close>

definition handler_locks :: "lock set" where
  "handler_locks = {INPUT, SERIAL1, WRITER, PICS}"

text \<open>Locks are taken in increasing order, and one that a handler takes only with interrupts
  disabled.\<close>

fun disciplined :: "lock list \<Rightarrow> bool \<Rightarrow> code list \<Rightarrow> bool" where
  "disciplined H on [] = True"
| "disciplined H on (Locked l body # rest) =
     (list_all (\<lambda>h. h < l) H \<and> (on \<longrightarrow> l \<notin> handler_locks)
      \<and> disciplined (l # H) on body \<and> disciplined H on rest)"
| "disciplined H on (Without_Interrupts body # rest) = (disciplined H False body \<and> disciplined H on rest)"
| "disciplined H on (Choice cs # rest) = ((\<forall>c\<in>set cs. disciplined H on c) \<and> disciplined H on rest)"
| "disciplined H on (Loop body # rest) = (disciplined H on body \<and> disciplined H on rest)"

text \<open>The same of a list of events, run with the locks \<open>H\<close> held and the flag \<open>on\<close>; at the end
  every lock is released.\<close>

fun well_locked :: "lock set \<Rightarrow> bool \<Rightarrow> event list \<Rightarrow> bool" where
  "well_locked H on [] = (H = {})"
| "well_locked H on (Acquire l # es) =
     (l \<notin> H \<and> (on \<longrightarrow> l \<notin> handler_locks) \<and> well_locked (insert l H) on es)"
| "well_locked H on (Release l # es) = well_locked (H - {l}) on es"
| "well_locked H on (Cli # es) = well_locked H False es"
| "well_locked H on (Sti # es) = (H \<inter> handler_locks = {} \<and> well_locked H True es)"

lemma trace_well_locked:
  assumes "trace on c es" "disciplined H on c" "on \<longrightarrow> set H \<inter> handler_locks = {}"
    and "well_locked (set H) on rest"
  shows "well_locked (set H) on (es @ rest)"
  using assms
proof (induction arbitrary: H rest rule: trace.induct)
  case (locked on body es r es' l)
  have l: "l \<notin> set H" "on \<longrightarrow> l \<notin> handler_locks" using locked.prems(1) by (auto simp: list_all_iff)
  have "well_locked (set H) on (es' @ rest)" using locked.IH(2) locked.prems by simp
  then have "well_locked (set (l # H)) on (Release l # es' @ rest)" using l(1) by simp
  then have "well_locked (set (l # H)) on (es @ Release l # es' @ rest)"
    using locked.IH(1) [of "l # H"] locked.prems l by simp
  with l show ?case by simp
next
  case (masked body es r es')
  have "well_locked (set H) True (es' @ rest)" using masked.IH(2) masked.prems by simp
  then have "well_locked (set H) False (Sti # es' @ rest)" using masked.prems by simp
  then show ?case using masked.IH(1) [of H] masked.prems by simp
next
  case (nested body es r es')
  then show ?case by simp
next
  case (choice c cs on es r es')
  then show ?case by simp
next
  case (loop on body es r es')
  then show ?case by simp
qed simp_all

lemma disciplined_well_locked: "trace on c es \<Longrightarrow> disciplined [] on c \<Longrightarrow> well_locked {} on es"
  using trace_well_locked [of on c es "[]" "[]"] by simp

text \<open>A handler runs with interrupts off throughout.\<close>

lemma masked_trace: "trace on c es \<Longrightarrow> \<not> on \<Longrightarrow> Cli \<notin> set es \<and> Sti \<notin> set es"
  by (induction rule: trace.induct) auto

fun code_locks :: "code list \<Rightarrow> lock set" where
  "code_locks [] = {}"
| "code_locks (Locked l body # rest) = insert l (code_locks body \<union> code_locks rest)"
| "code_locks (Without_Interrupts body # rest) = code_locks body \<union> code_locks rest"
| "code_locks (Choice cs # rest) = (\<Union>c\<in>set cs. code_locks c) \<union> code_locks rest"
| "code_locks (Loop body # rest) = code_locks body \<union> code_locks rest"

lemma trace_locks: "trace on c es \<Longrightarrow> Acquire l \<in> set es \<Longrightarrow> l \<in> code_locks c"
  by (induction rule: trace.induct) auto

lemmas code_defs =
  alloc_code_def serial_print_code_def print_code_def clear_screen_code_def set_colors_code_def
  both_code_def say_code_def push_char_code_def backspace_code_def commit_line_code_def
  pop_line_code_def get_modifiers_code_def key_event_code_def timer_code_def keyboard_code_def
  serial_code_def handler_codes_def poll_code_def current_dir_code_def resolve_code_def
  change_directory_code_def list_directory_code_def print_tree_code_def node_op_code_def
  print_drivers_code_def print_ifconfig_code_def ping_code_def print_vmap_code_def
  heap_stats_code_def snapshot_tasks_code_def kill_task_code_def spawn_task_code_def
  print_prompt_code_def prompt_code_def command_code_def run_once_code_def main_loop_code_def
  scheduler_init_code_def shell_init_code_def boot_code_def ready_code_def

lemma main_loop_disciplined: "disciplined [] True (ready_code @ main_loop_code)"
  by (simp add: code_defs handler_locks_def less_lock_def)

lemma boot_disciplined: "disciplined [] False boot_code"
  by (simp add: code_defs less_lock_def)

lemma handlers_disciplined: "h \<in> set handler_codes \<Longrightarrow> disciplined [] False h"
  by (auto simp: code_defs less_lock_def)

lemma handlers_locks: "h \<in> set handler_codes \<Longrightarrow> code_locks h \<subseteq> insert ALLOCATOR handler_locks"
  by (auto simp: code_defs handler_locks_def)

subsection \<open>The invariant\<close>

definition lock_inv :: "lock_machine \<Rightarrow> bool" where
  "lock_inv m =
     (case isr m of
        None \<Rightarrow> well_locked (held_main m) (irq m) (todo m) \<and> held_isr m = {}
          \<and> (irq m \<longrightarrow> held_main m \<inter> handler_locks = {})
      | Some es \<Rightarrow> \<not> irq m \<and> well_locked (held_main m) True (todo m) \<and> held_main m \<inter> handler_locks = {}
          \<and> well_locked (held_isr m) False es \<and> Cli \<notin> set es \<and> Sti \<notin> set es
          \<and> (\<forall>l. Acquire l \<in> set es \<longrightarrow> l \<in> insert ALLOCATOR handler_locks))"

lemma lock_inv_start:
  assumes "lock_start m"
  shows "lock_inv m"
proof -
  obtain boot es where t: "trace False boot_code boot" "trace True (ready_code @ main_loop_code) es"
    and m: "todo m = boot @ Sti # es" "isr m = None" "held_main m = {}" "held_isr m = {}" "\<not> irq m"
    using assms by (auto simp: lock_start_def)
  have "well_locked {} True es" by (rule disciplined_well_locked [OF t(2) main_loop_disciplined])
  then have "well_locked {} False (boot @ Sti # es)"
    using trace_well_locked [OF t(1) boot_disciplined, of "Sti # es"] by simp
  with m show ?thesis by (simp add: lock_inv_def)
qed

lemma lock_inv_main:
  assumes "lock_inv m" "isr m = None" "todo m = e # es"
  shows "lock_inv (main_event e (m\<lparr>todo := es\<rparr>))"
  using assms by (cases e) (auto simp: lock_inv_def)

lemma lock_inv_interrupt:
  assumes inv: "lock_inv m" "isr m = None" "irq m" and h: "h \<in> set handler_codes" "trace False h es"
  shows "lock_inv (m\<lparr>isr := Some es, irq := False\<rparr>)"
proof -
  have "well_locked {} False es" by (rule disciplined_well_locked [OF h(2) handlers_disciplined [OF h(1)]])
  moreover have "l \<in> insert ALLOCATOR handler_locks" if "Acquire l \<in> set es" for l
    using trace_locks [OF h(2) that] handlers_locks [OF h(1)] by blast
  ultimately show ?thesis using inv masked_trace [OF h(2)] by (simp add: lock_inv_def)
qed

lemma lock_inv_isr:
  assumes "lock_inv m" "isr m = Some (e # es)"
  shows "lock_inv (isr_event e (m\<lparr>isr := Some es\<rparr>))"
  using assms by (cases e) (auto simp: lock_inv_def)

lemma lock_step_inv: "lock_inv m \<Longrightarrow> lock_step m m' \<Longrightarrow> lock_inv m'"
proof (erule lock_step.cases)
  fix m0 assume "lock_inv m" "m = m0" "isr m0 = Some []" "m' = m0\<lparr>isr := None, irq := True\<rparr>"
  then show "lock_inv m'" by (simp add: lock_inv_def)
qed (use lock_inv_main lock_inv_interrupt lock_inv_isr in blast)+

interpretation locks: safety lock_start lock_step lock_inv
  by unfold_locales (auto intro: lock_inv_start lock_step_inv)

lemma waits_in_handler:
  assumes inv: "lock_inv m" and w: "waits_for m l"
  shows "l = ALLOCATOR \<and> l \<in> held_main m \<and> (\<exists>es. isr m = Some (Acquire l # es))"
proof (cases "isr m")
  case None
  then show ?thesis
    using inv w by (auto simp: lock_inv_def waits_for_def next_event_def split: list.splits)
next
  case (Some es)
  with w obtain r where "es = Acquire l # r"
    by (auto simp: waits_for_def next_event_def split: list.splits)
  with Some inv w show ?thesis by (auto simp: lock_inv_def waits_for_def)
qed

subsection \<open>Progress\<close>

text \<open>A context that does not spin can take its next event.\<close>

definition finished_all :: "lock_machine \<Rightarrow> bool" where
  "finished_all m = (isr m = None \<and> todo m = [])"

lemma moves_or_waits: "finished_all m \<or> (\<exists>l. waits_for m l) \<or> (\<exists>m'. lock_step m m')"
proof (cases "isr m")
  case None
  then show ?thesis
    by (cases "todo m") (auto simp: finished_all_def intro: lock_step.main)
next
  case (Some es)
  then show ?thesis
    by (cases es) (auto intro: lock_step.isr lock_step.iret)
qed

lemma waiting_handler_is_stuck:
  assumes "isr m = Some es" "waits_for m l"
  shows "\<not> lock_step m m'"
proof
  assume "lock_step m m'"
  then show False using assms by cases (auto simp: waits_for_def next_event_def)
qed

subsection \<open>Runs of the main context\<close>

lemma main_event_todo [simp]: "main_event e (m\<lparr>todo := es\<rparr>) = (main_event e m)\<lparr>todo := es\<rparr>"
  by (cases e) simp_all

lemma main_event_isr [simp]: "isr (main_event e m) = isr m" "held_isr (main_event e m) = held_isr m"
  by (cases e; simp)+

lemma main_events_isr [simp]: "isr (fold main_event es m) = isr m" "held_isr (fold main_event es m) = held_isr m"
  by (induction es arbitrary: m) simp_all

lemma main_events_todo: "fold main_event es (m\<lparr>todo := ys\<rparr>) = (fold main_event es m)\<lparr>todo := ys\<rparr>"
  by (induction es arbitrary: m) simp_all

text \<open>Disciplined code leaves the locks and the flag as it finds them.\<close>

lemma trace_balanced:
  "trace on c es \<Longrightarrow> disciplined H on c \<Longrightarrow> held_main m = set H \<Longrightarrow> irq m = on \<Longrightarrow> fold main_event es m = m"
proof (induction arbitrary: H m rule: trace.induct)
  case (locked on body es r es' l)
  let ?m = "m\<lparr>held_main := insert l (held_main m)\<rparr>"
  have l: "l \<notin> held_main m" using locked.prems by (auto simp: list_all_iff)
  have "fold main_event es ?m = ?m" using locked.prems by (intro locked.IH(1) [of "l # H"]) simp_all
  moreover have "main_event (Release l) ?m = m" using l by simp
  moreover have "fold main_event es' m = m" using locked.prems by (intro locked.IH(2) [of H]) simp_all
  ultimately show ?case by simp
next
  case (masked body es r es')
  let ?m = "m\<lparr>irq := False\<rparr>"
  have "fold main_event es ?m = ?m" using masked.prems by (intro masked.IH(1) [of H]) simp_all
  moreover have "main_event Sti ?m = m" using masked.prems by simp
  moreover have "fold main_event es' m = m" using masked.prems by (intro masked.IH(2) [of H]) simp_all
  ultimately show ?case by simp
next
  case (nested body es r es')
  then show ?case using nested.IH(1) [of H m] nested.IH(2) [of H m] by simp
next
  case (choice c cs on es r es')
  then show ?case using choice.IH(1) [of H m] choice.IH(2) [of H m] by simp
next
  case (loop on body es r es')
  then show ?case using loop.IH(1) [of H m] loop.IH(2) [of H m] by simp
qed (fastforce)+

lemma main_events_run:
  "lock_inv m \<Longrightarrow> isr m = None \<Longrightarrow> todo m = es @ rest \<Longrightarrow>
     lock_step\<^sup>*\<^sup>* m ((fold main_event es m)\<lparr>todo := rest\<rparr>)"
proof (induction es arbitrary: m)
  case Nil
  then have "m\<lparr>todo := rest\<rparr> = m" by (cases m) simp
  then show ?case by simp
next
  case (Cons e es)
  let ?m = "main_event e (m\<lparr>todo := es @ rest\<rparr>)"
  have todo: "todo m = e # es @ rest" using Cons.prems(3) by simp
  have "\<nexists>l. waits_for m l" using waits_in_handler [OF Cons.prems(1)] Cons.prems(2) by auto
  then have step: "lock_step m ?m" using Cons.prems(2) todo by (intro lock_step.main)
  have "lock_step\<^sup>*\<^sup>* ?m ((fold main_event es ?m)\<lparr>todo := rest\<rparr>)"
    using lock_inv_main [OF Cons.prems(1,2) todo] Cons.prems(2) by (intro Cons.IH) simp_all
  with step show ?case by (simp add: main_events_todo converse_rtranclp_into_rtranclp)
qed

subsection \<open>Some executions\<close>

text \<open>The execution that takes the first branch and no loop.\<close>

fun first_trace :: "bool \<Rightarrow> code list \<Rightarrow> event list" where
  "first_trace on [] = []"
| "first_trace on (Locked l body # rest) =
     Acquire l # first_trace on body @ Release l # first_trace on rest"
| "first_trace on (Without_Interrupts body # rest) =
     (if on then Cli # first_trace False body @ Sti # first_trace on rest
      else first_trace False body @ first_trace on rest)"
| "first_trace on (Choice [] # rest) = []"
| "first_trace on (Choice (c # cs) # rest) = first_trace on c @ first_trace on rest"
| "first_trace on (Loop body # rest) = first_trace on rest"

fun branches :: "code list \<Rightarrow> bool" where
  "branches [] = True"
| "branches (Locked l body # rest) = (branches body \<and> branches rest)"
| "branches (Without_Interrupts body # rest) = (branches body \<and> branches rest)"
| "branches (Choice cs # rest) = (cs \<noteq> [] \<and> (\<forall>c\<in>set cs. branches c) \<and> branches rest)"
| "branches (Loop body # rest) = branches rest"

lemma trace_first: "branches c \<Longrightarrow> trace on c (first_trace on c)"
  by (induction on c rule: first_trace.induct) (auto intro: trace.intros)

lemma trace_append: "trace on c es \<Longrightarrow> trace on d es' \<Longrightarrow> trace on (c @ d) (es @ es')"
  by (induction rule: trace.induct) (auto intro: trace.intros)

lemma trace_exists: "branches c \<Longrightarrow> \<exists>es. trace on c es"
  using trace_first by blast

lemma boot_runs: "\<exists>es. trace False boot_code es"
  by (rule trace_exists) (simp add: code_defs)

text \<open>A keyboard interrupt for a letter: the line's buffer grows.\<close>

lemma keyboard_allocates:
  "\<exists>es. trace False keyboard_code (Acquire INPUT # Acquire ALLOCATOR # es)"
proof -
  have "trace False [alloc_code] ([Acquire ALLOCATOR, Release ALLOCATOR] @ [])"
    unfolding alloc_code_def
    using trace.locked [OF trace.finish trace.finish, of False ALLOCATOR]
    by (intro trace.loop trace.loop_end trace.finish) simp
  from trace.nested [OF trace.locked [OF this trace.finish, of INPUT] trace.finish]
  have "trace False push_char_code [Acquire INPUT, Acquire ALLOCATOR, Release ALLOCATOR, Release INPUT]"
    by (simp add: push_char_code_def)
  from trace_append [OF this trace_first [of both_code False]]
  have key: "trace False (push_char_code @ both_code)
      ([Acquire INPUT, Acquire ALLOCATOR, Release ALLOCATOR, Release INPUT] @ first_trace False both_code)"
    by (simp add: code_defs)
  have "trace False key_event_code
      (([Acquire INPUT, Acquire ALLOCATOR, Release ALLOCATOR, Release INPUT] @ first_trace False both_code) @ [])"
    unfolding key_event_code_def by (rule trace.choice [OF _ key trace.finish]) simp
  from trace.choice [OF _ this trace_first [of "[Locked PICS []]" False], of "[key_event_code, []]"]
  have "trace False keyboard_code
      (Acquire INPUT # Acquire ALLOCATOR # [Release ALLOCATOR, Release INPUT] @ first_trace False both_code
        @ [Acquire PICS, Release PICS])"
    by (simp add: keyboard_code_def)
  then show ?thesis by blast
qed

text \<open>A \<^verbatim>\<open>meminfo\<close> command, up to the moment it holds the heap's lock.\<close>

lemma meminfo_locks_heap:
  "\<exists>pre post. trace True (ready_code @ main_loop_code) (pre @ Acquire ALLOCATOR # post)
     \<and> trace True (ready_code @ [Locked SCHEDULER []] @ pop_line_code) pre"
proof -
  define r s p where "r = first_trace True ready_code" and "s = first_trace True [Locked SCHEDULER []]"
    and "p = first_trace True pop_line_code"
  have r: "trace True ready_code r" and s: "trace True [Locked SCHEDULER []] s"
    and p: "trace True pop_line_code p"
    unfolding r_def s_def p_def by (rule trace_first, simp add: code_defs)+
  have poll: "trace True poll_code []" unfolding poll_code_def by (intro trace.loop_end trace.finish)
  obtain tl where tl: "trace True (print_prompt_code @ [alloc_code]) tl"
    using trace_exists [of "print_prompt_code @ [alloc_code]" True] by (auto simp: code_defs)
  obtain sy where sy: "trace True say_code sy"
    using trace_exists [of say_code True] by (auto simp: code_defs)
  have "trace True (heap_stats_code @ say_code) (Acquire ALLOCATOR # Release ALLOCATOR # sy)"
    using trace_append [OF trace_first [of heap_stats_code] sy] by (simp add: heap_stats_code_def)
  then have cmd: "trace True command_code ((Acquire ALLOCATOR # Release ALLOCATOR # sy) @ [])"
    unfolding command_code_def by (intro trace.choice [OF _ _ trace.finish]) simp_all
  have "trace True [Choice [[], command_code @ print_prompt_code @ [alloc_code]]]
      ((((Acquire ALLOCATOR # Release ALLOCATOR # sy) @ []) @ tl) @ [])"
    by (rule trace.choice [OF _ trace_append [OF cmd tl] trace.finish]) simp
  from trace_append [OF poll trace_append [OF poll trace_append [OF p this]]]
  have once: "trace True run_once_code (p @ Acquire ALLOCATOR # Release ALLOCATOR # sy @ tl)"
    by (simp add: run_once_code_def)
  have "trace True [Choice [[], run_once_code], Locked SCHEDULER []]
      ((p @ Acquire ALLOCATOR # Release ALLOCATOR # sy @ tl) @ s)"
    by (rule trace.choice [OF _ once s]) simp
  then have "trace True [Choice [[], [Choice [[], run_once_code], Locked SCHEDULER []]]]
      (((p @ Acquire ALLOCATOR # Release ALLOCATOR # sy @ tl) @ s) @ [])"
    by (intro trace.choice [OF _ _ trace.finish]) simp_all
  from trace.loop [OF trace_append [OF s this], of "[]" "[]"]
  have "trace True main_loop_code (s @ p @ Acquire ALLOCATOR # Release ALLOCATOR # sy @ tl @ s)"
    by (simp add: main_loop_code_def trace.loop_end trace.finish)
  from trace_append [OF r this] trace_append [OF r trace_append [OF s p]]
  show ?thesis by (metis append.assoc)
qed

lemma boot_and_meminfo:
  "\<exists>m0 m. lock_start m0 \<and> lock_step\<^sup>*\<^sup>* m0 m \<and> isr m = None \<and> irq m
     \<and> held_main m = {ALLOCATOR} \<and> held_isr m = {}"
proof -
  obtain boot where boot: "trace False boot_code boot" using boot_runs by blast
  obtain pre post where main: "trace True (ready_code @ main_loop_code) (pre @ Acquire ALLOCATOR # post)"
    and pre: "trace True (ready_code @ [Locked SCHEDULER []] @ pop_line_code) pre"
    using meminfo_locks_heap by blast
  let ?es = "boot @ Sti # pre @ [Acquire ALLOCATOR]"
  define m0 where "m0 = \<lparr>todo = ?es @ post, isr = None, held_main = {}, held_isr = {}, irq = False\<rparr>"
  have start: "lock_start m0" unfolding lock_start_def m0_def using boot main by auto
  have "disciplined [] True (ready_code @ [Locked SCHEDULER []] @ pop_line_code)"
    by (simp add: code_defs handler_locks_def less_lock_def)
  then have "fold main_event pre (m0\<lparr>irq := True\<rparr>) = m0\<lparr>irq := True\<rparr>"
    by (rule trace_balanced [OF pre]) (simp_all add: m0_def)
  moreover have "fold main_event boot m0 = m0"
    by (rule trace_balanced [OF boot boot_disciplined]) (simp_all add: m0_def)
  ultimately have "fold main_event ?es m0 = m0\<lparr>irq := True, held_main := {ALLOCATOR}\<rparr>"
    by (simp add: m0_def)
  moreover have "lock_step\<^sup>*\<^sup>* m0 ((fold main_event ?es m0)\<lparr>todo := post\<rparr>)"
    by (rule main_events_run [OF lock_inv_start [OF start]]) (simp_all add: m0_def)
  ultimately show ?thesis using start by (intro exI [of _ m0] exI conjI) (auto simp: m0_def)
qed

lemma heap_lock_wait_reached:
  "\<exists>m0 m. lock_start m0 \<and> lock_step\<^sup>*\<^sup>* m0 m \<and> waits_for m ALLOCATOR"
proof -
  obtain m0 m where m: "lock_start m0" "lock_step\<^sup>*\<^sup>* m0 m" "isr m = None" "irq m"
    "held_main m = {ALLOCATOR}" "held_isr m = {}" using boot_and_meminfo by blast
  obtain es where "trace False keyboard_code (Acquire INPUT # Acquire ALLOCATOR # es)"
    using keyboard_allocates by blast
  with m have "lock_step m (m\<lparr>isr := Some (Acquire INPUT # Acquire ALLOCATOR # es), irq := False\<rparr>)"
    by (intro lock_step.interrupt [of _ keyboard_code]) (simp_all add: handler_codes_def)
  moreover have "lock_step (m\<lparr>isr := Some (Acquire INPUT # Acquire ALLOCATOR # es), irq := False\<rparr>)
      (m\<lparr>irq := False, isr := Some (Acquire ALLOCATOR # es), held_isr := {INPUT}\<rparr>)"
    using m lock_step.isr [of "m\<lparr>isr := Some (Acquire INPUT # Acquire ALLOCATOR # es), irq := False\<rparr>"]
    by (simp add: waits_for_def next_event_def)
  ultimately have "lock_step\<^sup>*\<^sup>* m0 (m\<lparr>irq := False, isr := Some (Acquire ALLOCATOR # es), held_isr := {INPUT}\<rparr>)"
    using m(2) by (meson rtranclp.rtrancl_into_rtrancl)
  moreover have "waits_for (m\<lparr>irq := False, isr := Some (Acquire ALLOCATOR # es), held_isr := {INPUT}\<rparr>) ALLOCATOR"
    using m by (simp add: waits_for_def next_event_def)
  ultimately show ?thesis using m(1) by blast
qed

subsection \<open>Deadlock\<close>




end
