(* ===== verification/Spec2Isabelle.thy ===== *)
theory Spec2Isabelle
  imports Transcript Atomicity Power_On Loader_Console Locks
begin

text \<open>
  A verification library for open_kernel, a small x86_64 kernel in Rust with its UEFI
  bootloader. The theories model the Rust sources under \<^verbatim>\<open>src/src\<close> (the kernel),
  \<^verbatim>\<open>src/bootloader/src\<close> and \<^verbatim>\<open>src/bootloader_api/src\<close>, function by function, and prove what
  makes each part correct.

  The program. The bootloader loads the kernel's segments, asks the firmware for the memory
  map and the frame buffer and jumps to the kernel (\<^verbatim>\<open>bootloader/src/main.rs\<close>, with the
  structures of \<^verbatim>\<open>bootloader_api\<close>). The kernel takes frames from the memory map and maps its
  heap (\<^verbatim>\<open>memory.rs\<close>, \<^verbatim>\<open>allocator.rs\<close>), sets up interrupts (\<^verbatim>\<open>pic.rs\<close>, \<^verbatim>\<open>interrupts.rs\<close>), fills
  a table of eight cooperative tasks (\<^verbatim>\<open>scheduler.rs\<close>) and runs them for ever. One task is the
  shell (\<^verbatim>\<open>shell.rs\<close>): it takes the lines that the keyboard and serial interrupts edit
  (\<^verbatim>\<open>input.rs\<close>) and runs them as commands on the file system (\<^verbatim>\<open>vfs.rs\<close>), the task table, the
  clock (\<^verbatim>\<open>rtc.rs\<close>), the network stack (\<^verbatim>\<open>net.rs\<close>), the drivers (\<^verbatim>\<open>driver.rs\<close>) and the address
  spaces (\<^verbatim>\<open>process_memory.rs\<close>). Output goes to the serial line and to the framebuffer console
  (\<^verbatim>\<open>vga_buffer.rs\<close>, \<^verbatim>\<open>vga_font.rs\<close>).

  Conventions (theories Rust_Prelude, Rust_Strings, Rust_Format, Console). The build is a debug
  build, so an overflowing operation panics. A panic is a value: the result type is
  \<open>panic + 'a\<close>, and every \<^verbatim>\<open>panic!\<close>, \<^verbatim>\<open>expect\<close>, \<^verbatim>\<open>unwrap\<close>, failed assertion, slice error and
  checked overflow is a branch of it. A raw-pointer access outside the memory it is meant for
  is \<open>Wild_Access\<close>. A struct is a record, an enum a datatype, \<^verbatim>\<open>u8\<close> to \<^verbatim>\<open>u64\<close> are words, a
  \<^verbatim>\<open>usize\<close> that counts or indexes is a \<open>nat\<close> with the bound written out where it can be
  reached, \<^verbatim>\<open>i64\<close> is \<open>int\<close> with its range checked. A string is the list of its bytes. What a
  function prints is a list of \<open>out\<close> values. Crates (\<^verbatim>\<open>x86_64\<close>, \<^verbatim>\<open>uefi\<close>, \<^verbatim>\<open>xmas_elf\<close>), devices
  and the firmware are parameters; what is relied on of them is a locale's assumptions.

  The theories, in the order of their imports:

  \<^item> File_Store, Vfs_Tree, Vfs: \<^verbatim>\<open>vfs.rs\<close>. The specification is a map from lists of path
    components to entries, with four operations; the locale \<open>file_store\<close> states it as laws and
    proves its clients' facts, the node tree (\<^verbatim>\<open>FileSystem\<close>) interprets it. Vfs adds the two
    globals and path resolution, the file system's invariant and that every public function
    keeps it.

  \<^item> Scheduler: \<^verbatim>\<open>scheduler.rs\<close>. The operations on the table, the main loop as rounds, and the
    transition system in which timer interrupts and table operations fall between the two
    critical sections. Fairness is by a measure: the distance from the current position plus
    the logger tasks that may still end without yielding.

  \<^item> Input, Interrupts, Typing: \<^verbatim>\<open>input.rs\<close>, \<^verbatim>\<open>pic.rs\<close>, \<^verbatim>\<open>interrupts.rs\<close> and the shell's copies of
    the serial decoder. The bounded queues interpret \<open>drop_oldest_queue\<close>. A polling loop is a
    \<open>partial_function\<close>, not returning is \<open>None\<close>; on a device that satisfies \<open>byte_device\<close> it
    returns and has handled exactly the waiting bytes. Typing follows the bytes from the
    device to the lines the shell takes.

  \<^item> Rtc: \<^verbatim>\<open>rtc.rs\<close>, over any CMOS chip; when the wait ends, and that the conversion is right.

  \<^item> Boot_Info, Memory, Loader: \<^verbatim>\<open>bootloader_api\<close>, \<^verbatim>\<open>memory.rs\<close> with \<^verbatim>\<open>allocator.rs\<close>, and the
    bootloader. The locale \<open>frame_source\<close> is the contract of a frame allocator, which
    \<open>phys_frames\<close> shows of the boot allocator; the heap's mapping rests on it.

  \<^item> Loader_Console: what the bootloader prints, and that it is true; the recorded run in
    \<^verbatim>\<open>serial.log\<close> is the example.

  \<^item> Chain: the bootloader's memory map in the frame allocator's hands. With a firmware that
    reports its memory as the specification says, no frame overlaps the loaded kernel.

  \<^item> Gdt: \<^verbatim>\<open>gdt.rs\<close>, over the descriptor table of the crate.

  \<^item> Driver, Net, Process_Memory: \<^verbatim>\<open>driver.rs\<close> (the traits as locales), \<^verbatim>\<open>net.rs\<close>,
    \<^verbatim>\<open>process_memory.rs\<close>.

  \<^item> Font, Vga: \<^verbatim>\<open>vga_font.rs\<close>, \<^verbatim>\<open>vga_buffer.rs\<close>. The console is shown to refine a character
    terminal with wrapping and scrolling: every pixel is that of the terminal's grid.

  \<^item> Shell, Shell_Facts: \<^verbatim>\<open>shell.rs\<close>. The arms of \<^verbatim>\<open>handle_command\<close> are grouped by what they change;
    each group has its definition. The facts are what a command changes, when one panics,
    that both consoles agree, and what \<^verbatim>\<open>calc\<close> computes.

  \<^item> Kernel: the main loop, the shell's rounds and the interrupt handlers as one transition
    system. It is a \<open>stuttering_refinement\<close> of the scheduler's, and its invariant joins those of
    the task table, the file system and the line editor.

  \<^item> Progress: liveness of that system. A run is observed through the tasks it dispatches and
    the lines the shell takes; the distance of the scheduler's position from the shell's slot,
    plus the loggers that may still end, bounds the dispatches until a waiting line is run.

  \<^item> Kernel_Talk: the same runs with the bytes that are typed and the output that is sent.

  \<^item> Shell_Files: what the file commands promise: an abstract store of files with a current
    place that serves one request per line. Sessions on the shell are shown to give its
    answers, and the files of the running kernel to be those it has after the lines taken.

  \<^item> Atomicity: why a command is one step of Kernel's system: the effect of a handler commutes
    with it.

  \<^item> Display: what is printed, drawn by the framebuffer writer. It joins the shell's output
    and the echo of typed keys to the terminal that Vga refines.

  \<^item> Transcript: whole runs from the keys to the files and to the screen: the shell takes the
    lines that a plain line editor reads off the typed bytes, in order, and all that is
    printed and echoed is what the screen shows.

  \<^item> Boot: \<^verbatim>\<open>main.rs\<close> and \<^verbatim>\<open>memory::init\<close>. \<^verbatim>\<open>kernel_main\<close> is a list of steps on the machine's
    registers, consoles, heap and kernel state, in the source's order; it ends in the state
    the transition system of Kernel starts from, with the transcript of the repository's
    \<^verbatim>\<open>serial.log\<close>, or in the panic of the heap set-up.

  \<^item> Power_On: bootloader and \<^verbatim>\<open>kernel_main\<close> together; how much memory is enough.

  \<^item> Locks: the spin locks and interrupt masking of all functions as nested scopes, a machine
    on which handlers interrupt the main context, and a discipline (an order on the locks; a
    handler's lock only with interrupts off) that a function checks on the scopes. The
    discipline leaves one lock that can be waited for for ever, the heap's, and a run shows
    that it is.

  Bounds. The task table has 8 slots, the line 128 characters, the queue 8 lines, the history
  16, the memory map 256 regions, the heap 64 pages: the source's constants. No fuel is used:
  recursion is structural, or a \<open>partial_function\<close> with a theorem that says when it returns.

  Not modelled. The heap itself is the crate \<^verbatim>\<open>linked_list_allocator\<close>; running out of heap stops
  the kernel and is not a branch of the model, except during start-up before the heap exists.
  Programming the 8259 chips and the page tables is done by crates. The kernel is taken to be
  entered with interrupts disabled, as the recorded flags show; nothing in the source disables
  them. The percentage that
  \<^verbatim>\<open>meminfo\<close> prints is a floating-point text and comes from the environment. Concurrency is that of one processor: an interrupt between any two steps.
\<close>

end
